(* ===== verification/Prelude.thy ===== *)
theory Prelude
  imports Main "HOL-Library.AList"
begin

text \<open>
  The shared vocabulary of the development: byte strings, Python text, insertion-ordered
  dictionaries, the exceptions the program raises, and the generic lemmas and fact collections
  the component theories rely on.

  A Python \<open>bytes\<close> object is a list of \<^typ>\<open>char\<close>: the HOL type \<open>char\<close> has exactly the 256
  values of a byte and gives byte literals (\<open>''GET''\<close>). A Python \<open>str\<close> is a list of code
  points. A Python \<open>dict\<close> keeps insertion order, which \<open>HGETALL\<close>, the RDB writer, the AOF
  rewrite and the eviction tie-break all observe, so it is an association list; the locale
  \<open>ordered_dict\<close> states the contract of the dictionary operations the program uses and is
  interpreted on their definitions.
\<close>

section \<open>Types and exceptions\<close>

type_synonym bytes = "char list"
type_synonym pystr = "nat list"
type_synonym ('k, 'v) dict = "('k \<times> 'v) list"

text \<open>
  The reasons a \<open>ProtocolError\<close> is raised with: one constructor per \<open>raise\<close> of the source,
  carrying the values its message interpolates.
\<close>

datatype proto_error =
    BufferLimit int
  | InvalidPrefix char
  | InvalidInteger bytes
  | InvalidBulkLength bytes
  | NegativeBulkLength int
  | BulkTooLong int
  | MissingTrailer
  | ArrayTooDeep int
  | InvalidArrayLength bytes
  | NegativeArrayLength int
  | ArrayTooLong int
  | ExpectedArrayCommand
  | BadCommandArg string

text \<open>The reasons an \<open>RdbError\<close> is raised with.\<close>

datatype rdb_error =
    RdbTooLarge int
  | RdbTooShort
  | RdbUnexpectedEOF
  | RdbBadMagic bytes
  | RdbBadVersion int
  | RdbUnknownType nat
  | RdbChecksum
  | RdbBadFooter
  | RdbTrailing

text \<open>The reasons an \<open>AofError\<close> is raised with.\<close>

datatype aof_error = AofTooLarge int | AofProtocol proto_error

text \<open>
  The exceptions. \<open>RespError\<close> and \<open>OSError\<close> carry their text because it reaches the client.
  \<open>UsageError\<close> is \<open>argparse\<close>'s \<open>parser.error\<close>, named by the option it complains about.
\<close>

datatype py_exn =
    ProtocolError proto_error
  | RdbError rdb_error
  | AofError aof_error
  | OSError pystr
  | UsageError string
  | RespError pystr
  | WrongTypeError
  | MemoryLimitError
  | ValueError
  | IndexError
  | TypeError
  | AssertionError
  | StructError
  | UnicodeEncodeError
  | UnicodeDecodeError
  | OverflowError

type_synonym 'a res = "py_exn + 'a"

text \<open>Sequencing of fallible computations: the first exception wins.\<close>

definition bind_res :: "'a res \<Rightarrow> ('a \<Rightarrow> 'b res) \<Rightarrow> 'b res" where
  "bind_res r f = (case r of Inl e \<Rightarrow> Inl e | Inr x \<Rightarrow> f x)"

lemma bind_res_simps [simp]:
  "bind_res (Inl e) f = Inl e"
  "bind_res (Inr x) f = f x"
  by (simp_all add: bind_res_def)

lemma bind_res_Inr_iff: "bind_res r f = Inr y \<longleftrightarrow> (\<exists>x. r = Inr x \<and> f x = Inr y)"
  by (cases r) auto

lemma bind_res_cong [fundef_cong]:
  "r = r' \<Longrightarrow> (\<And>x. r' = Inr x \<Longrightarrow> f x = f' x) \<Longrightarrow> bind_res r f = bind_res r' f'"
  by (cases r') auto

fun map_res :: "('a \<Rightarrow> 'b res) \<Rightarrow> 'a list \<Rightarrow> 'b list res" where
  "map_res f [] = Inr []"
| "map_res f (x # xs) =
     bind_res (f x) (\<lambda>y. bind_res (map_res f xs) (\<lambda>ys. Inr (y # ys)))"

lemma map_res_cong [fundef_cong]:
  "xs = ys \<Longrightarrow> (\<And>x. x \<in> set ys \<Longrightarrow> f x = g x) \<Longrightarrow> map_res f xs = map_res g ys"
  by (induction xs arbitrary: ys) (auto intro!: bind_res_cong)

lemma map_res_Inr [simp]: "map_res (\<lambda>x. Inr (f x)) xs = Inr (map f xs)"
  by (induction xs) auto

lemma map_res_all_Inr:
  "(\<And>x. x \<in> set xs \<Longrightarrow> f x = Inr (g x)) \<Longrightarrow> map_res f xs = Inr (map g xs)"
  by (induction xs) auto

lemma length_map_res: "map_res f xs = Inr ys \<Longrightarrow> length ys = length xs"
  by (induction xs arbitrary: ys) (auto simp: bind_res_Inr_iff)

section \<open>Fact collections\<close>

named_theorems inv_intros \<open>operations that preserve a component's invariant\<close>
named_theorems touch_simps \<open>what an operation does to the fields of a record\<close>
named_theorems enc_simps \<open>what the encoders produce\<close>

section \<open>Insertion-ordered dictionaries\<close>

definition dict_get :: "('k, 'v) dict \<Rightarrow> 'k \<Rightarrow> 'v option" where
  "dict_get d k = map_of d k"

definition dict_set :: "'k \<Rightarrow> 'v \<Rightarrow> ('k, 'v) dict \<Rightarrow> ('k, 'v) dict" where
  "dict_set k v d = AList.update k v d"

definition dict_del :: "'k \<Rightarrow> ('k, 'v) dict \<Rightarrow> ('k, 'v) dict" where
  "dict_del k d = AList.delete k d"

definition dict_keys :: "('k, 'v) dict \<Rightarrow> 'k list" where
  "dict_keys d = map fst d"

definition dict_ok :: "('k, 'v) dict \<Rightarrow> bool" where
  "dict_ok d \<longleftrightarrow> distinct (map fst d)"

text \<open>
  What the program relies on when it uses a \<open>dict\<close>: lookups see the last write, a write to a
  present key keeps the key's position, a write to a new key appends, a deletion removes the key
  and keeps the order of the others.
\<close>

locale ordered_dict =
  fixes empty :: "'d"
    and get :: "'d \<Rightarrow> 'k \<Rightarrow> 'v option"
    and put :: "'k \<Rightarrow> 'v \<Rightarrow> 'd \<Rightarrow> 'd"
    and rem :: "'k \<Rightarrow> 'd \<Rightarrow> 'd"
    and keys :: "'d \<Rightarrow> 'k list"
    and ok :: "'d \<Rightarrow> bool"
  assumes ok_empty: "ok empty"
    and keys_empty: "keys empty = []"
    and ok_put: "ok d \<Longrightarrow> ok (put k v d)"
    and ok_rem: "ok d \<Longrightarrow> ok (rem k d)"
    and get_put: "get (put k v d) k' = (if k' = k then Some v else get d k')"
    and get_rem: "get (rem k d) k' = (if k' = k then None else get d k')"
    and keys_put: "keys (put k v d) = (if k \<in> set (keys d) then keys d else keys d @ [k])"
    and keys_rem: "keys (rem k d) = filter (\<lambda>k'. k' \<noteq> k) (keys d)"
    and ok_distinct: "ok d \<Longrightarrow> distinct (keys d)"
    and get_None: "get d k = None \<longleftrightarrow> k \<notin> set (keys d)"
begin

lemma get_empty: "get empty k = None"
  by (simp add: get_None keys_empty)

lemma put_present_keeps_order: "k \<in> set (keys d) \<Longrightarrow> keys (put k v d) = keys d"
  by (simp add: keys_put)

lemma put_new_length: "k \<notin> set (keys d) \<Longrightarrow> length (keys (put k v d)) = Suc (length (keys d))"
  by (simp add: keys_put)

lemma set_keys_put: "set (keys (put k v d)) = insert k (set (keys d))"
  by (auto simp: keys_put)

lemma set_keys_rem: "set (keys (rem k d)) = set (keys d) - {k}"
  by (auto simp: keys_rem)

lemma rem_shrinks:
  assumes "k \<in> set (keys d)"
  shows "length (keys (rem k d)) < length (keys d)"
  unfolding keys_rem using assms by (intro length_filter_less [of k]) auto

text \<open>Storing a list of pairs one after the other, as a dictionary comprehension does.\<close>

lemma get_fold_put:
  "get (fold (\<lambda>(k, v). put k v) ps d) k = (case map_of (rev ps) k of None \<Rightarrow> get d k | Some v \<Rightarrow> Some v)"
proof (induction ps arbitrary: d)
  case Nil
  then show ?case by simp
next
  case (Cons p ps)
  obtain a b where p: "p = (a, b)" by (cases p)
  have "get (fold (\<lambda>(k, v). put k v) (p # ps) d) k
      = get (fold (\<lambda>(k, v). put k v) ps (put a b d)) k"
    by (simp add: p)
  also have "\<dots> = (case map_of (rev ps) k of None \<Rightarrow> get (put a b d) k | Some v \<Rightarrow> Some v)"
    by (rule Cons.IH)
  also have "\<dots> = (case map_of (rev (p # ps)) k of None \<Rightarrow> get d k | Some v \<Rightarrow> Some v)"
    by (auto simp: p get_put map_add_def split: option.splits)
  finally show ?case .
qed

lemma ok_fold_put: "ok d \<Longrightarrow> ok (fold (\<lambda>(k, v). put k v) ps d)"
  by (induction ps arbitrary: d) (auto simp: ok_put)

end

lemma set_dict_keys: "set (dict_keys d) = fst ` set d"
  by (simp add: dict_keys_def)

lemma dict_keys_set:
  "dict_keys (dict_set k v d) = (if k \<in> set (dict_keys d) then dict_keys d else dict_keys d @ [k])"
  by (induction d) (auto simp: dict_keys_def dict_set_def)

lemma dict_keys_del: "dict_keys (dict_del k d) = filter (\<lambda>k'. k' \<noteq> k) (dict_keys d)"
  by (induction d) (auto simp: dict_keys_def dict_del_def AList.delete_eq)

interpretation pydict: ordered_dict "[]" dict_get dict_set dict_del dict_keys dict_ok
proof unfold_locales
  fix k k' :: 'a and v :: 'b and d :: "('a, 'b) dict"
  show "dict_ok ([] :: ('a, 'b) dict)" and "dict_keys ([] :: ('a, 'b) dict) = []"
    by (simp_all add: dict_ok_def dict_keys_def)
  show "dict_ok d \<Longrightarrow> dict_ok (dict_set k v d)"
    by (simp add: dict_ok_def dict_set_def distinct_update)
  show "dict_ok d \<Longrightarrow> dict_ok (dict_del k d)"
    by (simp add: dict_ok_def dict_del_def distinct_delete)
  show "dict_get (dict_set k v d) k' = (if k' = k then Some v else dict_get d k')"
    by (simp add: dict_get_def dict_set_def update_conv)
  show "dict_get (dict_del k d) k' = (if k' = k then None else dict_get d k')"
    by (simp add: dict_get_def dict_del_def delete_conv)
  show "dict_keys (dict_set k v d) = (if k \<in> set (dict_keys d) then dict_keys d else dict_keys d @ [k])"
    by (rule dict_keys_set)
  show "dict_keys (dict_del k d) = filter (\<lambda>k'. k' \<noteq> k) (dict_keys d)"
    by (rule dict_keys_del)
  show "dict_ok d \<Longrightarrow> distinct (dict_keys d)"
    by (simp add: dict_ok_def dict_keys_def)
  show "dict_get d k = None \<longleftrightarrow> k \<notin> set (dict_keys d)"
    by (simp add: dict_get_def dict_keys_def map_of_eq_None_iff)
qed

lemmas dict_simps =
  pydict.get_put pydict.get_rem pydict.set_keys_put pydict.set_keys_rem pydict.get_empty

lemmas dict_intros = pydict.ok_put pydict.ok_rem pydict.ok_empty

lemma dict_get_SomeD: "dict_get d k = Some v \<Longrightarrow> (k, v) \<in> set d"
  by (simp add: dict_get_def map_of_SomeD)

lemma dict_get_in_keys: "dict_get d k = Some v \<Longrightarrow> k \<in> set (dict_keys d)"
  using pydict.get_None [of d k] by auto

lemma dict_get_iff: "dict_ok d \<Longrightarrow> dict_get d k = Some v \<longleftrightarrow> (k, v) \<in> set d"
  by (simp add: dict_ok_def dict_get_def)

lemma set_dict_set_subset: "set (dict_set k v d) \<subseteq> insert (k, v) (set d)"
  by (induction d) (auto simp: dict_set_def)

lemma set_dict_del_subset: "set (dict_del k d) \<subseteq> set d"
  by (auto simp: dict_del_def AList.delete_eq)

lemma dict_del_absent: "k \<notin> set (dict_keys d) \<Longrightarrow> dict_del k d = d"
  by (auto simp: dict_del_def dict_keys_def AList.delete_eq image_iff intro!: filter_True)

lemma length_dict_del: "k \<in> set (dict_keys d) \<Longrightarrow> length (dict_del k d) < length d"
  using pydict.rem_shrinks [of k d] by (simp add: dict_keys_def)

lemma dict_set_absent: "k \<notin> set (dict_keys d) \<Longrightarrow> dict_set k v d = d @ [(k, v)]"
  by (induction d) (auto simp: dict_keys_def dict_set_def)

text \<open>Rebuilding a dictionary from its own items gives it back.\<close>

lemma fold_dict_set_append:
  "distinct (map fst (d @ ps)) \<Longrightarrow> fold (\<lambda>(k, v). dict_set k v) ps d = d @ ps"
proof (induction ps arbitrary: d)
  case Nil
  then show ?case by simp
next
  case (Cons p ps)
  obtain a b where p: "p = (a, b)" by (cases p)
  from Cons.prems have "a \<notin> set (dict_keys d)" by (auto simp: p dict_keys_def)
  then have "dict_set a b d = d @ [p]" by (simp add: dict_set_absent p)
  with Cons.prems show ?case by (simp add: Cons.IH p)
qed

lemma fold_dict_set_self: "dict_ok ps \<Longrightarrow> fold (\<lambda>(k, v). dict_set k v) ps [] = ps"
  using fold_dict_set_append [of "[]" ps] by (simp add: dict_ok_def)

section \<open>Lists\<close>

lemma take_append_length [simp]: "take (length xs) (xs @ ys) = xs"
  by simp

lemma drop_append_length [simp]: "drop (length xs) (xs @ ys) = ys"
  by simp

end
