(* ===== verification/PyLib.thy ===== *)
theory PyLib
  imports Prelude
begin

text \<open>
  The parts of the Python language and standard library the program computes with: ASCII case
  mapping, \<open>int()\<close> on byte strings, decimal formatting, \<open>bytes.find(b"\r\n", start)\<close>, and
  UTF-8 encoding and decoding with replacement.
\<close>

section \<open>Bytes\<close>

definition cr :: char where "cr = CHR 0x0D"
definition lf :: char where "lf = CHR 0x0A"
definition crlf :: bytes where "crlf = [cr, lf]"

lemma cr_lf_neq [simp]: "cr \<noteq> lf" "lf \<noteq> cr"
  by (simp_all add: cr_def lf_def)

definition byte_val :: "char \<Rightarrow> nat" where
  "byte_val c = of_char c"

lemma byte_val_less [simp]: "byte_val c < 256"
  by (simp add: byte_val_def)

lemma byte_val_inj [simp]: "byte_val c = byte_val d \<longleftrightarrow> c = d"
  by (simp add: byte_val_def of_char_eq_iff)

text \<open>\<open>bytes.upper()\<close> and \<open>bytes.lower()\<close> map the ASCII letters only.\<close>

definition upper_char :: "char \<Rightarrow> char" where
  "upper_char c = (if 97 \<le> byte_val c \<and> byte_val c \<le> 122 then char_of (byte_val c - 32) else c)"

definition py_upper :: "bytes \<Rightarrow> bytes" where
  "py_upper = map upper_char"

definition lower_char :: "char \<Rightarrow> char" where
  "lower_char c = (if 65 \<le> byte_val c \<and> byte_val c \<le> 90 then char_of (byte_val c + 32) else c)"

definition py_lower :: "bytes \<Rightarrow> bytes" where
  "py_lower = map lower_char"

lemma byte_val_char_of: "n < 256 \<Longrightarrow> byte_val (char_of n) = n"
  by (simp add: byte_val_def)

lemma upper_char_idem [simp]: "upper_char (upper_char c) = upper_char c"
  by (auto simp: upper_char_def byte_val_char_of)

lemma py_upper_idem [simp]: "py_upper (py_upper s) = py_upper s"
  by (simp add: py_upper_def)

section \<open>Decimal numbers\<close>

definition digit_char :: "nat \<Rightarrow> char" where
  "digit_char d = char_of (48 + d)"

definition is_digit_char :: "char \<Rightarrow> bool" where
  "is_digit_char c \<longleftrightarrow> 48 \<le> byte_val c \<and> byte_val c \<le> 57"

definition digit_val :: "char \<Rightarrow> int" where
  "digit_val c = int (byte_val c) - 48"

text \<open>Whitespace as \<open>int()\<close> strips it: tab, line feed, VT, FF, carriage return, space.\<close>

definition is_space_char :: "char \<Rightarrow> bool" where
  "is_space_char c \<longleftrightarrow> 9 \<le> byte_val c \<and> byte_val c \<le> 13 \<or> byte_val c = 32"

fun dec_nat :: "nat \<Rightarrow> bytes" where
  "dec_nat n = (if n < 10 then [digit_char n] else dec_nat (n div 10) @ [digit_char (n mod 10)])"

declare dec_nat.simps [simp del]

definition dec_int :: "int \<Rightarrow> bytes" where
  "dec_int i = (if i < 0 then CHR ''-'' # dec_nat (nat (- i)) else dec_nat (nat i))"

text \<open>
  The interpreter's limit on conversions between \<open>int\<close> and decimal text
  (\<open>sys.get_int_max_str_digits()\<close>, 4300 by default); beyond it both directions raise
  \<open>ValueError\<close>.
\<close>

definition int_max_str_digits :: nat where
  "int_max_str_digits = 4300"

text \<open>Formatting with \<open>:d\<close> or \<open>str()\<close>.\<close>

definition py_format_int :: "int \<Rightarrow> bytes res" where
  "py_format_int i =
     (if length (dec_nat (nat \<bar>i\<bar>)) > int_max_str_digits then Inl ValueError else Inr (dec_int i))"

fun no_double_underscore :: "bytes \<Rightarrow> bool" where
  "no_double_underscore (a # b # cs) \<longleftrightarrow>
     \<not> (a = CHR ''_'' \<and> b = CHR ''_'') \<and> no_double_underscore (b # cs)"
| "no_double_underscore _ \<longleftrightarrow> True"

definition digits_value :: "bytes \<Rightarrow> int" where
  "digits_value ds = foldl (\<lambda>a c. 10 * a + digit_val c) 0 ds"

definition py_unsigned :: "bytes \<Rightarrow> int option" where
  "py_unsigned s =
     (let numeric = (\<lambda>c. is_digit_char c \<or> c = CHR ''_'');
          body = takeWhile numeric s; rest = dropWhile numeric s; ds = filter is_digit_char body
      in if body \<noteq> [] \<and> hd body \<noteq> CHR ''_'' \<and> last body \<noteq> CHR ''_''
            \<and> no_double_underscore body \<and> list_all is_space_char rest
            \<and> length ds \<le> int_max_str_digits
         then Some (digits_value ds) else None)"

text \<open>
  \<open>int(b)\<close> for a byte string \<open>b\<close>, base ten: surrounding whitespace, one sign, digits with single
  underscores between them; \<open>None\<close> is \<open>ValueError\<close>.
\<close>

definition py_int :: "bytes \<Rightarrow> int option" where
  "py_int b =
     (case dropWhile is_space_char b of
        [] \<Rightarrow> None
      | c # cs \<Rightarrow>
          (if c = CHR ''-'' then map_option uminus (py_unsigned cs)
           else if c = CHR ''+'' then py_unsigned cs
           else py_unsigned (c # cs)))"

subsection \<open>Formatting then parsing\<close>

lemma byte_val_digit_char: "d < 10 \<Longrightarrow> byte_val (digit_char d) = 48 + d"
  by (simp add: digit_char_def byte_val_char_of)

lemma digit_char_props:
  assumes "d < 10"
  shows "is_digit_char (digit_char d)" and "digit_val (digit_char d) = int d"
    and "\<not> is_space_char (digit_char d)"
  using assms by (auto simp: is_digit_char_def digit_val_def is_space_char_def byte_val_digit_char)

lemma dec_nat_digits: "c \<in> set (dec_nat n) \<Longrightarrow> is_digit_char c"
proof (induction n rule: dec_nat.induct)
  case (1 n)
  then show ?case
    by (subst (asm) (2) dec_nat.simps) (auto simp: digit_char_props split: if_splits)
qed

lemma dec_nat_nonempty [simp]: "dec_nat n \<noteq> []"
  by (subst dec_nat.simps) simp

lemma digits_value_snoc: "digits_value (ds @ [c]) = 10 * digits_value ds + digit_val c"
  by (simp add: digits_value_def)

lemma digits_value_dec_nat: "digits_value (dec_nat n) = int n"
proof (induction n rule: dec_nat.induct)
  case (1 n)
  show ?case
  proof (cases "n < 10")
    case True
    then show ?thesis
      by (subst dec_nat.simps) (simp add: digits_value_def digit_char_props)
  next
    case False
    with 1 have "digits_value (dec_nat (n div 10)) = int (n div 10)" by simp
    with False show ?thesis
      by (subst dec_nat.simps) (simp add: digits_value_snoc digit_char_props zmod_int zdiv_int)
  qed
qed

lemma length_dec_nat_le: "n < 10 ^ k \<Longrightarrow> 0 < k \<Longrightarrow> length (dec_nat n) \<le> k"
proof (induction n arbitrary: k rule: dec_nat.induct)
  case (1 n)
  show ?case
  proof (cases "n < 10")
    case True
    with "1.prems" show ?thesis by (subst dec_nat.simps) simp
  next
    case False
    with "1.prems"(1) have "k \<noteq> 1" by auto
    with "1.prems"(2) obtain k' where k: "k = Suc k'" and k': "0 < k'"
      by (cases k) auto
    from "1.prems"(1) k have "n div 10 < 10 ^ k'"
      by (simp add: less_mult_imp_div_less mult.commute)
    with False 1 k' have "length (dec_nat (n div 10)) \<le> k'" by simp
    with False k show ?thesis by (subst dec_nat.simps) simp
  qed
qed

lemma underscore_not_digit: "is_digit_char c \<Longrightarrow> c \<noteq> CHR ''_''"
  by (auto simp: is_digit_char_def byte_val_def)

lemma no_double_underscore_digits:
  "(\<And>c. c \<in> set ds \<Longrightarrow> is_digit_char c) \<Longrightarrow> no_double_underscore ds"
proof (induction ds rule: no_double_underscore.induct)
  case (1 a b cs)
  then show ?case using underscore_not_digit [of a] by auto
qed auto

lemma py_unsigned_digits:
  assumes ds: "\<And>c. c \<in> set ds \<Longrightarrow> is_digit_char c" and ne: "ds \<noteq> []"
    and len: "length ds \<le> int_max_str_digits"
  shows "py_unsigned ds = Some (digits_value ds)"
proof -
  have body: "takeWhile (\<lambda>c. is_digit_char c \<or> c = CHR ''_'') ds = ds"
    and rest: "dropWhile (\<lambda>c. is_digit_char c \<or> c = CHR ''_'') ds = []"
    and flt: "filter is_digit_char ds = ds"
    using ds by (auto simp: takeWhile_eq_all_conv dropWhile_eq_Nil_conv intro!: filter_True)
  have "hd ds \<noteq> CHR ''_''" and "last ds \<noteq> CHR ''_''"
    using ne ds [of "hd ds"] ds [of "last ds"] underscore_not_digit by auto
  then show ?thesis
    using ne len no_double_underscore_digits [OF ds]
    by (simp add: py_unsigned_def Let_def body rest flt)
qed

lemma py_unsigned_dec_nat:
  "length (dec_nat n) \<le> int_max_str_digits \<Longrightarrow> py_unsigned (dec_nat n) = Some (int n)"
  by (simp add: py_unsigned_digits dec_nat_digits digits_value_dec_nat)

lemma digit_char_not_sign:
  "is_digit_char c \<Longrightarrow> c \<noteq> CHR ''-'' \<and> c \<noteq> CHR ''+'' \<and> \<not> is_space_char c"
  by (auto simp: is_digit_char_def is_space_char_def byte_val_def)

lemma py_int_dec_nat:
  assumes "length (dec_nat n) \<le> int_max_str_digits"
  shows "py_int (dec_nat n) = Some (int n)"
proof -
  obtain c cs where c: "dec_nat n = c # cs" by (cases "dec_nat n") auto
  with dec_nat_digits [of c n] have "is_digit_char c" by simp
  from digit_char_not_sign [OF this] show ?thesis
    using py_unsigned_dec_nat [OF assms] by (simp add: py_int_def c)
qed

lemma py_int_dec_int:
  assumes "length (dec_nat (nat \<bar>i\<bar>)) \<le> int_max_str_digits"
  shows "py_int (dec_int i) = Some i"
proof (cases "i < 0")
  case True
  have "\<not> is_space_char (CHR ''-'')" by (simp add: is_space_char_def byte_val_def)
  moreover have "py_unsigned (dec_nat (nat (- i))) = Some (- i)"
    using py_unsigned_dec_nat [of "nat (- i)"] assms True by simp
  ultimately show ?thesis using True by (simp add: py_int_def dec_int_def)
next
  case False
  with py_int_dec_nat [of "nat i"] assms show ?thesis by (simp add: dec_int_def)
qed

lemma py_int_minus_one: "py_int ''-1'' = Some (- 1)"
  by (simp add: py_int_def py_unsigned_def is_space_char_def is_digit_char_def byte_val_def
      digits_value_def digit_val_def int_max_str_digits_def)

section \<open>Finding a line end\<close>

fun crlf_index :: "bytes \<Rightarrow> nat option" where
  "crlf_index (a # b # cs) = (if a = cr \<and> b = lf then Some 0 else map_option Suc (crlf_index (b # cs)))"
| "crlf_index _ = None"

text \<open>\<open>buf.find(b"\r\n", start)\<close>, with \<open>None\<close> for the result \<open>-1\<close>.\<close>

definition find_crlf :: "bytes \<Rightarrow> nat \<Rightarrow> nat option" where
  "find_crlf buf start = map_option ((+) start) (crlf_index (drop start buf))"

lemma crlf_index_append: "crlf_index xs = Some i \<Longrightarrow> crlf_index (xs @ ys) = Some i"
proof (induction xs arbitrary: i rule: crlf_index.induct)
  case (1 a b cs)
  then show ?case by (auto split: if_splits)
qed auto

lemma crlf_index_bound: "crlf_index xs = Some i \<Longrightarrow> i + 2 \<le> length xs"
proof (induction xs arbitrary: i rule: crlf_index.induct)
  case (1 a b cs)
  then show ?case by (fastforce split: if_splits)
qed auto

lemma crlf_index_line:
  assumes "cr \<notin> set line"
  shows "crlf_index (line @ crlf @ rest) = Some (length line)"
  using assms
proof (induction line)
  case Nil
  then show ?case by (simp add: crlf_def)
next
  case (Cons a line)
  then have IH: "crlf_index (line @ crlf @ rest) = Some (length line)" by simp
  obtain b cs where b: "line @ crlf @ rest = b # cs" by (cases line) (auto simp: crlf_def)
  from Cons.prems have "a \<noteq> cr" by auto
  with IH show ?case by (simp add: b)
qed

lemma find_crlf_append:
  assumes "find_crlf xs start = Some i"
  shows "find_crlf (xs @ ys) start = Some i"
proof -
  from assms obtain j where j: "crlf_index (drop start xs) = Some j" "i = start + j"
    by (auto simp: find_crlf_def)
  from crlf_index_bound [OF j(1)] have "start \<le> length xs" by simp
  then show ?thesis using crlf_index_append [OF j(1), of ys] j(2) by (simp add: find_crlf_def)
qed

lemma find_crlf_bounds:
  "find_crlf xs start = Some i \<Longrightarrow> start \<le> i \<and> i + 2 \<le> length xs"
  by (auto simp: find_crlf_def dest: crlf_index_bound)

lemma find_crlf_line:
  "cr \<notin> set line \<Longrightarrow>
   find_crlf (pre @ line @ crlf @ rest) (length pre) = Some (length pre + length line)"
  by (simp add: find_crlf_def crlf_index_line)

lemma cr_not_digit: "is_digit_char c \<Longrightarrow> c \<noteq> cr"
  by (auto simp: is_digit_char_def cr_def byte_val_def)

lemma cr_notin_dec_nat [simp]: "cr \<notin> set (dec_nat n)"
  using dec_nat_digits cr_not_digit by blast

lemma cr_notin_dec_int [simp]: "cr \<notin> set (dec_int i)"
  by (auto simp: dec_int_def cr_def [symmetric]) (simp add: cr_def)

section \<open>Text\<close>

text \<open>An ASCII literal of the source as text.\<close>

definition lit :: "string \<Rightarrow> pystr" where
  "lit s = map of_char s"

definition is_scalar :: "nat \<Rightarrow> bool" where
  "is_scalar c \<longleftrightarrow> c < 0xD800 \<or> 0xE000 \<le> c \<and> c < 0x110000"

fun utf8_encode_cp :: "nat \<Rightarrow> bytes" where
  "utf8_encode_cp c =
     (if c < 0x80 then [char_of c]
      else if c < 0x800 then [char_of (0xC0 + c div 64), char_of (0x80 + c mod 64)]
      else if c < 0x10000 then
        [char_of (0xE0 + c div 4096), char_of (0x80 + c div 64 mod 64), char_of (0x80 + c mod 64)]
      else
        [char_of (0xF0 + c div 262144), char_of (0x80 + c div 4096 mod 64),
         char_of (0x80 + c div 64 mod 64), char_of (0x80 + c mod 64)])"

declare utf8_encode_cp.simps [simp del]

text \<open>\<open>s.encode("utf-8")\<close>: a lone surrogate raises.\<close>

definition utf8_encode :: "pystr \<Rightarrow> bytes res" where
  "utf8_encode s =
     (if list_all is_scalar s then Inr (concat (map utf8_encode_cp s)) else Inl UnicodeEncodeError)"

definition is_cont :: "nat \<Rightarrow> bool" where
  "is_cont b \<longleftrightarrow> 0x80 \<le> b \<and> b < 0xC0"

text \<open>The bytes that may follow a lead byte: no overlong form, no surrogate, nothing above U+10FFFF.\<close>

definition second_ok :: "nat \<Rightarrow> nat \<Rightarrow> bool" where
  "second_ok b0 b1 \<longleftrightarrow>
     (if b0 = 0xE0 then 0xA0 \<le> b1 \<and> b1 < 0xC0
      else if b0 = 0xED then 0x80 \<le> b1 \<and> b1 < 0xA0
      else if b0 = 0xF0 then 0x90 \<le> b1 \<and> b1 < 0xC0
      else if b0 = 0xF4 then 0x80 \<le> b1 \<and> b1 < 0x90
      else is_cont b1)"

text \<open>
  One step of the decoder: \<open>Some c\<close> for a complete code point or \<open>None\<close> for an ill-formed one, and
  the number of bytes it spans. An ill-formed sequence spans its longest well-formed prefix.
\<close>

fun utf8_step :: "nat list \<Rightarrow> nat option \<times> nat" where
  "utf8_step [] = (None, 1)"
| "utf8_step (b0 # bs) =
     (if b0 < 0x80 then (Some b0, 1)
      else if b0 < 0xC2 \<or> 0xF4 < b0 then (None, 1)
      else
        (case bs of
           [] \<Rightarrow> (None, 1)
         | b1 # bs1 \<Rightarrow>
             (if \<not> second_ok b0 b1 then (None, 1)
              else if b0 < 0xE0 then (Some ((b0 - 0xC0) * 64 + (b1 - 0x80)), 2)
              else
                (case bs1 of
                   [] \<Rightarrow> (None, 2)
                 | b2 # bs2 \<Rightarrow>
                     (if \<not> is_cont b2 then (None, 2)
                      else if b0 < 0xF0 then
                        (Some ((b0 - 0xE0) * 4096 + (b1 - 0x80) * 64 + (b2 - 0x80)), 3)
                      else
                        (case bs2 of
                           [] \<Rightarrow> (None, 3)
                         | b3 # bs3 \<Rightarrow>
                             (if \<not> is_cont b3 then (None, 3)
                              else (Some ((b0 - 0xF0) * 262144 + (b1 - 0x80) * 4096
                                          + (b2 - 0x80) * 64 + (b3 - 0x80)), 4))))))))"

lemma utf8_step_pos: "0 < snd (utf8_step bs)"
  by (cases bs) (auto split: list.splits)

definition replacement :: nat where
  "replacement = 0xFFFD"

function utf8_decode_nats :: "nat list \<Rightarrow> pystr" where
  "utf8_decode_nats bs =
     (if bs = [] then []
      else (case utf8_step bs of
              (r, n) \<Rightarrow> (case r of None \<Rightarrow> replacement | Some c \<Rightarrow> c) # utf8_decode_nats (drop n bs)))"
  by pat_completeness auto
termination
proof (relation "measure length", goal_cases)
  case (2 bs r n)
  with utf8_step_pos [of bs] show ?case
    by (cases bs) (auto simp: diff_less_Suc dest: sym)
qed simp

declare utf8_decode_nats.simps [simp del]

text \<open>\<open>b.decode("utf-8", errors="replace")\<close>.\<close>

definition utf8_decode_replace :: "bytes \<Rightarrow> pystr" where
  "utf8_decode_replace b = utf8_decode_nats (map byte_val b)"

text \<open>
  \<open>b.decode()\<close>, which raises on ill-formed input: an ill-formed sequence becomes U+FFFD when
  replaced, and re-encoding then gives different bytes.
\<close>

definition utf8_decode :: "bytes \<Rightarrow> pystr res" where
  "utf8_decode b =
     (let s = utf8_decode_replace b in if utf8_encode s = Inr b then Inr s else Inl UnicodeDecodeError)"

definition is_ascii :: "bytes \<Rightarrow> bool" where
  "is_ascii b \<longleftrightarrow> (\<forall>c\<in>set b. byte_val c < 0x80)"

lemma utf8_decode_nats_Nil [simp]: "utf8_decode_nats [] = []"
  by (simp add: utf8_decode_nats.simps)

lemma utf8_decode_nats_ascii: "(\<And>c. c \<in> set bs \<Longrightarrow> c < 0x80) \<Longrightarrow> utf8_decode_nats bs = bs"
proof (induction bs)
  case Nil
  show ?case by simp
next
  case (Cons b bs)
  then have "b < 0x80" and "utf8_decode_nats bs = bs" by auto
  then show ?case by (subst utf8_decode_nats.simps) simp
qed

lemma utf8_decode_ascii: "is_ascii b \<Longrightarrow> utf8_decode_replace b = lit b"
  using utf8_decode_nats_ascii [of "map byte_val b"]
  by (auto simp: utf8_decode_replace_def is_ascii_def lit_def byte_val_def [abs_def])

lemma utf8_encode_lit: "is_ascii b \<Longrightarrow> utf8_encode (lit b) = Inr b"
proof (induction b)
  case Nil
  show ?case by (simp add: utf8_encode_def lit_def)
next
  case (Cons c b)
  then show ?case
    by (auto simp: utf8_encode_def utf8_encode_cp.simps lit_def is_ascii_def byte_val_def
        is_scalar_def split: if_splits)
qed

lemma second_ok_range: "second_ok b0 b1 \<Longrightarrow> 0x80 \<le> b1 \<and> b1 < 0xC0"
  by (auto simp: second_ok_def is_cont_def split: if_splits)

lemma utf8_step_scalar: "utf8_step bs = (Some c, n) \<Longrightarrow> is_scalar c"
  by (cases bs)
     (auto simp: is_scalar_def is_cont_def second_ok_def split: list.splits if_splits nat_diff_split_asm nat_diff_split)

lemma utf8_decode_nats_scalar: "list_all is_scalar (utf8_decode_nats bs)"
proof (induction bs rule: utf8_decode_nats.induct)
  case (1 bs)
  show ?case
  proof (cases "bs = []")
    case False
    obtain r n where rn: "utf8_step bs = (r, n)" by (cases "utf8_step bs")
    have "is_scalar (case r of None \<Rightarrow> replacement | Some c \<Rightarrow> c)"
      using utf8_step_scalar [of bs _ n] rn
      by (auto simp: replacement_def is_scalar_def split: option.splits)
    moreover have "list_all is_scalar (utf8_decode_nats (drop n bs))"
      using 1 [OF False] rn by simp
    ultimately show ?thesis using False rn by (subst utf8_decode_nats.simps) simp
  qed simp
qed

text \<open>Decoded text can always be encoded again.\<close>

lemma utf8_reencode: "\<exists>b'. utf8_encode (utf8_decode_replace b) = Inr b'"
  by (simp add: utf8_encode_def utf8_decode_replace_def utf8_decode_nats_scalar)


lemma utf8_step_encode:
  assumes "is_scalar c"
  shows "utf8_step (map byte_val (utf8_encode_cp c) @ rest) = (Some c, length (utf8_encode_cp c))"
proof -
  from assms have "c < 0x110000" by (auto simp: is_scalar_def)
  then consider "c < 0x80" | "\<not> c < 0x80" "c < 0x800"
    | "\<not> c < 0x800" "c < 0x10000" | "\<not> c < 0x10000" "c < 0x110000"
    by blast
  then show ?thesis
  proof cases
    case 1
    then show ?thesis by (simp add: utf8_encode_cp.simps byte_val_char_of)
  next
    case 2
    then have "c div 64 < 32" "2 \<le> c div 64" by auto
    with 2 show ?thesis
      by (auto simp: utf8_encode_cp.simps byte_val_char_of second_ok_def is_cont_def)
  next
    case 3
    then have d: "c div 4096 < 16" by auto
    have m: "c div 64 mod 64 < 64" "c mod 64 < 64" by simp_all
    have e: "c div 4096 * 4096 + c div 64 mod 64 * 64 + c mod 64 = c"
      using div_mult_mod_eq [of c 64] div_mult_mod_eq [of "c div 64" 64]
        div_mult2_eq [of c 64 64, simplified] by linarith
    have s: "second_ok (0xE0 + c div 4096) (0x80 + c div 64 mod 64)"
    proof -
      have "c div 4096 = 0 \<Longrightarrow> 32 \<le> c div 64 mod 64" using 3 e m by linarith
      moreover have "c div 4096 = 13 \<Longrightarrow> c div 64 mod 64 < 32"
        using assms 3 e m unfolding is_scalar_def by linarith
      ultimately show ?thesis using d m by (auto simp: second_ok_def is_cont_def)
    qed
    have "utf8_encode_cp c = [char_of (0xE0 + c div 4096), char_of (0x80 + c div 64 mod 64),
        char_of (0x80 + c mod 64)]"
      using 3 by (simp add: utf8_encode_cp.simps)
    with d m s e show ?thesis by (simp add: byte_val_char_of is_cont_def)
  next
    case 4
    then have d: "c div 262144 < 5" by auto
    have m: "c div 4096 mod 64 < 64" "c div 64 mod 64 < 64" "c mod 64 < 64" by simp_all
    have e: "c div 262144 * 262144 + c div 4096 mod 64 * 4096 + c div 64 mod 64 * 64 + c mod 64 = c"
      using div_mult_mod_eq [of c 64] div_mult_mod_eq [of "c div 64" 64]
        div_mult_mod_eq [of "c div 4096" 64] div_mult2_eq [of c 64 64, simplified]
        div_mult2_eq [of c 4096 64, simplified] by linarith
    have s: "second_ok (0xF0 + c div 262144) (0x80 + c div 4096 mod 64)"
    proof -
      have "c div 262144 = 0 \<Longrightarrow> 16 \<le> c div 4096 mod 64" using 4 e m by linarith
      moreover have "c div 262144 = 4 \<Longrightarrow> c div 4096 mod 64 < 16" using 4 e m by linarith
      ultimately show ?thesis using d m by (auto simp: second_ok_def is_cont_def)
    qed
    have "utf8_encode_cp c = [char_of (0xF0 + c div 262144), char_of (0x80 + c div 4096 mod 64),
        char_of (0x80 + c div 64 mod 64), char_of (0x80 + c mod 64)]"
      using 4 by (simp add: utf8_encode_cp.simps)
    with d m s e show ?thesis by (simp add: byte_val_char_of is_cont_def)
  qed
qed

lemma utf8_encode_cp_nonempty [simp]: "utf8_encode_cp c \<noteq> []"
  by (simp add: utf8_encode_cp.simps)

lemma utf8_decode_encode:
  assumes "utf8_encode s = Inr b"
  shows "utf8_decode_replace b = s"
proof -
  have dec: "list_all is_scalar s \<Longrightarrow>
      utf8_decode_nats (map byte_val (concat (map utf8_encode_cp s))) = s" for s
  proof (induction s)
    case (Cons c s)
    let ?rest = "map byte_val (concat (map utf8_encode_cp s))"
    from Cons.prems have c: "is_scalar c" and IH: "utf8_decode_nats ?rest = s"
      using Cons.IH by auto
    have "utf8_decode_nats (map byte_val (utf8_encode_cp c) @ ?rest) = c # utf8_decode_nats ?rest"
      using utf8_step_encode [OF c, of ?rest]
      by (subst utf8_decode_nats.simps) simp
    with IH show ?case by simp
  qed simp
  with assms show ?thesis
    by (auto simp: utf8_encode_def utf8_decode_replace_def split: if_splits)
qed

end
