(* ===== verification/Store.thy ===== *)
theory Store
  imports PyLib
begin

text \<open>
  The in-memory keyspace: \<open>byo_redis/storage/types.py\<close>, \<open>expiry.py\<close> and \<open>store.py\<close>.

  Every operation takes the store and returns its result with the new store; an operation that
  can raise returns \<open>Inl\<close> of the exception together with the store as the raise leaves it. The
  wall clock is part of the environment: the store record carries the sequence \<open>clock\<close> of values
  successive calls of \<open>now_ms()\<close> will return and the number \<open>ticks\<close> of calls made so far. No
  assumption is made on \<open>clock\<close>; two calls in one operation may see different times, as in the
  program, and the clock may even be set back.
\<close>

section \<open>Types\<close>

datatype redis_type = STRING | LIST | HASH

datatype redis_value = VStr bytes | VList "bytes list" | VHash "(bytes, bytes) dict"

record key_entry =
  ktype :: redis_type
  kvalue :: redis_value
  expire_at_ms :: "int option"

definition KeyEntry :: "redis_type \<Rightarrow> redis_value \<Rightarrow> int option \<Rightarrow> key_entry" where
  "KeyEntry t v e = \<lparr>ktype = t, kvalue = v, expire_at_ms = e\<rparr>"

lemma KeyEntry_simps [simp]:
  "ktype (KeyEntry t v e) = t" "kvalue (KeyEntry t v e) = v" "expire_at_ms (KeyEntry t v e) = e"
  by (simp_all add: KeyEntry_def)

text \<open>\<open>KeyEntry.copy\<close>: containers are duplicated, which values of HOL do not notice.\<close>

definition entry_copy :: "key_entry \<Rightarrow> key_entry" where
  "entry_copy e =
     KeyEntry (ktype e)
       (case kvalue e of VList xs \<Rightarrow> VList xs | VHash d \<Rightarrow> VHash d | VStr b \<Rightarrow> VStr b)
       (expire_at_ms e)"

lemma entry_copy_id [simp]: "entry_copy e = e"
  by (simp add: entry_copy_def KeyEntry_def split: redis_value.splits)

record store =
  entries :: "(bytes, key_entry) dict"
  maxmemory_bytes :: int
  maxmemory_policy :: string
  access_clock :: nat
  last_access :: "(bytes, nat) dict"
  evicted_keys :: nat
  clock :: "nat \<Rightarrow> int"
  ticks :: nat

definition new_store :: "int \<Rightarrow> string \<Rightarrow> (nat \<Rightarrow> int) \<Rightarrow> store" where
  "new_store maxmem policy clk =
     \<lparr>entries = [], maxmemory_bytes = maxmem, maxmemory_policy = policy, access_clock = 0,
      last_access = [], evicted_keys = 0, clock = clk, ticks = 0\<rparr>"

section \<open>Expiry\<close>

definition reading :: "store \<Rightarrow> int" where
  "reading s = clock s (ticks s)"

definition now_ms :: "store \<Rightarrow> int \<times> store" where
  "now_ms s = (reading s, s\<lparr>ticks := Suc (ticks s)\<rparr>)"

text \<open>\<open>is_expired\<close> and \<open>ttl_seconds\<close> with an explicit \<open>now\<close>.\<close>

definition is_expired :: "int option \<Rightarrow> int \<Rightarrow> bool" where
  "is_expired e now = (case e of None \<Rightarrow> False | Some t \<Rightarrow> now \<ge> t)"

definition ttl_seconds :: "int option \<Rightarrow> int \<Rightarrow> int" where
  "ttl_seconds e now =
     (case e of
        None \<Rightarrow> - 1
      | Some t \<Rightarrow>
          (let remaining_ms = t - now
           in if remaining_ms \<le> 0 then - 2
              else (let secs = remaining_ms div 1000 in if secs > 0 then secs else 0)))"

text \<open>The same functions called without \<open>now\<close>: they read the clock only when an expiry is set.\<close>

definition is_expired_now :: "int option \<Rightarrow> store \<Rightarrow> bool \<times> store" where
  "is_expired_now e s =
     (case e of None \<Rightarrow> (False, s) | Some t \<Rightarrow> (let (n, s1) = now_ms s in (is_expired e n, s1)))"

definition ttl_seconds_now :: "int option \<Rightarrow> store \<Rightarrow> int \<times> store" where
  "ttl_seconds_now e s =
     (case e of None \<Rightarrow> (- 1, s) | Some t \<Rightarrow> (let (n, s1) = now_ms s in (ttl_seconds e n, s1)))"

section \<open>Primitive state changes\<close>

text \<open>\<open>del self._entries[key]\<close> followed by \<open>self._last_access.pop(key, None)\<close>.\<close>

definition drop_key :: "bytes \<Rightarrow> store \<Rightarrow> store" where
  "drop_key key s = s\<lparr>entries := dict_del key (entries s), last_access := dict_del key (last_access s)\<rparr>"

definition put_entry :: "bytes \<Rightarrow> key_entry \<Rightarrow> store \<Rightarrow> store" where
  "put_entry key e s = s\<lparr>entries := dict_set key e (entries s)\<rparr>"

definition touch_access :: "bytes \<Rightarrow> store \<Rightarrow> store" where
  "touch_access key s =
     s\<lparr>access_clock := access_clock s + 1,
       last_access := dict_set key (access_clock s + 1) (last_access s)\<rparr>"

definition touch :: "bytes \<Rightarrow> store \<Rightarrow> key_entry option \<times> store" where
  "touch key s =
     (case dict_get (entries s) key of
        None \<Rightarrow> (None, s)
      | Some entry \<Rightarrow>
          (let (expired, s1) = is_expired_now (expire_at_ms entry) s
           in if expired then (None, drop_key key s1) else (Some entry, touch_access key s1)))"

section \<open>Introspection\<close>

fun drop_keys :: "bytes list \<Rightarrow> store \<Rightarrow> store" where
  "drop_keys [] s = s"
| "drop_keys (k # ks) s = drop_keys ks (drop_key k s)"

definition expired_keys :: "int \<Rightarrow> (bytes, key_entry) dict \<Rightarrow> bytes list" where
  "expired_keys now es = map fst (filter (\<lambda>(k, e). is_expired (expire_at_ms e) now) es)"

definition iter_entries :: "store \<Rightarrow> (bytes, key_entry) dict \<times> store" where
  "iter_entries s =
     (let (now, s1) = now_ms s
      in (filter (\<lambda>(k, e). \<not> is_expired (expire_at_ms e) now) (entries s1),
          drop_keys (expired_keys now (entries s1)) s1))"

definition snapshot :: "store \<Rightarrow> (bytes, key_entry) dict \<times> store" where
  "snapshot s = (let (es, s1) = iter_entries s in (map (\<lambda>(k, e). (k, entry_copy e)) es, s1))"

definition store_clear :: "store \<Rightarrow> store" where
  "store_clear s = s\<lparr>entries := [], last_access := []\<rparr>"

definition load_entries :: "(bytes, key_entry) dict \<Rightarrow> store \<Rightarrow> store" where
  "load_entries es s =
     (let es' = map (\<lambda>(k, e). (k, entry_copy e)) es
      in s\<lparr>entries := es', last_access := zip (dict_keys es') [0..<length es'],
           access_clock := length es'\<rparr>)"

definition purge_expired :: "store \<Rightarrow> store" where
  "purge_expired s =
     (let (now, s1) = now_ms s in drop_keys (expired_keys now (entries s1)) s1)"

definition dbsize :: "store \<Rightarrow> nat \<times> store" where
  "dbsize s = (let s1 = purge_expired s in (length (entries s1), s1))"

definition store_len :: "store \<Rightarrow> nat \<times> store" where
  "store_len s = (let s1 = purge_expired s in (length (entries s1), s1))"

text \<open>
  \<open>sample\<close> stands for the result of \<open>random.sample(keys, sample_size)\<close>, which the code uses only
  when there are more keys than \<open>sample_size\<close>.
\<close>

fun expire_sampled :: "int \<Rightarrow> bytes list \<Rightarrow> store \<Rightarrow> nat \<Rightarrow> nat \<times> store" where
  "expire_sampled now [] s deleted = (deleted, s)"
| "expire_sampled now (k # ks) s deleted =
     (case dict_get (entries s) k of
        Some entry \<Rightarrow>
          (if is_expired (expire_at_ms entry) now
           then expire_sampled now ks (drop_key k s) (deleted + 1)
           else expire_sampled now ks s deleted)
      | None \<Rightarrow> expire_sampled now ks s deleted)"

definition active_expire_cycle :: "nat \<Rightarrow> bytes list \<Rightarrow> store \<Rightarrow> nat \<times> store" where
  "active_expire_cycle sample_size sample s =
     (if entries s = [] then (0, s)
      else
        (let keys = dict_keys (entries s);
             chosen = (if length keys \<le> sample_size then keys else sample);
             (now, s1) = now_ms s
         in expire_sampled now chosen s1 0))"

definition store_keys :: "store \<Rightarrow> bytes list \<times> store" where
  "store_keys s =
     (let (_, s1) = active_expire_cycle (if entries s = [] then 1 else length (entries s)) [] s
      in (dict_keys (entries s1), s1))"

section \<open>Generic key operations\<close>

fun delete_loop :: "bytes list \<Rightarrow> nat \<Rightarrow> store \<Rightarrow> nat \<times> store" where
  "delete_loop [] removed s = (removed, s)"
| "delete_loop (key # keys) removed s =
     (case dict_get (entries s) key of
        None \<Rightarrow> delete_loop keys removed s
      | Some entry \<Rightarrow>
          (let (expired, s1) = is_expired_now (expire_at_ms entry) s
           in if expired then delete_loop keys removed (drop_key key s1)
              else delete_loop keys (removed + 1) (drop_key key s1)))"

definition delete :: "bytes list \<Rightarrow> store \<Rightarrow> nat \<times> store" where
  "delete keys s = delete_loop keys 0 s"

definition exists_key :: "bytes \<Rightarrow> store \<Rightarrow> bool \<times> store" where
  "exists_key key s = (let (e, s1) = touch key s in (e \<noteq> None, s1))"

definition get_entry :: "bytes \<Rightarrow> store \<Rightarrow> key_entry option \<times> store" where
  "get_entry key s = touch key s"

definition set_entry :: "bytes \<Rightarrow> key_entry \<Rightarrow> store \<Rightarrow> store" where
  "set_entry key entry s = touch_access key (put_entry key entry s)"

definition expire :: "bytes \<Rightarrow> int \<Rightarrow> store \<Rightarrow> int \<times> store" where
  "expire key seconds s =
     (let (e, s1) = touch key s
      in (case e of
            None \<Rightarrow> (0, s1)
          | Some entry \<Rightarrow>
              if seconds \<le> 0 then (1, drop_key key s1)
              else (let (now, s2) = now_ms s1
                    in (1, put_entry key (entry\<lparr>expire_at_ms := Some (now + seconds * 1000)\<rparr>) s2))))"

definition pexpire_at :: "bytes \<Rightarrow> int option \<Rightarrow> store \<Rightarrow> store" where
  "pexpire_at key at_ms s =
     (let (e, s1) = touch key s
      in (case e of
            None \<Rightarrow> s1
          | Some entry \<Rightarrow> put_entry key (entry\<lparr>expire_at_ms := at_ms\<rparr>) s1))"

definition ttl :: "bytes \<Rightarrow> store \<Rightarrow> int \<times> store" where
  "ttl key s =
     (case dict_get (entries s) key of
        None \<Rightarrow> (- 2, s)
      | Some entry \<Rightarrow>
          (let (expired, s1) = is_expired_now (expire_at_ms entry) s
           in if expired then (- 2, drop_key key s1) else ttl_seconds_now (expire_at_ms entry) s1))"

definition type_of :: "bytes \<Rightarrow> store \<Rightarrow> redis_type option \<times> store" where
  "type_of key s = (let (e, s1) = touch key s in (map_option ktype e, s1))"

section \<open>Strings\<close>

definition set_string :: "bytes \<Rightarrow> bytes \<Rightarrow> int option \<Rightarrow> store \<Rightarrow> store" where
  "set_string key val ex_seconds s =
     (case ex_seconds of
        None \<Rightarrow> touch_access key (put_entry key (KeyEntry STRING (VStr val) None) s)
      | Some ex \<Rightarrow>
          if ex \<le> 0 then drop_key key s
          else (let (now, s1) = now_ms s
                in touch_access key
                     (put_entry key (KeyEntry STRING (VStr val) (Some (now + ex * 1000))) s1)))"

definition get_string :: "bytes \<Rightarrow> store \<Rightarrow> bytes option res \<times> store" where
  "get_string key s =
     (let (e, s1) = touch key s
      in (case e of
            None \<Rightarrow> (Inr None, s1)
          | Some entry \<Rightarrow>
              if ktype entry \<noteq> STRING then (Inl WrongTypeError, s1)
              else (case kvalue entry of
                      VStr b \<Rightarrow> (Inr (Some b), s1)
                    | _ \<Rightarrow> (Inl AssertionError, s1))))"

section \<open>Lists\<close>

text \<open>\<open>dq.appendleft(el)\<close> for each element.\<close>

definition appendleft_all :: "bytes list \<Rightarrow> bytes list \<Rightarrow> bytes list" where
  "appendleft_all elements dq = fold (\<lambda>el q. el # q) elements dq"

definition lpush :: "bytes \<Rightarrow> bytes list \<Rightarrow> store \<Rightarrow> nat res \<times> store" where
  "lpush key elements s =
     (let (e, s1) = touch key s
      in (case e of
            None \<Rightarrow>
              (let s2 = touch_access key (put_entry key (KeyEntry LIST (VList []) None) s1);
                   dq = appendleft_all elements []
               in (Inr (length dq), put_entry key (KeyEntry LIST (VList dq) None) s2))
          | Some entry \<Rightarrow>
              if ktype entry \<noteq> LIST then (Inl WrongTypeError, s1)
              else (case kvalue entry of
                      VList dq \<Rightarrow>
                        (let dq' = appendleft_all elements dq
                         in (Inr (length dq'), put_entry key (entry\<lparr>kvalue := VList dq'\<rparr>) s1))
                    | _ \<Rightarrow> (Inl AssertionError, s1))))"

definition rpop :: "bytes \<Rightarrow> store \<Rightarrow> bytes option res \<times> store" where
  "rpop key s =
     (let (e, s1) = touch key s
      in (case e of
            None \<Rightarrow> (Inr None, s1)
          | Some entry \<Rightarrow>
              if ktype entry \<noteq> LIST then (Inl WrongTypeError, s1)
              else (case kvalue entry of
                      VList dq \<Rightarrow>
                        if dq = [] then (Inr None, drop_key key s1)
                        else
                          (let val = last dq; dq' = butlast dq;
                               s2 = put_entry key (entry\<lparr>kvalue := VList dq'\<rparr>) s1
                           in (Inr (Some val), if dq' = [] then drop_key key s2 else s2))
                    | _ \<Rightarrow> (Inl AssertionError, s1))))"

section \<open>Hashes\<close>

fun hset_loop :: "(bytes \<times> bytes) list \<Rightarrow> nat \<Rightarrow> (bytes, bytes) dict \<Rightarrow> nat \<times> (bytes, bytes) dict" where
  "hset_loop [] added mapping = (added, mapping)"
| "hset_loop ((field, val) # items) added mapping =
     hset_loop items (if dict_get mapping field = None then added + 1 else added)
       (dict_set field val mapping)"

definition hset :: "bytes \<Rightarrow> (bytes \<times> bytes) list \<Rightarrow> store \<Rightarrow> nat res \<times> store" where
  "hset key items s =
     (let (e, s1) = touch key s
      in (case e of
            None \<Rightarrow>
              (let s2 = touch_access key (put_entry key (KeyEntry HASH (VHash []) None) s1);
                   (added, mapping) = hset_loop items 0 []
               in (Inr added, put_entry key (KeyEntry HASH (VHash mapping) None) s2))
          | Some entry \<Rightarrow>
              if ktype entry \<noteq> HASH then (Inl WrongTypeError, s1)
              else (case kvalue entry of
                      VHash m \<Rightarrow>
                        (let (added, mapping) = hset_loop items 0 m
                         in (Inr added, put_entry key (entry\<lparr>kvalue := VHash mapping\<rparr>) s1))
                    | _ \<Rightarrow> (Inl AssertionError, s1))))"

definition flatten_pairs :: "(bytes \<times> bytes) list \<Rightarrow> bytes list" where
  "flatten_pairs ps = concat (map (\<lambda>(f, v). [f, v]) ps)"

definition hgetall :: "bytes \<Rightarrow> store \<Rightarrow> bytes list res \<times> store" where
  "hgetall key s =
     (let (e, s1) = touch key s
      in (case e of
            None \<Rightarrow> (Inr [], s1)
          | Some entry \<Rightarrow>
              if ktype entry \<noteq> HASH then (Inl WrongTypeError, s1)
              else (case kvalue entry of
                      VHash m \<Rightarrow> (Inr (flatten_pairs m), s1)
                    | _ \<Rightarrow> (Inl AssertionError, s1))))"

section \<open>Statistics and the memory limit\<close>

definition keyspace_stats :: "store \<Rightarrow> (nat \<times> nat \<times> int) \<times> store" where
  "keyspace_stats s =
     (let s1 = purge_expired s;
          (current, s2) = now_ms s1;
          ttl_values = map (\<lambda>t. max 0 (t - current))
                         (List.map_filter (\<lambda>(k, e). expire_at_ms e) (entries s2));
          avg_ttl = (if ttl_values = [] then 0 else sum_list ttl_values div int (length ttl_values))
      in ((length (entries s2), length ttl_values, avg_ttl), s2))"

definition entry_usage :: "bytes \<times> key_entry \<Rightarrow> nat res" where
  "entry_usage ke =
     (let key = fst ke; entry = snd ke; base = length key + 64
      in (case ktype entry of
            STRING \<Rightarrow> (case kvalue entry of VStr b \<Rightarrow> Inr (base + length b) | _ \<Rightarrow> Inl AssertionError)
          | LIST \<Rightarrow>
              (case kvalue entry of
                 VList xs \<Rightarrow> Inr (base + sum_list (map (\<lambda>x. length x + 16) xs))
               | _ \<Rightarrow> Inl AssertionError)
          | HASH \<Rightarrow>
              (case kvalue entry of
                 VHash d \<Rightarrow> Inr (base + sum_list (map (\<lambda>(f, v). length f + length v + 32) d))
               | _ \<Rightarrow> Inl AssertionError)))"

definition memory_usage :: "store \<Rightarrow> nat res \<times> store" where
  "memory_usage s =
     (let s1 = purge_expired s
      in (bind_res (map_res entry_usage (entries s1)) (\<lambda>us. Inr (sum_list us)), s1))"

text \<open>\<open>min(candidates, key=f)\<close>: the first candidate with the least key.\<close>

fun min_by :: "('a \<Rightarrow> int) \<Rightarrow> 'a \<Rightarrow> 'a list \<Rightarrow> 'a" where
  "min_by f x [] = x"
| "min_by f x (y # ys) = min_by f (if f y < f x then y else x) ys"

definition expiry_or_zero :: "store \<Rightarrow> bytes \<Rightarrow> int" where
  "expiry_or_zero s k =
     (case dict_get (entries s) k of
        Some e \<Rightarrow> (case expire_at_ms e of Some t \<Rightarrow> t | None \<Rightarrow> 0)
      | None \<Rightarrow> 0)"

definition access_stamp :: "store \<Rightarrow> bytes \<Rightarrow> int" where
  "access_stamp s k = (case dict_get (last_access s) k of Some n \<Rightarrow> int n | None \<Rightarrow> 0)"

definition candidates :: "store \<Rightarrow> bytes list" where
  "candidates s =
     map fst (filter (\<lambda>(k, e). maxmemory_policy s \<noteq> ''volatile-ttl'' \<or> expire_at_ms e \<noteq> None)
       (entries s))"

text \<open>The body of the eviction loop up to the choice of the victim.\<close>

definition choose_victim :: "store \<Rightarrow> bytes res" where
  "choose_victim s =
     (case candidates s of
        [] \<Rightarrow> Inl MemoryLimitError
      | c # cs \<Rightarrow>
          if maxmemory_policy s = ''volatile-ttl'' then Inr (min_by (expiry_or_zero s) c cs)
          else if maxmemory_policy s = ''allkeys-lru'' then Inr (min_by (access_stamp s) c cs)
          else Inl MemoryLimitError)"

definition evict_key :: "bytes \<Rightarrow> store \<Rightarrow> store" where
  "evict_key k s = (drop_key k s)\<lparr>evicted_keys := evicted_keys s + 1\<rparr>"

lemma drop_key_simps [simp]:
  "entries (drop_key k s) = dict_del k (entries s)"
  "last_access (drop_key k s) = dict_del k (last_access s)"
  "maxmemory_bytes (drop_key k s) = maxmemory_bytes s"
  "maxmemory_policy (drop_key k s) = maxmemory_policy s"
  "access_clock (drop_key k s) = access_clock s"
  "evicted_keys (drop_key k s) = evicted_keys s"
  "clock (drop_key k s) = clock s"
  "ticks (drop_key k s) = ticks s"
  by (simp_all add: drop_key_def)

lemma drop_keys_entries:
  "entries (drop_keys ks s) = filter (\<lambda>(k, e). k \<notin> set ks) (entries s)"
proof (induction ks arbitrary: s)
  case Nil
  show ?case by (simp add: filter_True split_beta)
next
  case (Cons k ks)
  then show ?case
    by (auto simp: dict_del_def AList.delete_eq split_beta intro!: filter_cong)
qed

lemma min_by_in: "min_by f x xs \<in> set (x # xs)"
  by (induction xs arbitrary: x) (auto split: if_splits)

lemma min_by_least: "y \<in> set (x # xs) \<Longrightarrow> f (min_by f x xs) \<le> f y"
proof (induction xs arbitrary: x y)
  case (Cons z zs)
  let ?w = "if f z < f x then z else x"
  have "f (min_by f ?w zs) \<le> f ?w" by (rule Cons.IH) simp
  with Cons.IH [of y ?w] Cons.prems show ?case by (auto split: if_splits)
qed simp

lemma choose_victim_in: "choose_victim s = Inr k \<Longrightarrow> k \<in> set (candidates s)"
  using min_by_in [of "expiry_or_zero s"] min_by_in [of "access_stamp s"]
  by (fastforce simp: choose_victim_def split: list.splits if_splits)

lemma candidates_subset: "set (candidates s) \<subseteq> set (dict_keys (entries s))"
  by (auto simp: candidates_def dict_keys_def)

lemma purge_expired_length: "length (entries (purge_expired s)) \<le> length (entries s)"
  by (simp add: purge_expired_def now_ms_def drop_keys_entries)

function evict_loop :: "bytes list \<Rightarrow> store \<Rightarrow> bytes list res \<times> store" where
  "evict_loop evicted s =
     (case memory_usage s of
        (Inl e, s1) \<Rightarrow> (Inl e, s1)
      | (Inr used, s1) \<Rightarrow>
          if int used \<le> maxmemory_bytes s1 then (Inr evicted, s1)
          else (case choose_victim s1 of
                  Inl e \<Rightarrow> (Inl e, s1)
                | Inr key \<Rightarrow> evict_loop (evicted @ [key]) (evict_key key s1)))"
  by pat_completeness auto
termination
proof (relation "measure (\<lambda>(evicted, s). length (entries s))", goal_cases)
  case (2 evicted s x s1 used key)
  then have s1: "s1 = purge_expired s" by (simp add: memory_usage_def Let_def)
  from 2 have "key \<in> set (dict_keys (entries s1))"
    using choose_victim_in [of s1 key] candidates_subset [of s1] by auto
  then have "length (dict_del key (entries s1)) < length (entries s1)" by (rule length_dict_del)
  with purge_expired_length [of s] s1 show ?case by (simp add: evict_key_def)
qed simp

declare evict_loop.simps [simp del]

definition enforce_memory_limit :: "store \<Rightarrow> bytes list res \<times> store" where
  "enforce_memory_limit s = (if maxmemory_bytes s \<le> 0 then (Inr [], s) else evict_loop [] s)"

end
