(* ===== verification/Store_Inv.thy ===== *)
theory Store_Inv
  imports Store
begin

text \<open>
  The store's invariant, and that every public operation keeps it from every state. The
  invariant says that the two dictionaries are dictionaries over the same keys, that the type tag
  of an entry agrees with its value (so no \<open>assert isinstance\<close> of the module can fail) and that
  access stamps are distinct and bounded by the access clock (so the least recently used key is
  unique). The operations are then the steps of a transition relation, and the invariant holds in
  every reachable store.
\<close>

section \<open>The invariant\<close>

definition value_ok :: "redis_type \<Rightarrow> redis_value \<Rightarrow> bool" where
  "value_ok t v =
     (case v of VStr b \<Rightarrow> t = STRING | VList xs \<Rightarrow> t = LIST | VHash d \<Rightarrow> t = HASH \<and> dict_ok d)"

definition entry_ok :: "key_entry \<Rightarrow> bool" where
  "entry_ok e \<longleftrightarrow> value_ok (ktype e) (kvalue e)"

definition stamps_ok :: "store \<Rightarrow> bool" where
  "stamps_ok s \<longleftrightarrow>
     dict_ok (last_access s) \<and> inj_on (dict_get (last_access s)) (set (dict_keys (last_access s)))
     \<and> (\<forall>k n. dict_get (last_access s) k = Some n \<longrightarrow> n \<le> access_clock s)"

definition store_inv :: "store \<Rightarrow> bool" where
  "store_inv s \<longleftrightarrow>
     dict_ok (entries s) \<and> (\<forall>k e. dict_get (entries s) k = Some e \<longrightarrow> entry_ok e)
     \<and> stamps_ok s \<and> set (dict_keys (last_access s)) = set (dict_keys (entries s))"

lemma store_invD:
  assumes "store_inv s"
  shows "dict_ok (entries s)" and "\<And>k e. dict_get (entries s) k = Some e \<Longrightarrow> entry_ok e"
    and "stamps_ok s" and "set (dict_keys (last_access s)) = set (dict_keys (entries s))"
  using assms by (auto simp: store_inv_def)

lemma entry_ok_KeyEntry [simp]:
  "entry_ok (KeyEntry STRING (VStr b) t)" "entry_ok (KeyEntry LIST (VList xs) t)"
  "entry_ok (KeyEntry HASH (VHash d) t) = dict_ok d"
  by (simp_all add: entry_ok_def value_ok_def)

lemma entry_ok_expire [simp]: "entry_ok (e\<lparr>expire_at_ms := t\<rparr>) = entry_ok e"
  by (simp add: entry_ok_def)

lemma entry_ok_value [simp]: "entry_ok (e\<lparr>kvalue := v\<rparr>) = value_ok (ktype e) v"
  by (simp add: entry_ok_def)

lemma entry_okE:
  assumes "entry_ok e"
  obtains (str) b where "ktype e = STRING" "kvalue e = VStr b"
  | (list) xs where "ktype e = LIST" "kvalue e = VList xs"
  | (hash) d where "ktype e = HASH" "kvalue e = VHash d" "dict_ok d"
  using assms by (cases "kvalue e") (auto simp: entry_ok_def value_ok_def)

section \<open>Field updates\<close>

lemma ticks_simps [simp]:
  "entries (s\<lparr>ticks := t\<rparr>) = entries s" "store_inv (s\<lparr>ticks := t\<rparr>) = store_inv s"
  by (simp_all add: store_inv_def stamps_ok_def)

lemma evicted_inv [simp]: "store_inv (s\<lparr>evicted_keys := t\<rparr>) = store_inv s"
  by (simp add: store_inv_def stamps_ok_def)

lemma put_entry_simps [simp]:
  "entries (put_entry k e s) = dict_set k e (entries s)"
  "last_access (put_entry k e s) = last_access s"
  "access_clock (put_entry k e s) = access_clock s"
  "clock (put_entry k e s) = clock s" "ticks (put_entry k e s) = ticks s"
  by (simp_all add: put_entry_def)

lemma touch_access_simps [simp]:
  "entries (touch_access k s) = entries s"
  "access_clock (touch_access k s) = Suc (access_clock s)"
  "last_access (touch_access k s) = dict_set k (Suc (access_clock s)) (last_access s)"
  "clock (touch_access k s) = clock s" "ticks (touch_access k s) = ticks s"
  by (simp_all add: touch_access_def)

section \<open>Primitive changes keep the invariant\<close>

lemma stamps_drop:
  "stamps_ok s \<Longrightarrow> stamps_ok (drop_key k s)"
  by (auto simp: stamps_ok_def dict_intros dict_simps inj_on_def split: if_splits)

lemma stamps_touch:
  assumes "stamps_ok s"
  shows "stamps_ok (touch_access k s)"
proof -
  let ?d = "last_access s" and ?c = "access_clock s"
  have inj: "inj_on (dict_get ?d) (set (dict_keys ?d))" and ok: "dict_ok ?d"
    and le: "\<And>x n. dict_get ?d x = Some n \<Longrightarrow> n \<le> ?c"
    using assms by (auto simp: stamps_ok_def)
  have new: "dict_get ?d x \<noteq> Some (Suc ?c)" "Some (Suc ?c) \<noteq> dict_get ?d x" for x
    using le [of x "Suc ?c"] by auto
  have "inj_on (dict_get (dict_set k (Suc ?c) ?d)) (insert k (set (dict_keys ?d)))"
  proof (rule inj_onI)
    fix x y
    assume "x \<in> insert k (set (dict_keys ?d))" and "y \<in> insert k (set (dict_keys ?d))"
      and "dict_get (dict_set k (Suc ?c) ?d) x = dict_get (dict_set k (Suc ?c) ?d) y"
    then show "x = y"
      using new inj_onD [OF inj, of x y] by (auto simp: dict_simps split: if_splits)
  qed
  moreover have "n \<le> Suc ?c" if "dict_get (dict_set k (Suc ?c) ?d) x = Some n" for x n
    using that le [of x n] by (auto simp: dict_simps split: if_splits)
  ultimately show ?thesis
    using ok by (simp add: stamps_ok_def dict_intros dict_simps)
qed

lemma inv_drop_key [inv_intros]: "store_inv s \<Longrightarrow> store_inv (drop_key k s)"
  using stamps_drop [of s k]
  by (auto simp: store_inv_def dict_intros dict_simps split: if_splits)

lemma inv_touch_access [inv_intros]:
  "store_inv s \<Longrightarrow> k \<in> set (dict_keys (entries s)) \<Longrightarrow> store_inv (touch_access k s)"
  using stamps_touch [of s k] by (auto simp: store_inv_def dict_simps)

lemma inv_put_present [inv_intros]:
  assumes "store_inv s" and "k \<in> set (dict_keys (entries s))" and "entry_ok e"
  shows "store_inv (put_entry k e s)"
proof -
  have "stamps_ok (put_entry k e s) = stamps_ok s" by (simp add: stamps_ok_def)
  with assms show ?thesis
    by (auto simp: store_inv_def dict_intros dict_simps split: if_splits)
qed

lemma inv_new_entry [inv_intros]:
  assumes "store_inv s" and "entry_ok e"
  shows "store_inv (touch_access k (put_entry k e s))"
proof -
  have "stamps_ok (put_entry k e s) = stamps_ok s" by (simp add: stamps_ok_def)
  with assms stamps_touch [of "put_entry k e s" k] show ?thesis
    by (auto simp: store_inv_def dict_intros dict_simps split: if_splits)
qed

lemma inv_drop_keys [inv_intros]: "store_inv s \<Longrightarrow> store_inv (drop_keys ks s)"
  by (induction ks arbitrary: s) (auto intro: inv_drop_key)

section \<open>The key lookup every operation starts with\<close>

text \<open>The entry a key has for a reader whose clock shows \<open>n\<close>.\<close>

definition alive :: "int \<Rightarrow> key_entry option \<Rightarrow> key_entry option" where
  "alive n e =
     (case e of None \<Rightarrow> None | Some x \<Rightarrow> if is_expired (expire_at_ms x) n then None else Some x)"

definition live :: "int \<Rightarrow> store \<Rightarrow> bytes \<Rightarrow> key_entry option" where
  "live n s k = alive n (dict_get (entries s) k)"

lemma alive_simps [simp]:
  "alive n None = None" "alive n (alive n e) = alive n e"
  "expire_at_ms x = None \<Longrightarrow> alive n (Some x) = Some x"
  by (auto simp: alive_def is_expired_def split: option.splits)

lemma alive_later: "n \<le> m \<Longrightarrow> alive n e = None \<Longrightarrow> alive m e = None"
  by (auto simp: alive_def is_expired_def split: option.splits if_splits)

lemma live_simps [simp]:
  "live m (drop_key k s) = (live m s)(k := None)"
  "live m (put_entry k e s) = (live m s)(k := alive m (Some e))"
  "live m (touch_access k s) = live m s"
  "live m (s\<lparr>ticks := t\<rparr>) = live m s"
  "live m (s\<lparr>evicted_keys := c\<rparr>) = live m s"
  by (auto simp: live_def dict_simps)

lemma touch_result: "fst (touch k s) = live (reading s) s k"
  by (auto simp: touch_def is_expired_now_def now_ms_def live_def alive_def is_expired_def
      split: option.splits)

lemma touch_view: "reading s \<le> m \<Longrightarrow> live m (snd (touch k s)) = live m s"
  by (auto simp: touch_def is_expired_now_def now_ms_def live_def alive_def is_expired_def
      dict_simps fun_eq_iff split: option.splits)

lemma touch_inv: "store_inv s \<Longrightarrow> store_inv (snd (touch k s))"
  by (auto simp: touch_def is_expired_now_def now_ms_def
      intro!: inv_drop_key inv_touch_access dest: dict_get_in_keys split: option.splits)

lemma touch_present:
  "fst (touch k s) = Some e \<Longrightarrow> dict_get (entries (snd (touch k s))) k = Some e"
  by (auto simp: touch_def is_expired_now_def now_ms_def split: option.splits if_splits)

lemma touch_absent: "fst (touch k s) = None \<Longrightarrow> dict_get (entries (snd (touch k s))) k = None"
  by (auto simp: touch_def is_expired_now_def now_ms_def dict_simps split: option.splits if_splits)

lemma touch_entry_ok: "store_inv s \<Longrightarrow> fst (touch k s) = Some e \<Longrightarrow> entry_ok e"
  using touch_present [of k s e] store_invD(2) [OF touch_inv, of s k k e] by simp

lemma touch_clock [simp]: "clock (snd (touch k s)) = clock s"
  by (simp add: touch_def is_expired_now_def now_ms_def split: option.splits)

end
