(* ===== verification/Store_Spec.thy ===== *)
theory Store_Spec
  imports Store_Inv
begin

text \<open>
  What the store promises its clients. A key operation is specified on the one entry it concerns,
  as its caller sees it (\<open>live\<close> at the time of the call); the locale \<open>key_op\<close> states that an
  operation of the store implements such a specification on the whole keyspace, lazily expiring
  entries included, and is interpreted on every single-key operation. The locale
  \<open>snapshot_store\<close> is the contract persistence and replication rely on.
\<close>

section \<open>Single-key operations\<close>

locale key_op =
  fixes oper :: "bytes \<Rightarrow> store \<Rightarrow> 'r \<times> store"
    and spec :: "key_entry option \<Rightarrow> 'r \<times> key_entry option"
  assumes op_result: "store_inv s \<Longrightarrow> fst (oper k s) = fst (spec (live (reading s) s k))"
    and op_view: "store_inv s \<Longrightarrow> reading s \<le> m \<Longrightarrow>
      live m (snd (oper k s)) = (live m s)(k := alive m (snd (spec (live (reading s) s k))))"
    and op_inv: "store_inv s \<Longrightarrow> store_inv (snd (oper k s))"
begin

lemma op_other_key:
  "store_inv s \<Longrightarrow> reading s \<le> m \<Longrightarrow> k' \<noteq> k \<Longrightarrow> live m (snd (oper k s)) k' = live m s k'"
  by (simp add: op_view)

lemma op_same_key:
  "store_inv s \<Longrightarrow> reading s \<le> m \<Longrightarrow>
   live m (snd (oper k s)) k = alive m (snd (spec (live (reading s) s k)))"
  by (simp add: op_view)

text \<open>The result depends on nothing but the caller's view of the key.\<close>

lemma op_result_local:
  "store_inv s \<Longrightarrow> store_inv t \<Longrightarrow> live (reading s) s k = live (reading t) t k \<Longrightarrow>
   fst (oper k s) = fst (oper k t)"
  by (simp add: op_result)

end

subsection \<open>Specifications\<close>

definition get_spec :: "key_entry option \<Rightarrow> bytes option res \<times> key_entry option" where
  "get_spec e =
     (case e of
        None \<Rightarrow> (Inr None, None)
      | Some x \<Rightarrow> (case kvalue x of VStr b \<Rightarrow> (Inr (Some b), e) | _ \<Rightarrow> (Inl WrongTypeError, e)))"

definition lpush_spec :: "bytes list \<Rightarrow> key_entry option \<Rightarrow> nat res \<times> key_entry option" where
  "lpush_spec els e =
     (case e of
        None \<Rightarrow> (Inr (length els), Some (KeyEntry LIST (VList (rev els)) None))
      | Some x \<Rightarrow>
          (case kvalue x of
             VList q \<Rightarrow> (Inr (length els + length q), Some (x\<lparr>kvalue := VList (rev els @ q)\<rparr>))
           | _ \<Rightarrow> (Inl WrongTypeError, e)))"

definition rpop_spec :: "key_entry option \<Rightarrow> bytes option res \<times> key_entry option" where
  "rpop_spec e =
     (case e of
        None \<Rightarrow> (Inr None, None)
      | Some x \<Rightarrow>
          (case kvalue x of
             VList q \<Rightarrow>
               (if q = [] then (Inr None, None)
                else (Inr (Some (last q)),
                      if butlast q = [] then None else Some (x\<lparr>kvalue := VList (butlast q)\<rparr>)))
           | _ \<Rightarrow> (Inl WrongTypeError, e)))"

definition hset_spec :: "(bytes \<times> bytes) list \<Rightarrow> key_entry option \<Rightarrow> nat res \<times> key_entry option" where
  "hset_spec items e =
     (case e of
        None \<Rightarrow> (Inr (card (fst ` set items)),
                 Some (KeyEntry HASH (VHash (fold (\<lambda>(f, v). dict_set f v) items [])) None))
      | Some x \<Rightarrow>
          (case kvalue x of
             VHash d \<Rightarrow> (Inr (card (fst ` set items - set (dict_keys d))),
                         Some (x\<lparr>kvalue := VHash (fold (\<lambda>(f, v). dict_set f v) items d)\<rparr>))
           | _ \<Rightarrow> (Inl WrongTypeError, e)))"

definition hgetall_spec :: "key_entry option \<Rightarrow> bytes list res \<times> key_entry option" where
  "hgetall_spec e =
     (case e of
        None \<Rightarrow> (Inr [], None)
      | Some x \<Rightarrow> (case kvalue x of VHash d \<Rightarrow> (Inr (flatten_pairs d), e) | _ \<Rightarrow> (Inl WrongTypeError, e)))"

definition exists_spec :: "key_entry option \<Rightarrow> bool \<times> key_entry option" where
  "exists_spec e = (e \<noteq> None, e)"

definition type_spec :: "key_entry option \<Rightarrow> redis_type option \<times> key_entry option" where
  "type_spec e = (map_option ktype e, e)"

subsection \<open>Implementations\<close>

lemma appendleft_all_rev [simp]: "appendleft_all els q = rev els @ q"
  unfolding appendleft_all_def by (induction els arbitrary: q) auto

lemma hset_loop_spec:
  "hset_loop items a m =
     (a + card (fst ` set items - set (dict_keys m)), fold (\<lambda>(f, v). dict_set f v) items m)"
proof (induction items a m rule: hset_loop.induct)
  case (2 f v items a m)
  let ?F = "fst ` set items"
  have "insert f ?F - set (dict_keys m) = (if f \<in> set (dict_keys m) then ?F - set (dict_keys m)
      else insert f (?F - insert f (set (dict_keys m))))"
    by auto
  with 2 show ?case
    using pydict.get_None [of m f] by (auto simp: dict_simps insert_absorb card_insert_if)
qed simp

lemma dict_ok_fold: "dict_ok d \<Longrightarrow> dict_ok (fold (\<lambda>(f, v). dict_set f v) items d)"
  by (rule pydict.ok_fold_put)

lemmas dict_ok_fold_nil = dict_ok_fold [OF pydict.ok_empty]

lemma live_upd_same:
  "dict_get (entries s) k = Some e \<Longrightarrow> (live m s)(k := alive m (Some e)) = live m s"
  "dict_get (entries s) k = None \<Longrightarrow> (live m s)(k := None) = live m s"
  "(live m s)(k := alive m (dict_get (entries s) k)) = live m s"
  by (simp_all add: live_def fun_eq_iff)

text \<open>
  Every operation is a lookup followed by a computation on what the lookup found; it implements
  a specification when the computation does, on the store the lookup leaves.
\<close>

definition computes :: "(store \<Rightarrow> 'r \<times> store) \<Rightarrow> 'r \<times> key_entry option \<Rightarrow> bytes \<Rightarrow> store \<Rightarrow> bool" where
  "computes body out k s \<longleftrightarrow>
     fst (body s) = fst out \<and> store_inv (snd (body s))
     \<and> (\<forall>m. live m (snd (body s)) = (live m s)(k := alive m (snd out)))"

lemma key_opI:
  assumes op: "\<And>k s. oper k s = (let (e, s1) = touch k s in body k e s1)"
    and body: "\<And>k e s1. store_inv s1 \<Longrightarrow> dict_get (entries s1) k = e \<Longrightarrow>
      (\<And>x. e = Some x \<Longrightarrow> entry_ok x \<and> k \<in> set (dict_keys (entries s1))) \<Longrightarrow>
      computes (body k e) (spec e) k s1"
  shows "key_op oper spec"
proof -
  have at: "computes (body k (fst (touch k s))) (spec (live (reading s) s k)) k (snd (touch k s))"
    if inv: "store_inv s" for k s
  proof -
    have "dict_get (entries (snd (touch k s))) k = fst (touch k s)"
      using touch_present [of k s] touch_absent [of k s] by (cases "fst (touch k s)") auto
    moreover have "entry_ok x \<and> k \<in> set (dict_keys (entries (snd (touch k s))))"
      if "fst (touch k s) = Some x" for x
      using touch_entry_ok [OF inv that] touch_present [OF that] by (simp add: dict_get_in_keys)
    ultimately show ?thesis
      using body [OF touch_inv [OF inv], of k k "fst (touch k s)"] by (simp add: touch_result)
  qed
  have split: "oper k s = body k (fst (touch k s)) (snd (touch k s))" for k s
    by (simp add: op split: prod.splits)
  show ?thesis
    by unfold_locales (use at touch_view in \<open>auto simp: computes_def split\<close>)
qed

lemmas key_op_simps = computes_def live_upd_same dict_ok_fold dict_ok_fold_nil hset_loop_spec

interpretation get_op: key_op get_string get_spec
  by (rule key_opI [OF get_string_def])
     (auto simp: key_op_simps get_spec_def elim!: entry_okE split: option.splits)

interpretation hgetall_op: key_op hgetall hgetall_spec
  by (rule key_opI [OF hgetall_def])
     (auto simp: key_op_simps hgetall_spec_def elim!: entry_okE split: option.splits)

interpretation exists_op: key_op exists_key exists_spec
  by (rule key_opI [OF exists_key_def])
     (auto simp: key_op_simps exists_spec_def split: option.splits)

interpretation type_op: key_op type_of type_spec
  by (rule key_opI [OF type_of_def])
     (auto simp: key_op_simps type_spec_def split: option.splits)

lemma key_op_lpush: "key_op (\<lambda>k. lpush k els) (lpush_spec els)"
  by (rule key_opI [OF lpush_def])
     (auto simp: key_op_simps lpush_spec_def dict_simps value_ok_def Let_def elim!: entry_okE
       intro!: inv_put_present inv_new_entry split: option.splits)

interpretation lpush_op: key_op "\<lambda>k. lpush k els" "lpush_spec els" for els
  by (rule key_op_lpush)

interpretation rpop_op: key_op rpop rpop_spec
  by (rule key_opI [OF rpop_def])
     (auto simp: key_op_simps rpop_spec_def dict_simps value_ok_def Let_def elim!: entry_okE
       intro!: inv_put_present inv_drop_key split: option.splits)

lemma key_op_hset: "key_op (\<lambda>k. hset k items) (hset_spec items)"
  by (rule key_opI [OF hset_def])
     (auto simp: key_op_simps hset_spec_def dict_simps value_ok_def Let_def pydict.keys_empty pydict.ok_empty
       elim!: entry_okE intro!: inv_put_present inv_new_entry split: option.splits)

interpretation hset_op: key_op "\<lambda>k. hset k items" "hset_spec items" for items
  by (rule key_op_hset)


section \<open>SET, EXPIRE, TTL and DEL\<close>

definition set_spec :: "bytes \<Rightarrow> int option \<Rightarrow> int \<Rightarrow> key_entry option" where
  "set_spec v ex now =
     (case ex of
        None \<Rightarrow> Some (KeyEntry STRING (VStr v) None)
      | Some t \<Rightarrow> if t \<le> 0 then None else Some (KeyEntry STRING (VStr v) (Some (now + t * 1000))))"

lemma set_string_view:
  "live m (set_string k v ex s) = (live m s)(k := alive m (set_spec v ex (reading s)))"
  by (auto simp: set_string_def set_spec_def now_ms_def split: option.splits)

lemma set_string_inv [inv_intros]: "store_inv s \<Longrightarrow> store_inv (set_string k v ex s)"
  by (auto simp: set_string_def now_ms_def intro!: inv_drop_key inv_new_entry split: option.splits)

definition expire_spec :: "int \<Rightarrow> int \<Rightarrow> key_entry option \<Rightarrow> int \<times> key_entry option" where
  "expire_spec secs now e =
     (case e of
        None \<Rightarrow> (0, None)
      | Some x \<Rightarrow>
          (1, if secs \<le> 0 then None else Some (x\<lparr>expire_at_ms := Some (now + secs * 1000)\<rparr>)))"

lemma expire_op:
  fixes k :: bytes
  assumes "store_inv s"
  defines "now \<equiv> reading (snd (touch k s))"
  shows "fst (expire k secs s) = fst (expire_spec secs now (live (reading s) s k))"
    and "reading s \<le> m \<Longrightarrow>
      live m (snd (expire k secs s)) = (live m s)(k := alive m (snd (expire_spec secs now (live (reading s) s k))))"
    and "store_inv (snd (expire k secs s))"
proof -
  obtain r s1 where t: "touch k s = (r, s1)" by (cases "touch k s")
  have view: "reading s \<le> m \<Longrightarrow> live m s1 = live m s"
    using touch_view [of s m k] t by simp
  have inv: "store_inv s1" using touch_inv [OF assms(1), of k] t by simp
  have r: "r = live (reading s) s k" using touch_result [of k s] t by simp
  have get: "dict_get (entries s1) k = r"
    using touch_present [of k s] touch_absent [of k s] t by (cases r) simp_all
  have ok: "entry_ok x \<and> k \<in> set (dict_keys (entries s1))" if "r = Some x" for x
    using touch_entry_ok [OF assms(1), of k x] that t get by (auto dest: dict_get_in_keys)
  show "fst (expire k secs s) = fst (expire_spec secs now (live (reading s) s k))"
    by (auto simp: expire_def t r [symmetric] expire_spec_def now_ms_def now_def split: option.splits)
  show "live m (snd (expire k secs s))
      = (live m s)(k := alive m (snd (expire_spec secs now (live (reading s) s k))))" if "reading s \<le> m"
    using view [OF that] live_upd_same(2) [of s1 k m] get
    by (auto simp: expire_def t r [symmetric] expire_spec_def now_ms_def now_def split: option.splits)
  show "store_inv (snd (expire k secs s))"
    using inv ok by (auto simp: expire_def t now_ms_def intro!: inv_drop_key inv_put_present
        split: option.splits)
qed

lemma pexpire_at_inv [inv_intros]:
  assumes "store_inv s"
  shows "store_inv (pexpire_at k t s)"
proof (cases "touch k s")
  case (Pair r s1)
  then show ?thesis
    using touch_inv [OF assms, of k] touch_entry_ok [OF assms, of k] touch_present [of k s]
    by (auto simp: pexpire_at_def intro!: inv_put_present dest: dict_get_in_keys split: option.splits)
qed

lemma is_expired_now_eq:
  "is_expired_now e s = (is_expired e (reading s), if e = None then s else s\<lparr>ticks := Suc (ticks s)\<rparr>)"
  by (auto simp: is_expired_now_def now_ms_def is_expired_def split: option.splits)

lemma ttl_inv [inv_intros]: "store_inv s \<Longrightarrow> store_inv (snd (ttl k s))"
  by (auto simp: ttl_def is_expired_now_eq ttl_seconds_now_def now_ms_def
      intro: inv_drop_key split: option.splits)

lemma delete_loop_view: "live m (snd (delete_loop ks r s)) = (\<lambda>k. if k \<in> set ks then None else live m s k)"
proof (induction ks r s rule: delete_loop.induct)
  case (2 key keys removed s)
  show ?case
  proof (cases "dict_get (entries s) key")
    case None
    with 2 show ?thesis by (auto simp: live_def fun_eq_iff)
  next
    case (Some e)
    with 2 show ?thesis by (auto simp: is_expired_now_eq fun_eq_iff)
  qed
qed simp

lemma delete_view: "live m (snd (delete ks s)) = (\<lambda>k. if k \<in> set ks then None else live m s k)"
  by (simp add: delete_def delete_loop_view)

lemma delete_inv [inv_intros]: "store_inv s \<Longrightarrow> store_inv (snd (delete ks s))"
proof -
  have "store_inv s \<Longrightarrow> store_inv (snd (delete_loop ks r s))" for r
    by (induction ks r s rule: delete_loop.induct)
       (auto simp: is_expired_now_eq inv_drop_key split: option.splits)
  then show "store_inv s \<Longrightarrow> store_inv (snd (delete ks s))" by (simp add: delete_def)
qed

section \<open>Whole-keyspace operations\<close>

lemma drop_keys_simps [simp]:
  "clock (drop_keys ks s) = clock s" "ticks (drop_keys ks s) = ticks s"
  "maxmemory_bytes (drop_keys ks s) = maxmemory_bytes s"
  "maxmemory_policy (drop_keys ks s) = maxmemory_policy s"
  "evicted_keys (drop_keys ks s) = evicted_keys s"
  "access_clock (drop_keys ks s) = access_clock s"
  by (induction ks arbitrary: s) simp_all

lemma drop_keys_last_access:
  "dict_get (last_access (drop_keys ks s)) k = (if k \<in> set ks then None else dict_get (last_access s) k)"
  by (induction ks arbitrary: s) (auto simp: dict_simps)

definition unexpired :: "int \<Rightarrow> (bytes, key_entry) dict \<Rightarrow> (bytes, key_entry) dict" where
  "unexpired now = filter (\<lambda>(k, e). \<not> is_expired (expire_at_ms e) now)"

lemma drop_expired_entries:
  assumes "dict_ok (entries s)"
  shows "entries (drop_keys (expired_keys now (entries s)) s) = unexpired now (entries s)"
  unfolding drop_keys_entries unexpired_def
proof (rule filter_cong [OF refl])
  fix x assume x: "x \<in> set (entries s)"
  obtain k e where ke: "x = (k, e)" by (cases x)
  have uniq: "e' = e" if "(k, e') \<in> set (entries s)" for e'
    using x ke assms that eq_key_imp_eq_value [of "entries s" k e' e] by (simp add: dict_ok_def)
  have "k \<in> set (expired_keys now (entries s)) \<longleftrightarrow>
      (\<exists>e'. (k, e') \<in> set (entries s) \<and> is_expired (expire_at_ms e') now)"
    by (force simp: expired_keys_def)
  also have "\<dots> \<longleftrightarrow> is_expired (expire_at_ms e) now"
    using uniq x ke by blast
  finally have "k \<in> set (expired_keys now (entries s)) \<longleftrightarrow> is_expired (expire_at_ms e) now" .
  then show "(case x of (k, e) \<Rightarrow> k \<notin> set (expired_keys now (entries s)))
      = (case x of (k, e) \<Rightarrow> \<not> is_expired (expire_at_ms e) now)"
    by (simp add: ke)
qed

lemma purge_entries:
  "store_inv s \<Longrightarrow> entries (purge_expired s) = unexpired (reading s) (entries s)"
  using drop_expired_entries [of "s\<lparr>ticks := Suc (ticks s)\<rparr>" "reading s"]
  by (simp add: purge_expired_def now_ms_def store_invD(1))

lemma purge_inv [inv_intros]: "store_inv s \<Longrightarrow> store_inv (purge_expired s)"
  by (simp add: purge_expired_def now_ms_def inv_drop_keys)

lemma get_unexpired: "dict_ok es \<Longrightarrow> dict_get (unexpired n es) k = alive n (dict_get es k)"
proof (induction es)
  case (Cons x es)
  then have ok: "dict_ok es" and new: "fst x \<notin> fst ` set es" by (simp_all add: dict_ok_def)
  then have "dict_get es (fst x) = None"
    using pydict.get_None [of es "fst x"] by (simp add: dict_keys_def)
  with Cons.IH [OF ok] show ?case
    by (cases x) (auto simp: unexpired_def dict_get_def alive_def)
qed (simp add: unexpired_def dict_get_def)

lemma alive_alive_later: "n \<le> m \<Longrightarrow> alive m (alive n e) = alive m e"
  by (auto simp: alive_def is_expired_def split: option.splits)

lemma purge_view: "store_inv s \<Longrightarrow> reading s \<le> m \<Longrightarrow> live m (purge_expired s) = live m s"
  by (simp add: live_def fun_eq_iff purge_entries get_unexpired store_invD(1) alive_alive_later)

subsection \<open>Snapshots\<close>

text \<open>
  The contract of snapshots: taking one does not change what readers see, it holds exactly the
  entries alive at that moment, and loading it makes a reader of any store see it.
\<close>

locale snapshot_store =
  fixes view :: "int \<Rightarrow> 's \<Rightarrow> 'k \<Rightarrow> 'e option"
    and inv :: "'s \<Rightarrow> bool"
    and now :: "'s \<Rightarrow> int"
    and snap :: "'s \<Rightarrow> ('k, 'e) dict \<times> 's"
    and load :: "('k, 'e) dict \<Rightarrow> 's \<Rightarrow> 's"
    and fresh :: "int \<Rightarrow> 'e option \<Rightarrow> 'e option"
    and good :: "('k, 'e) dict \<Rightarrow> bool"
  assumes snap_inv: "inv s \<Longrightarrow> inv (snd (snap s))"
    and snap_good: "inv s \<Longrightarrow> good (fst (snap s))"
    and snap_view: "inv s \<Longrightarrow> now s \<le> m \<Longrightarrow> view m (snd (snap s)) = view m s"
    and snap_entries: "inv s \<Longrightarrow> dict_get (fst (snap s)) = view (now s) s"
    and load_inv: "good es \<Longrightarrow> inv (load es s)"
    and load_view: "good es \<Longrightarrow> view m (load es s) k = fresh m (dict_get es k)"
    and fresh_later: "n \<le> m \<Longrightarrow> fresh m (view n s k) = view m s k"
begin

text \<open>A snapshot loaded anywhere shows the keyspace it was taken from.\<close>

lemma restore_view:
  assumes "inv s" and "now s \<le> m"
  shows "view m (load (fst (snap s)) t) = view m s"
  using assms by (auto simp: fun_eq_iff load_view snap_good snap_entries fresh_later)

lemma restore_inv: "inv s \<Longrightarrow> inv (load (fst (snap s)) t)"
  by (simp add: load_inv snap_good)

end

definition entries_ok :: "(bytes, key_entry) dict \<Rightarrow> bool" where
  "entries_ok es \<longleftrightarrow> dict_ok es \<and> (\<forall>k e. dict_get es k = Some e \<longrightarrow> entry_ok e)"

lemma copy_entries_id [simp]: "map (\<lambda>(k, e). (k, entry_copy e)) es = es"
  by (induction es) auto

lemma dict_ok_unexpired: "dict_ok es \<Longrightarrow> dict_ok (unexpired n es)"
  by (simp add: dict_ok_def unexpired_def distinct_map_filter)

lemma snapshot_eq:
  assumes "store_inv s"
  shows "snapshot s = (unexpired (reading s) (entries s), purge_expired s)"
  by (simp add: snapshot_def iter_entries_def purge_expired_def now_ms_def unexpired_def)

lemma load_entries_simps [simp]:
  "entries (load_entries es s) = es"
  "access_clock (load_entries es s) = length es"
  "last_access (load_entries es s) = zip (dict_keys es) [0..<length es]"
  by (simp_all add: load_entries_def Let_def)

lemma load_entries_inv:
  assumes "entries_ok es"
  shows "store_inv (load_entries es s)"
proof -
  let ?d = "zip (dict_keys es) [0..<length es]"
  have len: "length (dict_keys es) = length [0..<length es]" by (simp add: dict_keys_def)
  then have keys: "dict_keys ?d = dict_keys es" by (simp add: dict_keys_def [of ?d])
  have ok: "dict_ok es" using assms by (simp add: entries_ok_def)
  then have dist: "distinct (dict_keys es)" by (rule pydict.ok_distinct)
  then have dok: "dict_ok ?d" using len by (simp add: dict_ok_def)
  have nth: "n < length es \<and> k = dict_keys es ! n" if "dict_get ?d k = Some n" for k n
    using dict_get_SomeD [OF that] by (auto simp: set_zip)
  have "inj_on (dict_get ?d) (set (dict_keys ?d))"
  proof (rule inj_onI)
    fix x y assume "x \<in> set (dict_keys ?d)" "dict_get ?d x = dict_get ?d y"
    then show "x = y"
      using pydict.get_None [of ?d x] nth by (metis not_None_eq)
  qed
  with ok dok keys nth assms show ?thesis
    by (fastforce simp: store_inv_def stamps_ok_def entries_ok_def)
qed

interpretation snap: snapshot_store live store_inv reading snapshot load_entries alive entries_ok
proof unfold_locales
  fix s :: store and m n :: int and k :: bytes and es :: "(bytes, key_entry) dict"
  show "store_inv s \<Longrightarrow> store_inv (snd (snapshot s))"
    by (simp add: snapshot_eq purge_inv)
  show "entries_ok (fst (snapshot s))" if "store_inv s"
    using that
    by (auto simp: snapshot_eq entries_ok_def dict_ok_unexpired get_unexpired store_invD(1) alive_def
        intro: store_invD(2) [OF that] split: option.splits if_splits)
  show "store_inv s \<Longrightarrow> reading s \<le> m \<Longrightarrow> live m (snd (snapshot s)) = live m s"
    by (simp add: snapshot_eq purge_view)
  show "store_inv s \<Longrightarrow> dict_get (fst (snapshot s)) = live (reading s) s"
    by (simp add: snapshot_eq fun_eq_iff get_unexpired store_invD(1) live_def)
  show "entries_ok es \<Longrightarrow> store_inv (load_entries es s)" by (rule load_entries_inv)
  show "entries_ok es \<Longrightarrow> live m (load_entries es s) k = alive m (dict_get es k)"
    by (simp add: live_def)
  show "n \<le> m \<Longrightarrow> alive m (live n s k) = live m s k"
    by (simp add: live_def alive_alive_later)
qed

end
