(* ===== verification/Store_Evict.thy ===== *)
theory Store_Evict
  imports Store_Spec
begin

text \<open>
  The memory accounting and the eviction loop of \<open>store.py\<close>, and the store as a transition
  system over its public operations.
\<close>

section \<open>Accounting\<close>

fun value_size :: "redis_value \<Rightarrow> nat" where
  "value_size (VStr b) = length b"
| "value_size (VList xs) = sum_list (map (\<lambda>x. length x + 16) xs)"
| "value_size (VHash d) = sum_list (map (\<lambda>(f, v). length f + length v + 32) d)"

definition entry_size :: "bytes \<times> key_entry \<Rightarrow> nat" where
  "entry_size ke = length (fst ke) + 64 + value_size (kvalue (snd ke))"

definition used_memory :: "store \<Rightarrow> nat" where
  "used_memory s = sum_list (map entry_size (entries s))"

lemma entry_usage_ok: "entry_ok (snd ke) \<Longrightarrow> entry_usage ke = Inr (entry_size ke)"
  by (auto simp: entry_usage_def entry_size_def Let_def elim!: entry_okE)

text \<open>On a well-formed store the accounting never hits an assertion.\<close>

lemma memory_usage_eq:
  assumes "store_inv s"
  shows "memory_usage s = (Inr (used_memory (purge_expired s)), purge_expired s)"
proof -
  have inv: "store_inv (purge_expired s)" using assms by (rule purge_inv)
  have "entry_ok (snd ke)" if "ke \<in> set (entries (purge_expired s))" for ke
    using store_invD(2) [OF inv, of "fst ke" "snd ke"] that
      dict_get_iff [OF store_invD(1) [OF inv], of "fst ke" "snd ke"] by simp
  then have "map_res entry_usage (entries (purge_expired s))
      = Inr (map entry_size (entries (purge_expired s)))"
    by (intro map_res_all_Inr entry_usage_ok)
  then show ?thesis by (simp add: memory_usage_def Let_def used_memory_def)
qed

section \<open>The eviction loop\<close>

lemma purge_simps [simp]:
  "maxmemory_bytes (purge_expired s) = maxmemory_bytes s"
  "maxmemory_policy (purge_expired s) = maxmemory_policy s"
  "evicted_keys (purge_expired s) = evicted_keys s"
  "clock (purge_expired s) = clock s"
  by (simp_all add: purge_expired_def now_ms_def)

lemma evict_key_simps [simp]:
  "entries (evict_key k s) = dict_del k (entries s)"
  "last_access (evict_key k s) = dict_del k (last_access s)"
  "maxmemory_bytes (evict_key k s) = maxmemory_bytes s"
  "maxmemory_policy (evict_key k s) = maxmemory_policy s"
  "evicted_keys (evict_key k s) = Suc (evicted_keys s)"
  "clock (evict_key k s) = clock s"
  by (simp_all add: evict_key_def)

lemma evict_key_inv [inv_intros]: "store_inv s \<Longrightarrow> store_inv (evict_key k s)"
  by (simp add: evict_key_def inv_drop_key)

lemma evict_loop_unfold:
  assumes "store_inv s"
  shows "evict_loop ev s =
    (let s1 = purge_expired s
     in if int (used_memory s1) \<le> maxmemory_bytes s then (Inr ev, s1)
        else (case choose_victim s1 of
                Inl e \<Rightarrow> (Inl e, s1)
              | Inr key \<Rightarrow> evict_loop (ev @ [key]) (evict_key key s1)))"
  by (subst evict_loop.simps) (simp add: memory_usage_eq [OF assms] Let_def)

text \<open>
  Induction over the iterations of the loop from a well-formed store: the three ways an iteration
  ends.
\<close>

lemma evict_loop_induct [consumes 1, case_names fits stuck evict]:
  assumes "store_inv s"
    and fits: "\<And>ev s. store_inv s \<Longrightarrow> int (used_memory (purge_expired s)) \<le> maxmemory_bytes s \<Longrightarrow>
      P ev s (Inr ev, purge_expired s)"
    and stuck: "\<And>ev s e. store_inv s \<Longrightarrow> maxmemory_bytes s < int (used_memory (purge_expired s)) \<Longrightarrow>
      choose_victim (purge_expired s) = Inl e \<Longrightarrow> P ev s (Inl e, purge_expired s)"
    and evict: "\<And>ev s key r. store_inv s \<Longrightarrow> maxmemory_bytes s < int (used_memory (purge_expired s)) \<Longrightarrow>
      choose_victim (purge_expired s) = Inr key \<Longrightarrow>
      P (ev @ [key]) (evict_key key (purge_expired s)) r \<Longrightarrow> P ev s r"
  shows "P ev s (evict_loop ev s)"
  using assms(1)
proof (induction "length (entries s)" arbitrary: ev s rule: less_induct)
  case less
  let ?s1 = "purge_expired s"
  note unf = evict_loop_unfold [OF less.prems, of ev, unfolded Let_def]
  have inv1: "store_inv ?s1" using less.prems by (rule purge_inv)
  show ?case
  proof (cases "int (used_memory ?s1) \<le> maxmemory_bytes s")
    case True
    with unf fits [OF less.prems True] show ?thesis by simp
  next
    case False
    then have big: "maxmemory_bytes s < int (used_memory ?s1)" by simp
    show ?thesis
    proof (cases "choose_victim ?s1")
      case (Inl e)
      with unf False stuck [OF less.prems big Inl] show ?thesis by simp
    next
      case (Inr key)
      from choose_victim_in [OF Inr] candidates_subset [of ?s1]
      have "key \<in> set (dict_keys (entries ?s1))" by auto
      from length_dict_del [OF this] purge_expired_length [of s]
      have "length (entries (evict_key key ?s1)) < length (entries s)" by simp
      then have "P (ev @ [key]) (evict_key key ?s1) (evict_loop (ev @ [key]) (evict_key key ?s1))"
        using evict_key_inv [OF inv1] by (rule less.hyps)
      from evict [OF less.prems big Inr this] unf False Inr show ?thesis by simp
    qed
  qed
qed

lemma evict_loop_inv: "store_inv s \<Longrightarrow> store_inv (snd (evict_loop ev s))"
  by (rule evict_loop_induct [where P = "\<lambda>ev s r. store_inv (snd r)"]) (auto intro: purge_inv)

lemma evict_loop_fits:
  assumes "store_inv s" and "fst (evict_loop ev s) = Inr vs"
  shows "int (used_memory (snd (evict_loop ev s))) \<le> maxmemory_bytes s"
proof -
  have "(\<lambda>ev s r. fst r = Inr vs \<longrightarrow> int (used_memory (snd r)) \<le> maxmemory_bytes s)
      ev s (evict_loop ev s)"
    using assms(1) by (rule evict_loop_induct) auto
  with assms(2) show ?thesis by simp
qed

lemma enforce_inv [inv_intros]: "store_inv s \<Longrightarrow> store_inv (snd (enforce_memory_limit s))"
  by (simp add: enforce_memory_limit_def evict_loop_inv)

abbreviation key_set :: "store \<Rightarrow> bytes set" where
  "key_set s \<equiv> set (dict_keys (entries s))"

lemma purge_key_set: "key_set (purge_expired s) \<subseteq> key_set s"
  by (auto simp: purge_expired_def now_ms_def drop_keys_entries dict_keys_def)

lemma drop_keys_get:
  "dict_get (entries (drop_keys ks s)) k = (if k \<in> set ks then None else dict_get (entries s) k)"
  by (induction ks arbitrary: s) (auto simp: dict_simps)

lemma purge_get:
  assumes "k \<in> key_set (purge_expired s)"
  shows "dict_get (entries (purge_expired s)) k = dict_get (entries s) k"
    and "dict_get (last_access (purge_expired s)) k = dict_get (last_access s) k"
proof -
  have "k \<notin> set (expired_keys (reading s) (entries s))"
    using assms drop_keys_get [of _ "s\<lparr>ticks := Suc (ticks s)\<rparr>" k]
      pydict.get_None [of "entries (purge_expired s)" k]
    by (auto simp: purge_expired_def now_ms_def split: if_splits)
  then show "dict_get (entries (purge_expired s)) k = dict_get (entries s) k"
    and "dict_get (last_access (purge_expired s)) k = dict_get (last_access s) k"
    by (simp_all add: purge_expired_def now_ms_def drop_keys_get drop_keys_last_access)
qed

lemma del_key_set: "key_set (evict_key k s) = key_set s - {k}"
  by (simp add: dict_simps)

text \<open>What an iteration does to the keys that stay.\<close>

lemma evict_step_get:
  assumes "k \<in> key_set (evict_key v (purge_expired s))"
  shows "dict_get (entries (evict_key v (purge_expired s))) k = dict_get (entries s) k"
    and "access_stamp (evict_key v (purge_expired s)) k = access_stamp s k"
proof -
  from assms have k: "k \<noteq> v" "k \<in> key_set (purge_expired s)" by (auto simp: dict_simps)
  then show "dict_get (entries (evict_key v (purge_expired s))) k = dict_get (entries s) k"
    and "access_stamp (evict_key v (purge_expired s)) k = access_stamp s k"
    by (simp_all add: dict_simps purge_get access_stamp_def)
qed

subsection \<open>What the loop reports\<close>

text \<open>An entry was past its deadline at one of the clock readings made between two states.\<close>

definition seen_expired :: "store \<Rightarrow> store \<Rightarrow> key_entry \<Rightarrow> bool" where
  "seen_expired s t e \<longleftrightarrow> (\<exists>i\<in>{ticks s..<ticks t}. is_expired (expire_at_ms e) (clock s i))"

text \<open>The account of an eviction: the reported victims are different keys, one per count of
  \<open>evicted_keys\<close>, each was there before and is gone, and every other key is unchanged unless its
  deadline had passed.\<close>

definition evictions :: "bytes list \<Rightarrow> store \<Rightarrow> store \<Rightarrow> bool" where
  "evictions vs s t \<longleftrightarrow>
     distinct vs \<and> set vs \<subseteq> key_set s \<and> evicted_keys t = evicted_keys s + length vs
     \<and> (\<forall>k\<in>set vs. dict_get (entries t) k = None)
     \<and> (\<forall>k. k \<notin> set vs \<longrightarrow> dict_get (entries t) k = dict_get (entries s) k
          \<or> dict_get (entries t) k = None \<and> (\<exists>e. dict_get (entries s) k = Some e \<and> seen_expired s t e))"

lemma purge_ticks: "ticks (purge_expired s) = Suc (ticks s)"
  by (simp add: purge_expired_def now_ms_def)

lemma evict_key_ticks [simp]: "ticks (evict_key k s) = ticks s"
  by (simp add: evict_key_def)

lemma purge_dropped:
  assumes "dict_ok (entries s)"
  shows "dict_get (entries (purge_expired s)) k = dict_get (entries s) k
    \<or> dict_get (entries (purge_expired s)) k = None
      \<and> (\<exists>e. dict_get (entries s) k = Some e \<and> is_expired (expire_at_ms e) (clock s (ticks s)))"
proof (cases "k \<in> set (expired_keys (reading s) (entries s))")
  case True
  then obtain e where "(k, e) \<in> set (entries s)" "is_expired (expire_at_ms e) (reading s)"
    by (auto simp: expired_keys_def)
  with True dict_get_iff [OF assms, of k e] show ?thesis
    by (auto simp: purge_expired_def now_ms_def drop_keys_get reading_def)
next
  case False
  then show ?thesis by (simp add: purge_expired_def now_ms_def drop_keys_get)
qed

lemma purge_evictions: "store_inv s \<Longrightarrow> evictions [] s (purge_expired s)"
  using purge_dropped [OF store_invD(1), of s] by (auto simp: evictions_def seen_expired_def purge_ticks)

lemma evictions_step:
  assumes inv: "store_inv s" and v: "choose_victim (purge_expired s) = Inr v"
    and rest: "evictions vs (evict_key v (purge_expired s)) t" and ticks: "Suc (ticks s) \<le> ticks t"
  shows "evictions (v # vs) s t"
proof -
  let ?p = "purge_expired s"
  have vp: "v \<in> key_set ?p" using choose_victim_in [OF v] candidates_subset by blast
  have seen: "seen_expired s t e" if "seen_expired (evict_key v ?p) t e" for e
    using that by (auto simp: seen_expired_def purge_ticks)
  have first: "seen_expired s t e" if "is_expired (expire_at_ms e) (clock s (ticks s))" for e
    using that ticks by (auto simp: seen_expired_def intro!: bexI [of _ "ticks s"])
  from rest have new: "v \<notin> set vs" "set vs \<subseteq> key_set ?p" by (auto simp: evictions_def dict_simps)
  have gone: "dict_get (entries t) v = None"
    using rest new(1) by (auto simp: evictions_def dict_simps)
  have other: "dict_get (entries t) k = dict_get (entries s) k
      \<or> dict_get (entries t) k = None \<and> (\<exists>e. dict_get (entries s) k = Some e \<and> seen_expired s t e)"
    if "k \<notin> set (v # vs)" for k
  proof -
    have "dict_get (entries t) k = dict_get (entries ?p) k
        \<or> dict_get (entries t) k = None \<and> (\<exists>e. dict_get (entries ?p) k = Some e \<and> seen_expired s t e)"
      using rest that seen by (auto simp: evictions_def dict_simps)
    with purge_dropped [OF store_invD(1) [OF inv], of k] first show ?thesis
      by (cases "dict_get (entries s) k") auto
  qed
  have "set (v # vs) \<subseteq> key_set s" using vp new(2) purge_key_set [of s] by auto
  with rest new(1) gone other show ?thesis by (auto simp: evictions_def)
qed

lemma evict_loop_account:
  assumes "store_inv s" and "evict_loop ev s = (Inr vs', t)"
  shows "\<exists>vs. vs' = ev @ vs \<and> evictions vs s t \<and> ticks s < ticks t"
proof -
  have "(\<lambda>ev s r. \<forall>vs' t. r = (Inr vs', t) \<longrightarrow> (\<exists>vs. vs' = ev @ vs \<and> evictions vs s t \<and> ticks s < ticks t))
      ev s (evict_loop ev s)"
    using assms(1)
  proof (induction rule: evict_loop_induct)
    case (fits ev s)
    then show ?case using purge_evictions by (auto simp: purge_ticks)
  next
    case (evict ev s key r)
    show ?case
    proof (intro allI impI)
      fix vs' t
      assume "r = (Inr vs', t)"
      with evict.IH obtain vs where vs: "vs' = ev @ key # vs"
        "evictions vs (evict_key key (purge_expired s)) t" "Suc (ticks s) < ticks t" by (auto simp: purge_ticks)
      then have "evictions (key # vs) s t" using evictions_step [OF evict.hyps(1,3)] by simp
      with vs show "\<exists>vs. vs' = ev @ vs \<and> evictions vs s t \<and> ticks s < ticks t" by auto
    qed
  qed simp
  with assms(2) show ?thesis by simp
qed

lemma enforce_account:
  assumes "store_inv s" and "enforce_memory_limit s = (Inr vs, t)"
  shows "evictions vs s t"
proof (cases "maxmemory_bytes s \<le> 0")
  case True
  with assms(2) show ?thesis by (simp add: enforce_memory_limit_def evictions_def)
next
  case False
  with assms evict_loop_account [OF assms(1), of "[]" vs t] show ?thesis
    by (simp add: enforce_memory_limit_def)
qed

subsection \<open>Least recently used eviction\<close>

lemma candidates_lru:
  "maxmemory_policy s = ''allkeys-lru'' \<Longrightarrow> candidates s = dict_keys (entries s)"
  by (simp add: candidates_def dict_keys_def split_beta)

lemma lru_victim_least:
  assumes "store_inv s" and "maxmemory_policy s = ''allkeys-lru''"
    and "choose_victim s = Inr v" and "k \<in> key_set s" and "k \<noteq> v"
  shows "access_stamp s v < access_stamp s k"
proof -
  have v: "v \<in> key_set s"
    using choose_victim_in [OF assms(3)] candidates_subset by blast
  from assms(2,3) obtain c cs where cs: "dict_keys (entries s) = c # cs"
    and vmin: "v = min_by (access_stamp s) c cs"
    by (auto simp: choose_victim_def candidates_lru split: list.splits)
  with assms(4) have le: "access_stamp s v \<le> access_stamp s k"
    using min_by_least [of k c cs "access_stamp s"] by simp
  have keys: "set (dict_keys (last_access s)) = key_set s"
    and inj: "inj_on (dict_get (last_access s)) (key_set s)"
    using store_invD(3,4) [OF assms(1)] by (simp_all add: stamps_ok_def)
  have some: "\<exists>n. dict_get (last_access s) x = Some n" if "x \<in> key_set s" for x
    using pydict.get_None [of "last_access s" x] that keys by auto
  have "dict_get (last_access s) v \<noteq> dict_get (last_access s) k"
    using inj_onD [OF inj _ v assms(4)] assms(5) by blast
  then have "access_stamp s v \<noteq> access_stamp s k"
    using some [OF v] some [OF assms(4)] by (auto simp: access_stamp_def)
  with le show ?thesis by simp
qed

lemma lru_never_stuck:
  assumes "maxmemory_policy s = ''allkeys-lru''" and "0 < maxmemory_bytes s"
    and "maxmemory_bytes s < int (used_memory s)"
  shows "choose_victim s \<noteq> Inl e"
proof
  assume "choose_victim s = Inl e"
  with assms(1) have "dict_keys (entries s) = []"
    by (auto simp: choose_victim_def candidates_lru split: list.splits)
  then have "used_memory s = 0" by (simp add: used_memory_def dict_keys_def)
  with assms(2,3) show False by simp
qed

definition lru_outcome :: "bytes list \<Rightarrow> store \<Rightarrow> bytes list res \<times> store \<Rightarrow> bool" where
  "lru_outcome ev s r \<longleftrightarrow>
     (\<exists>vs s'. r = (Inr (ev @ vs), s') \<and> key_set s' \<subseteq> key_set s \<and> set vs \<subseteq> key_set s
       \<and> evicted_keys s' = evicted_keys s + length vs
       \<and> (\<forall>k\<in>key_set s'. dict_get (entries s') k = dict_get (entries s) k)
       \<and> (\<forall>v\<in>set vs. \<forall>k\<in>key_set s'. access_stamp s v < access_stamp s k))"

lemma lru_outcome_step:
  assumes inv: "store_inv s" and pol: "maxmemory_policy s = ''allkeys-lru''"
    and v: "choose_victim (purge_expired s) = Inr v"
    and out: "lru_outcome (ev @ [v]) (evict_key v (purge_expired s)) r"
  shows "lru_outcome ev s r"
proof -
  let ?s1 = "purge_expired s" and ?s2 = "evict_key v (purge_expired s)"
  from out obtain vs s' where r: "r = (Inr (ev @ v # vs), s')"
    and sub: "key_set s' \<subseteq> key_set ?s2" "set vs \<subseteq> key_set ?s2"
    and cnt: "evicted_keys s' = evicted_keys ?s2 + length vs"
    and get: "\<forall>k\<in>key_set s'. dict_get (entries s') k = dict_get (entries ?s2) k"
    and lru: "\<forall>w\<in>set vs. \<forall>k\<in>key_set s'. access_stamp ?s2 w < access_stamp ?s2 k"
    by (auto simp: lru_outcome_def)
  have sub1: "key_set ?s2 \<subseteq> key_set ?s1" and sub0: "key_set ?s1 \<subseteq> key_set s"
    using purge_key_set [of s] by (auto simp: dict_simps)
  have v1: "v \<in> key_set ?s1"
    using choose_victim_in [OF v] candidates_subset by blast
  have stamp1: "access_stamp ?s1 k = access_stamp s k" if "k \<in> key_set ?s1" for k
    using purge_get(2) [OF that] by (simp add: access_stamp_def)
  have first: "access_stamp s v < access_stamp s k" if "k \<in> key_set s'" for k
  proof -
    from that sub(1) have "k \<in> key_set ?s1" "k \<noteq> v" by (auto simp: dict_simps)
    with lru_victim_least [OF purge_inv [OF inv] _ v] pol v1 stamp1 show ?thesis by simp
  qed
  have rest: "access_stamp s w < access_stamp s k" if "w \<in> set vs" "k \<in> key_set s'" for w k
    using lru that sub evict_step_get(2) [of w v s] evict_step_get(2) [of k v s] by (metis subsetD)
  have "\<forall>k\<in>key_set s'. dict_get (entries s') k = dict_get (entries s) k"
    using get sub(1) evict_step_get(1) [of _ v s] by (metis subsetD)
  moreover have "\<forall>w\<in>set (v # vs). \<forall>k\<in>key_set s'. access_stamp s w < access_stamp s k"
    using first rest by auto
  moreover have "set (v # vs) \<subseteq> key_set s" and "key_set s' \<subseteq> key_set s"
    using v1 sub sub1 sub0 by auto
  ultimately show ?thesis
    unfolding lru_outcome_def using r cnt by (intro exI [of _ "v # vs"] exI [of _ s']) simp
qed

lemma evict_loop_lru:
  assumes "store_inv s" and "maxmemory_policy s = ''allkeys-lru''" and "0 < maxmemory_bytes s"
  shows "lru_outcome ev s (evict_loop ev s)"
proof -
  have "(\<lambda>ev s r. maxmemory_policy s = ''allkeys-lru'' \<longrightarrow> 0 < maxmemory_bytes s \<longrightarrow> lru_outcome ev s r)
      ev s (evict_loop ev s)"
    using assms(1)
  proof (induction rule: evict_loop_induct)
    case (fits ev s)
    then show ?case
      using purge_key_set [of s] purge_get(1) [of _ s] by (auto simp: lru_outcome_def)
  next
    case (stuck ev s e)
    then show ?case using lru_never_stuck [of "purge_expired s" e] by auto
  next
    case (evict ev s key r)
    then show ?case using lru_outcome_step [of s key ev r] by auto
  qed
  with assms(2,3) show ?thesis by simp
qed

subsection \<open>The other policies\<close>

lemma noeviction_victim:
  "maxmemory_policy s \<noteq> ''volatile-ttl'' \<Longrightarrow> maxmemory_policy s \<noteq> ''allkeys-lru'' \<Longrightarrow>
   choose_victim s = Inl MemoryLimitError"
  by (simp add: choose_victim_def split: list.splits)

lemma volatile_victim:
  assumes "maxmemory_policy s = ''volatile-ttl''" and "choose_victim s = Inr v"
    and "dict_ok (entries s)"
  shows "\<exists>e t. dict_get (entries s) v = Some e \<and> expire_at_ms e = Some t
    \<and> (\<forall>k e' t'. dict_get (entries s) k = Some e' \<longrightarrow> expire_at_ms e' = Some t' \<longrightarrow> t \<le> t')"
proof -
  from assms(1,2) obtain c cs where cs: "candidates s = c # cs"
    and vmin: "v = min_by (expiry_or_zero s) c cs"
    by (auto simp: choose_victim_def split: list.splits)
  have cand: "k \<in> set (candidates s) \<longleftrightarrow> (\<exists>e. dict_get (entries s) k = Some e \<and> expire_at_ms e \<noteq> None)"
    for k using assms(1) dict_get_iff [OF assms(3), of k] by (force simp: candidates_def)
  from choose_victim_in [OF assms(2)] cand obtain e t
    where e: "dict_get (entries s) v = Some e" "expire_at_ms e = Some t" by auto
  moreover have "t \<le> t'" if "dict_get (entries s) k = Some e'" "expire_at_ms e' = Some t'" for k e' t'
  proof -
    from that cand have "k \<in> set (c # cs)" using cs by auto
    from min_by_least [OF this, of "expiry_or_zero s"] vmin e that show ?thesis
      by (simp add: expiry_or_zero_def)
  qed
  ultimately show ?thesis by blast
qed

end
