(* ===== verification/Store_Machine.thy ===== *)
theory Store_Machine
  imports Store_Evict
begin

text \<open>
  The store as a transition system: one rule per public operation of \<open>Store\<close>, called in any
  order with any arguments. The properties of the store that hold in every reachable state are
  stated here.
\<close>

inductive store_step :: "store \<Rightarrow> store \<Rightarrow> bool" where
  step_set: "store_step s (set_string k v ex s)"
| step_get: "store_step s (snd (get_string k s))"
| step_lpush: "store_step s (snd (lpush k els s))"
| step_rpop: "store_step s (snd (rpop k s))"
| step_hset: "store_step s (snd (hset k items s))"
| step_hgetall: "store_step s (snd (hgetall k s))"
| step_delete: "store_step s (snd (delete ks s))"
| step_exists: "store_step s (snd (exists_key k s))"
| step_get_entry: "store_step s (snd (get_entry k s))"
| step_set_entry: "entry_ok e \<Longrightarrow> store_step s (set_entry k e s)"
| step_expire: "store_step s (snd (expire k secs s))"
| step_pexpire_at: "store_step s (pexpire_at k t s)"
| step_ttl: "store_step s (snd (ttl k s))"
| step_type: "store_step s (snd (type_of k s))"
| step_snapshot: "store_step s (snd (snapshot s))"
| step_clear: "store_step s (store_clear s)"
| step_load: "entries_ok es \<Longrightarrow> store_step s (load_entries es s)"
| step_dbsize: "store_step s (snd (dbsize s))"
| step_len: "store_step s (snd (store_len s))"
| step_keys: "store_step s (snd (store_keys s))"
| step_cycle: "store_step s (snd (active_expire_cycle n sample s))"
| step_stats: "store_step s (snd (keyspace_stats s))"
| step_memory: "store_step s (snd (memory_usage s))"
| step_enforce: "store_step s (snd (enforce_memory_limit s))"
| step_clock: "store_step s (snd (now_ms s))"

inductive store_reachable :: "store \<Rightarrow> bool" where
  reach_new: "store_reachable (new_store maxmem policy clk)"
| reach_step: "store_reachable s \<Longrightarrow> store_step s t \<Longrightarrow> store_reachable t"

inductive_simps reachable_step_iff: "store_step s t"

section \<open>Every operation keeps the invariant\<close>

lemma expire_sampled_inv: "store_inv s \<Longrightarrow> store_inv (snd (expire_sampled now ks s d))"
  by (induction now ks s d rule: expire_sampled.induct) (auto intro: inv_drop_key split: option.splits)

lemma cycle_inv [inv_intros]: "store_inv s \<Longrightarrow> store_inv (snd (active_expire_cycle n sample s))"
  by (simp add: active_expire_cycle_def now_ms_def Let_def expire_sampled_inv)

lemma store_keys_inv [inv_intros]: "store_inv s \<Longrightarrow> store_inv (snd (store_keys s))"
  using cycle_inv [of s "if entries s = [] then 1 else length (entries s)" "[]"]
  by (auto simp: store_keys_def split: prod.splits)

lemma clear_inv [inv_intros]: "store_inv (store_clear s)"
  by (simp add: store_clear_def store_inv_def stamps_ok_def pydict.ok_empty pydict.get_empty
      pydict.keys_empty)

lemma new_store_inv [inv_intros]: "store_inv (new_store maxmem policy clk)"
  by (simp add: new_store_def store_inv_def stamps_ok_def pydict.ok_empty pydict.get_empty
      pydict.keys_empty)

lemma memory_usage_inv [inv_intros]: "store_inv s \<Longrightarrow> store_inv (snd (memory_usage s))"
  by (simp add: memory_usage_eq purge_inv)

lemma stats_inv [inv_intros]: "store_inv s \<Longrightarrow> store_inv (snd (keyspace_stats s))"
  by (simp add: keyspace_stats_def now_ms_def Let_def purge_inv)

lemma store_step_inv: "store_step s t \<Longrightarrow> store_inv s \<Longrightarrow> store_inv t"
  by (induction rule: store_step.induct)
     (auto simp: get_entry_def set_entry_def dbsize_def store_len_def now_ms_def Let_def
       get_op.op_inv lpush_op.op_inv rpop_op.op_inv hset_op.op_inv hgetall_op.op_inv
       exists_op.op_inv type_op.op_inv snap.snap_inv snap.load_inv expire_op(3)
       intro: inv_intros touch_inv)

lemma store_reachable_inv: "store_reachable s \<Longrightarrow> store_inv s"
  by (induction rule: store_reachable.induct) (auto intro: new_store_inv store_step_inv)

section \<open>Queues and dictionaries\<close>

text \<open>Popping until the reply is nil, at most \<open>n\<close> times.\<close>

fun rpops :: "nat \<Rightarrow> bytes \<Rightarrow> store \<Rightarrow> bytes list" where
  "rpops 0 k s = []"
| "rpops (Suc n) k s =
     (case rpop k s of (Inr (Some v), s1) \<Rightarrow> v # rpops n k s1 | _ \<Rightarrow> [])"

lemma persistent_view:
  "live n s k = Some e \<Longrightarrow> expire_at_ms e = None \<Longrightarrow> live m s k = Some e"
  by (auto simp: live_def alive_def is_expired_def split: option.splits if_splits)

lemma rpops_list:
  assumes "store_inv s" and "live (reading s) s k = Some (KeyEntry LIST (VList q) None)"
  shows "rpops (length q) k s = rev q"
  using assms
proof (induction q arbitrary: s rule: rev_induct)
  case (snoc v q)
  obtain r s1 where op: "rpop k s = (r, s1)" by (cases "rpop k s")
  have r: "r = Inr (Some v)"
    using rpop_op.op_result [OF snoc.prems(1), of k] snoc.prems(2) op by (simp add: rpop_spec_def)
  have inv: "store_inv s1" using rpop_op.op_inv [OF snoc.prems(1), of k] op by simp
  show ?case
  proof (cases "q = []")
    case True
    with op r show ?thesis by simp
  next
    case False
    have "live (reading s) s1 k = Some (KeyEntry LIST (VList q) None)"
      using rpop_op.op_same_key [OF snoc.prems(1) order_refl, of k] snoc.prems(2) op False
      by (simp add: rpop_spec_def KeyEntry_def)
    then have "live (reading s1) s1 k = Some (KeyEntry LIST (VList q) None)"
      by (rule persistent_view) simp
    from snoc.IH [OF inv this] op r show ?thesis by simp
  qed
qed simp

end
