(* ===== verification/Store_Correct.thy ===== *)
theory Store_Correct
  imports Store_Machine
begin

text \<open>
  What the keyspace promises its callers, stated over the operations of the theory \<open>Store\<close>. The
  state a client can observe at time \<open>m\<close> is \<open>live m s\<close>: the stored entries whose deadline lies
  after \<open>m\<close>. Every property below follows from the invariant of \<open>Store_Inv\<close> and the locale
  facts of \<open>Store_Spec\<close>, \<open>Store_Evict\<close> and \<open>Store_Machine\<close>.
\<close>

section \<open>Invariant and type safety\<close>

text \<open>C17: Every store the program can reach from an empty one through any sequence of its
  operations satisfies the invariant: keys are unique, each entry's value has the shape its type
  tag says, every key has an LRU stamp and only existing keys have one, the stamps are pairwise
  different and none is ahead of the access clock.\<close>

theorem reachable_invariant:
  assumes "store_reachable s"
  shows "store_inv s"
  using assms by (rule store_reachable_inv)

theorem reachable_invariant_witness:
  "store_inv (snd (lpush ''q'' [''a'', ''b''] (set_string ''k'' ''v'' (Some 5) (new_store 0 ''noeviction'' (\<lambda>i. int i)))))"
  by (rule reachable_invariant) (intro reach_step [OF _ step_lpush] reach_step [OF _ step_set] reach_new)

text \<open>C31: No reachable store makes an operation fail one of its \<open>assert isinstance\<close> checks: the
  only exception the data operations raise is the documented wrong-type error, and the memory
  accounting never fails.\<close>

theorem no_assertion_failure:
  assumes "store_reachable s"
  shows "fst (get_string k s) \<in> range Inr \<union> {Inl WrongTypeError}
    \<and> fst (lpush k els s) \<in> range Inr \<union> {Inl WrongTypeError}
    \<and> fst (rpop k s) \<in> range Inr \<union> {Inl WrongTypeError}
    \<and> fst (hset k items s) \<in> range Inr \<union> {Inl WrongTypeError}
    \<and> fst (hgetall k s) \<in> range Inr \<union> {Inl WrongTypeError}
    \<and> fst (memory_usage s) \<in> range Inr"
proof -
  note inv = store_reachable_inv [OF assms]
  show ?thesis
    unfolding get_op.op_result [OF inv] lpush_op.op_result [OF inv] rpop_op.op_result [OF inv]
      hset_op.op_result [OF inv] hgetall_op.op_result [OF inv] memory_usage_eq [OF inv]
    by (auto simp: get_spec_def lpush_spec_def rpop_spec_def hset_spec_def hgetall_spec_def
        split: option.splits redis_value.splits)
qed

theorem no_assertion_failure_witness:
  "fst (rpop ''k'' (set_string ''k'' ''v'' None (new_store 0 ''noeviction'' (\<lambda>i. 0))))
     \<in> range Inr \<union> {Inl WrongTypeError}"
  using no_assertion_failure
    [of "set_string ''k'' ''v'' None (new_store 0 ''noeviction'' (\<lambda>i. 0))" "''k''" "[]" "[]"]
    reach_step [OF reach_new step_set]
  by blast

section \<open>Strings\<close>

text \<open>\<open>SET\<close> then \<open>GET\<close>: a stored value is returned until its deadline and not after it, the
  previous value and its deadline are forgotten, and no other key changes.\<close>

lemma set_then_get:
  assumes "store_inv s"
  shows "live m (set_string k v ex s) k
      = (case ex of
           None \<Rightarrow> Some (KeyEntry STRING (VStr v) None)
         | Some t \<Rightarrow> if 0 < t \<and> m < reading s + t * 1000
                     then Some (KeyEntry STRING (VStr v) (Some (reading s + t * 1000))) else None)
    \<and> (k' \<noteq> k \<longrightarrow> live m (set_string k v ex s) k' = live m s k')
    \<and> fst (get_string k (set_string k v None s)) = Inr (Some v)"
proof (intro conjI)
  show "live m (set_string k v ex s) k
      = (case ex of
           None \<Rightarrow> Some (KeyEntry STRING (VStr v) None)
         | Some t \<Rightarrow> if 0 < t \<and> m < reading s + t * 1000
                     then Some (KeyEntry STRING (VStr v) (Some (reading s + t * 1000))) else None)"
    by (auto simp: set_string_view set_spec_def alive_def is_expired_def split: option.splits)
  show "k' \<noteq> k \<longrightarrow> live m (set_string k v ex s) k' = live m s k'" by (simp add: set_string_view)
  have "store_inv (set_string k v None s)" using assms by (rule set_string_inv)
  from get_op.op_result [OF this, of k]
  show "fst (get_string k (set_string k v None s)) = Inr (Some v)"
    by (simp add: set_string_view set_spec_def get_spec_def)
qed

lemma set_then_get_witness:
  "live 4999 (set_string ''k'' ''v'' (Some 5) (new_store 0 ''noeviction'' (\<lambda>i. 0))) ''k''
     = Some (KeyEntry STRING (VStr ''v'') (Some 5000))"
  using set_then_get [OF new_store_inv, of 4999 "''k''" "''v''" "Some 5" 0 "''noeviction''" "\<lambda>i. 0"]
  by (simp add: reading_def new_store_def)

section \<open>Lists and hashes\<close>

text \<open>C27: \<open>LPUSH\<close> and \<open>RPOP\<close> implement their abstract queue operations on the live view:
  \<open>LPUSH\<close> puts its arguments in front in reverse order, keeps the deadline and returns the new
  length; \<open>RPOP\<close> takes the last element and removes the key with the last element; both refuse a
  key of another type without changing it; an expired list counts as absent; other keys are
  untouched.\<close>

theorem list_operations_refine:
  assumes "store_inv s" and "reading s \<le> m"
  shows "fst (lpush k els s) = fst (lpush_spec els (live (reading s) s k))
    \<and> live m (snd (lpush k els s)) = (live m s)(k := alive m (snd (lpush_spec els (live (reading s) s k))))
    \<and> fst (rpop k s) = fst (rpop_spec (live (reading s) s k))
    \<and> live m (snd (rpop k s)) = (live m s)(k := alive m (snd (rpop_spec (live (reading s) s k))))"
  using lpush_op.op_result [OF assms(1)] lpush_op.op_view [OF assms]
    rpop_op.op_result [OF assms(1)] rpop_op.op_view [OF assms]
  by blast

theorem list_operations_refine_witness:
  "fst (lpush ''q'' [''a'', ''b''] (new_store 0 ''noeviction'' (\<lambda>i. 7))) = Inr 2"
  using list_operations_refine
    [OF new_store_inv, of 0 "''noeviction''" "\<lambda>i. 7" 7 "''q''" "[''a'', ''b'']"]
  by (simp add: reading_def new_store_def live_def dict_get_def lpush_spec_def)

text \<open>\<open>LPUSH\<close> with \<open>RPOP\<close> is a first-in first-out queue: pushing a batch on an absent key and
  popping as many times returns the batch in the order it was pushed, whatever the clock does in
  between.\<close>

lemma list_is_fifo:
  assumes "store_reachable s" and "live (reading s) s k = None"
  shows "fst (lpush k els s) = Inr (length els)
    \<and> rpops (length els) k (snd (lpush k els s)) = els"
proof -
  note inv = store_reachable_inv [OF assms(1)]
  let ?t = "snd (lpush k els s)"
  have "live (reading s) ?t k = Some (KeyEntry LIST (VList (rev els)) None)"
    using lpush_op.op_same_key [OF inv order_refl, of k els] assms(2) by (simp add: lpush_spec_def)
  then have "live (reading ?t) ?t k = Some (KeyEntry LIST (VList (rev els)) None)"
    by (rule persistent_view) simp
  from rpops_list [OF lpush_op.op_inv [OF inv] this] have "rpops (length els) k ?t = els" by simp
  moreover have "fst (lpush k els s) = Inr (length els)"
    using lpush_op.op_result [OF inv, of k els] assms(2) by (simp add: lpush_spec_def)
  ultimately show ?thesis by blast
qed

lemma list_is_fifo_witness:
  "rpops 3 ''q'' (snd (lpush ''q'' [''a'', ''b'', ''c''] (new_store 0 ''noeviction'' (\<lambda>i. 7))))
     = [''a'', ''b'', ''c'']"
  using list_is_fifo [OF reach_new, of 0 "''noeviction''" "\<lambda>i. 7" "''q''" "[''a'', ''b'', ''c'']"]
  by (simp add: new_store_def live_def dict_get_def eval_nat_numeral)

text \<open>C28: \<open>HSET\<close> and \<open>HGETALL\<close> implement their abstract dictionary operations on the live view:
  \<open>HSET\<close> stores the pairs in order, later ones overwriting earlier ones, keeps the deadline, and
  returns how many different fields were new; \<open>HGETALL\<close> lists the pairs in insertion order; both
  refuse a key of another type without changing it and leave every other key alone.\<close>

theorem hash_operations_refine:
  assumes "store_inv s" and "reading s \<le> m"
  shows "fst (hset k items s) = fst (hset_spec items (live (reading s) s k))
    \<and> live m (snd (hset k items s)) = (live m s)(k := alive m (snd (hset_spec items (live (reading s) s k))))
    \<and> fst (hgetall k s) = fst (hgetall_spec (live (reading s) s k))
    \<and> live m (snd (hgetall k s)) = (live m s)(k := alive m (snd (hgetall_spec (live (reading s) s k))))"
  using hset_op.op_result [OF assms(1)] hset_op.op_view [OF assms]
    hgetall_op.op_result [OF assms(1)] hgetall_op.op_view [OF assms]
  by blast

theorem hash_operations_refine_witness:
  "fst (hset ''h'' [(''f'', ''1''), (''g'', ''2''), (''f'', ''3'')] (new_store 0 ''noeviction'' (\<lambda>i. 7))) = Inr 2"
  using hash_operations_refine [OF new_store_inv, of 0 "''noeviction''" "\<lambda>i. 7" 7 "''h''"
      "[(''f'', ''1''), (''g'', ''2''), (''f'', ''3'')]"]
  by (simp add: reading_def new_store_def live_def dict_get_def hset_spec_def card_insert_if)

section \<open>Expiry and deletion\<close>

text \<open>\<open>EXPIRE\<close> on a present key: the reply is 1, the entry keeps its value and is visible
  exactly until \<open>seconds\<close> after the clock value it read; a non-positive number of seconds deletes
  the key at once; on an absent or expired key the reply is 0 and nothing changes; other keys
  never change.\<close>

lemma expire_deadline:
  assumes "store_inv s" and "reading s \<le> m"
  shows "fst (expire k secs s) = (if live (reading s) s k = None then 0 else 1)
    \<and> live m (snd (expire k secs s)) =
        (live m s)(k := (case live (reading s) s k of
            None \<Rightarrow> None
          | Some e \<Rightarrow>
              (let deadline = reading (snd (touch k s)) + secs * 1000
               in if secs \<le> 0 \<or> deadline \<le> m then None else Some (e\<lparr>expire_at_ms := Some deadline\<rparr>))))"
  unfolding expire_op(1) [OF assms(1)] expire_op(2) [OF assms]
  by (auto simp: expire_spec_def alive_def is_expired_def Let_def split: option.splits)

lemma expire_deadline_witness:
  "live 8999 (snd (expire ''k'' 2 (set_string ''k'' ''v'' None (new_store 0 ''noeviction'' (\<lambda>i. 7000))))) ''k''
     = Some (KeyEntry STRING (VStr ''v'') (Some 9000))"
  using expire_deadline [OF set_string_inv [OF new_store_inv],
      of "''k''" "''v''" None 0 "''noeviction''" "\<lambda>i. 7000" 8999 "''k''" 2]
  by (simp add: reading_def new_store_def set_string_def touch_def is_expired_now_def live_def alive_def
      is_expired_def dict_get_def dict_set_def put_entry_def touch_access_def KeyEntry_def)

text \<open>What \<open>TTL\<close> replies: -2 for an absent or expired key, -1 for a key without deadline, and
  otherwise the whole seconds left, rounded down. In the last second before the deadline the
  reply is 0 although the key is still there.\<close>

lemma ttl_reply:
  "fst (ttl k s) =
     (case live (reading s) s k of
        None \<Rightarrow> - 2
      | Some e \<Rightarrow>
          (case expire_at_ms e of
             None \<Rightarrow> - 1
           | Some t \<Rightarrow> (let n = clock s (Suc (ticks s)) in if t \<le> n then - 2 else (t - n) div 1000)))"
proof (cases "dict_get (entries s) k")
  case None
  then show ?thesis by (simp add: ttl_def live_def)
next
  case (Some e)
  show ?thesis
  proof (cases "expire_at_ms e")
    case (Some t)
    have pos: "0 < t - n \<Longrightarrow> (0 < (t - n) div 1000 \<or> (t - n) div 1000 = 0)" for n
      by (simp add: pos_imp_zdiv_nonneg_iff less_le)
    show ?thesis
      using \<open>dict_get (entries s) k = Some e\<close> Some pos [of "clock s (Suc (ticks s))"]
      by (auto simp: ttl_def live_def alive_def is_expired_now_eq is_expired_def ttl_seconds_now_def
          ttl_seconds_def now_ms_def reading_def Let_def)
  qed (use Some in \<open>simp add: ttl_def live_def alive_def is_expired_now_eq is_expired_def ttl_seconds_now_def\<close>)
qed

lemma delete_loop_count:
  assumes "store_inv s" and "\<forall>i. clock s i = now"
  shows "fst (delete_loop ks r s) = r + card {k \<in> set ks. live now s k \<noteq> None}"
  using assms
proof (induction ks arbitrary: r s)
  case (Cons k ks)
  let ?rest = "{k' \<in> set ks. live now (drop_key k s) k' \<noteq> None}"
  have fin: "finite ?rest" "finite {k' \<in> set ks. live now s k' \<noteq> None}" by simp_all
  have rd: "reading s = now" using Cons.prems(2) by (simp add: reading_def)
  have drop: "fst (delete_loop ks r' (drop_key k s1)) = r' + card ?rest"
    if "s1 = s \<or> s1 = s\<lparr>ticks := Suc (ticks s)\<rparr>" for r' s1
    using that Cons.IH [of "drop_key k s1" r'] Cons.prems by (auto simp: inv_drop_key fun_upd_def)
  show ?case
  proof (cases "dict_get (entries s) k")
    case None
    then have "{k' \<in> set (k # ks). live now s k' \<noteq> None} = {k' \<in> set ks. live now s k' \<noteq> None}"
      by (auto simp: live_def)
    then show ?thesis using None Cons by simp
  next
    case (Some e)
    have "{k' \<in> set (k # ks). live now s k' \<noteq> None} =
        (if live now s k = None then ?rest else insert k ?rest)"
      by auto
    moreover have "live now s k = None \<longleftrightarrow> is_expired (expire_at_ms e) now"
      by (simp add: live_def alive_def Some)
    ultimately show ?thesis
      using Some rd fin by (simp add: is_expired_now_eq drop)
  qed
qed simp

text \<open>\<open>DEL\<close> removes exactly the named keys, whatever the clock does; and with the clock
  standing still during the call the reply counts each live named key once, however often it is
  named, and no expired one.\<close>

lemma delete_removes_and_counts:
  assumes "store_inv s" and "\<forall>i. clock s i = now"
  shows "live m (snd (delete ks s)) = (\<lambda>k. if k \<in> set ks then None else live m s k)
    \<and> fst (delete ks s) = card {k \<in> set ks. live now s k \<noteq> None}"
  using delete_loop_count [OF assms, of ks 0] by (simp add: delete_loop_view delete_def)

lemma delete_removes_and_counts_witness:
  "fst (delete [''k'', ''x'', ''k''] (set_string ''k'' ''v'' None (new_store 0 ''noeviction'' (\<lambda>i. 7)))) = 1"
  using delete_removes_and_counts [OF set_string_inv [OF new_store_inv],
      of "''k''" "''v''" None 0 "''noeviction''" "\<lambda>i. 7" 7 7 "[''k'', ''x'', ''k'']"]
  by (simp add: new_store_def set_string_def live_def dict_get_def dict_set_def put_entry_def
      touch_access_def KeyEntry_def alive_def is_expired_def)

lemma expire_sampled_view:
  "now \<le> m \<Longrightarrow> live m (snd (expire_sampled now ks s d)) = live m s"
proof (induction ks arbitrary: s d)
  case (Cons k ks)
  have "(live m s)(k := None) = live m s"
    if "dict_get (entries s) k = Some e" "is_expired (expire_at_ms e) now" for e
    using that Cons.prems by (auto simp: live_def alive_def is_expired_def fun_eq_iff split: option.splits)
  with Cons show ?case by (auto split: option.splits)
qed simp

text \<open>The active expiry cycle is invisible to clients: whatever keys \<open>random.sample\<close> picks, no
  key that is live at the time the cycle reads or later is lost or changed.\<close>

lemma active_expiry_invisible:
  assumes "reading s \<le> m"
  shows "live m (snd (active_expire_cycle sample_size sample s)) = live m s"
  using expire_sampled_view [OF assms] by (simp add: active_expire_cycle_def now_ms_def Let_def)

lemma active_expiry_invisible_witness:
  "live 9 (snd (active_expire_cycle 0 [''k''] (set_string ''k'' ''v'' None (new_store 0 ''noeviction'' (\<lambda>i. 7)))))
     = live 9 (set_string ''k'' ''v'' None (new_store 0 ''noeviction'' (\<lambda>i. 7)))"
  using active_expiry_invisible
    [of "set_string ''k'' ''v'' None (new_store 0 ''noeviction'' (\<lambda>i. 7))" 9 0 "[''k'']"]
  by (simp add: reading_def new_store_def set_string_def put_entry_def touch_access_def)

section \<open>Snapshots\<close>

text \<open>A snapshot loaded into any store reproduces every key that is still live, with value and
  deadline, and taking it loses no live key of the original; the restored store satisfies the
  invariant.\<close>

lemma snapshot_restores:
  assumes "store_inv s" and "reading s \<le> m"
  shows "live m (load_entries (fst (snapshot s)) t) = live m s
    \<and> live m (snd (snapshot s)) = live m s
    \<and> store_inv (load_entries (fst (snapshot s)) t)"
  using snap.restore_view [OF assms] snap.snap_view [OF assms] snap.restore_inv [OF assms(1)] by blast

lemma snapshot_restores_witness:
  "live 8 (load_entries (fst (snapshot (set_string ''k'' ''v'' None (new_store 0 ''noeviction'' (\<lambda>i. 7)))))
      (new_store 9 ''allkeys-lru'' (\<lambda>i. 0))) ''k'' = Some (KeyEntry STRING (VStr ''v'') None)"
  using snapshot_restores [OF set_string_inv [OF new_store_inv],
      of "''k''" "''v''" None 0 "''noeviction''" "\<lambda>i. 7" 8 "new_store 9 ''allkeys-lru'' (\<lambda>i. 0)"]
  by (simp add: set_string_view set_spec_def) (simp add: reading_def new_store_def set_string_def
      put_entry_def touch_access_def)

section \<open>The memory limit\<close>

text \<open>C13: Under \<open>allkeys-lru\<close> enforcing a positive limit always succeeds and ends: afterwards the
  accounted memory fits the limit, every evicted key was used strictly less recently than every
  surviving one, the survivors are unchanged, and the eviction counter grew by the number of
  evicted keys.\<close>

theorem lru_eviction:
  assumes "store_inv s" and "maxmemory_policy s = ''allkeys-lru''" and "0 < maxmemory_bytes s"
  shows "\<exists>vs s'. enforce_memory_limit s = (Inr vs, s')
    \<and> int (used_memory s') \<le> maxmemory_bytes s
    \<and> evicted_keys s' = evicted_keys s + length vs
    \<and> (\<forall>k\<in>key_set s'. k \<in> key_set s \<and> dict_get (entries s') k = dict_get (entries s) k)
    \<and> (\<forall>v\<in>set vs. \<forall>k\<in>key_set s'. access_stamp s v < access_stamp s k)"
proof -
  from evict_loop_lru [OF assms, of "[]"] obtain vs s' where
    res: "evict_loop [] s = (Inr vs, s')" and sub: "key_set s' \<subseteq> key_set s"
    and cnt: "evicted_keys s' = evicted_keys s + length vs"
    and same: "\<forall>k\<in>key_set s'. dict_get (entries s') k = dict_get (entries s) k"
    and lru: "\<forall>v\<in>set vs. \<forall>k\<in>key_set s'. access_stamp s v < access_stamp s k"
    by (auto simp: lru_outcome_def)
  have "int (used_memory s') \<le> maxmemory_bytes s"
    using evict_loop_fits [OF assms(1), of "[]" vs] res by simp
  with res sub cnt same lru show ?thesis using assms(3) by (auto simp: enforce_memory_limit_def)
qed

theorem lru_eviction_witness:
  "\<exists>vs s'. enforce_memory_limit (set_string ''b'' ''2'' None (set_string ''a'' ''1'' None
      (new_store 70 ''allkeys-lru'' (\<lambda>i. 7)))) = (Inr vs, s') \<and> int (used_memory s') \<le> 70"
  using lru_eviction [OF set_string_inv [OF set_string_inv [OF new_store_inv]],
      of "''b''" "''2''" None "''a''" "''1''" None 70 "''allkeys-lru''" "\<lambda>i. 7"]
  by (auto simp: new_store_def set_string_def put_entry_def touch_access_def)

text \<open>Under \<open>noeviction\<close> (any policy other than the two evicting ones) enforcing the limit
  never removes a live key and never counts an eviction: it succeeds with nothing evicted exactly
  when the unexpired keys fit, and raises the memory-limit error otherwise.\<close>

lemma noeviction_keeps_all:
  assumes "store_inv s" and "0 < maxmemory_bytes s" and "reading s \<le> m"
    and "maxmemory_policy s \<noteq> ''volatile-ttl''" and "maxmemory_policy s \<noteq> ''allkeys-lru''"
  shows "fst (enforce_memory_limit s) =
      (if int (used_memory (purge_expired s)) \<le> maxmemory_bytes s then Inr [] else Inl MemoryLimitError)
    \<and> live m (snd (enforce_memory_limit s)) = live m s
    \<and> evicted_keys (snd (enforce_memory_limit s)) = evicted_keys s"
proof -
  have "choose_victim (purge_expired s) = Inl MemoryLimitError"
    using assms(4,5) by (intro noeviction_victim) simp_all
  then have "enforce_memory_limit s =
      (if int (used_memory (purge_expired s)) \<le> maxmemory_bytes s then Inr [] else Inl MemoryLimitError,
       purge_expired s)"
    using assms(2) by (simp add: enforce_memory_limit_def evict_loop_unfold [OF assms(1)] Let_def)
  then show ?thesis using purge_view [OF assms(1,3)] by simp
qed

lemma noeviction_keeps_all_witness:
  "live 7 (snd (enforce_memory_limit (set_string ''a'' ''1'' None (new_store 10 ''noeviction'' (\<lambda>i. 7)))))
     = live 7 (set_string ''a'' ''1'' None (new_store 10 ''noeviction'' (\<lambda>i. 7)))"
  using noeviction_keeps_all [OF set_string_inv [OF new_store_inv],
      of "''a''" "''1''" None 10 "''noeviction''" "\<lambda>i. 7" 7]
  by (auto simp: reading_def new_store_def set_string_def put_entry_def touch_access_def)

lemma volatile_loop_spares:
  assumes "store_inv s" and "maxmemory_policy s = ''volatile-ttl''"
    and "dict_get (entries s) k = Some e" and "expire_at_ms e = None"
  shows "dict_get (entries (snd (evict_loop ev s))) k = Some e"
proof -
  have purged: "dict_get (entries (purge_expired s)) k = Some e"
    if "store_inv s" "dict_get (entries s) k = Some e" for s
    using that assms(4) by (simp add: purge_entries get_unexpired store_invD(1) alive_def is_expired_def)
  let ?P = "\<lambda>ev s r. maxmemory_policy s = ''volatile-ttl'' \<longrightarrow> dict_get (entries s) k = Some e \<longrightarrow>
      dict_get (entries (snd r)) k = Some e"
  have "?P ev s (evict_loop ev s)"
    using assms(1)
  proof (rule evict_loop_induct [where P = ?P])
    fix ev s key and r :: "bytes list res \<times> store"
    assume inv: "store_inv s" and v: "choose_victim (purge_expired s) = Inr key"
      and IH: "?P (ev @ [key]) (evict_key key (purge_expired s)) r"
    show "?P ev s r"
    proof (intro impI)
      assume pol: "maxmemory_policy s = ''volatile-ttl''" and k: "dict_get (entries s) k = Some e"
      have "k \<noteq> key"
        using volatile_victim [OF _ v] pol purged [OF inv k] assms(4)
          store_invD(1) [OF purge_inv [OF inv]]
        by auto
      then show "dict_get (entries (snd r)) k = Some e"
        using IH pol purged [OF inv k] by (simp add: dict_simps)
    qed
  qed (simp_all add: purged)
  then show ?thesis using assms(2,3) by blast
qed

text \<open>Under \<open>volatile-ttl\<close> a key without a deadline is never evicted, whether the limit can be
  met or the memory-limit error is raised.\<close>

lemma volatile_spares_persistent:
  assumes "store_inv s" and "maxmemory_policy s = ''volatile-ttl''"
    and "dict_get (entries s) k = Some e" and "expire_at_ms e = None"
  shows "dict_get (entries (snd (enforce_memory_limit s))) k = Some e"
  using volatile_loop_spares [OF assms, of "[]"] assms(3) by (simp add: enforce_memory_limit_def)

lemma volatile_spares_persistent_witness:
  "dict_get (entries (snd (enforce_memory_limit (set_string ''a'' ''1'' None
      (new_store 10 ''volatile-ttl'' (\<lambda>i. 7)))))) ''a'' = Some (KeyEntry STRING (VStr ''1'') None)"
  by (rule volatile_spares_persistent [OF set_string_inv [OF new_store_inv]])
    (simp_all add: new_store_def set_string_def put_entry_def touch_access_def dict_get_def dict_set_def)

end
