(* ===== verification/Resp_Encoder.thy ===== *)
theory Resp_Encoder
  imports PyLib
begin

text \<open>
  The RESP2 encoders of \<open>byo_redis/protocol/encoder.py\<close>, and the Python objects that travel
  between the parser, the command handlers and the encoders.
\<close>

section \<open>Objects\<close>

text \<open>
  The values handlers return and the parser produces. \<open>PSimple\<close> is \<open>_Simple\<close> of
  \<open>connection_cmds.py\<close> (an object with \<open>to_resp\<close>), \<open>PErrorMsg\<close> is \<open>ProtocolErrorMsg\<close> of the
  parser (no \<open>to_resp\<close>, no \<open>resp\<close>), \<open>PNoReply\<close> is the server's \<open>_NO_CLIENT_REPLY\<close> sentinel.
\<close>

datatype pyobj =
    PNone
  | PBool bool
  | PInt int
  | PBytes bytes
  | PStr pystr
  | PList "pyobj list"
  | PSimple pystr
  | PErrorMsg pystr
  | PNoReply

text \<open>An argument of type \<open>str | bytes\<close>.\<close>

datatype text_arg = AStr pystr | ABytes bytes

definition as_bytes :: "text_arg \<Rightarrow> bytes res" where
  "as_bytes v = (case v of AStr s \<Rightarrow> utf8_encode s | ABytes b \<Rightarrow> Inr b)"

section \<open>Encoders\<close>

definition encode_simple_string :: "text_arg \<Rightarrow> bytes res" where
  "encode_simple_string v =
     bind_res (as_bytes v) (\<lambda>b.
       if cr \<in> set b \<or> lf \<in> set b then Inl ValueError
       else Inr (''+'' @ b @ crlf))"

definition replace_byte :: "char \<Rightarrow> char \<Rightarrow> bytes \<Rightarrow> bytes" where
  "replace_byte a b = map (\<lambda>c. if c = a then b else c)"

definition encode_error :: "text_arg \<Rightarrow> bytes res" where
  "encode_error v =
     bind_res (as_bytes v) (\<lambda>b.
       Inr (''-'' @ replace_byte lf (CHR '' '') (replace_byte cr (CHR '' '') b) @ crlf))"

definition encode_integer :: "int \<Rightarrow> bytes res" where
  "encode_integer i = bind_res (py_format_int i) (\<lambda>ds. Inr ('':'' @ ds @ crlf))"

definition encode_null_bulk :: bytes where
  "encode_null_bulk = ''$-1'' @ crlf"

definition bulk_of :: "bytes \<Rightarrow> bytes" where
  "bulk_of b = ''$'' @ dec_nat (length b) @ crlf @ b @ crlf"

definition encode_bulk_string :: "text_arg option \<Rightarrow> bytes res" where
  "encode_bulk_string v =
     (case v of None \<Rightarrow> Inr encode_null_bulk | Some a \<Rightarrow> bind_res (as_bytes a) (\<lambda>b. Inr (bulk_of b)))"

definition array_header :: "nat \<Rightarrow> bytes" where
  "array_header n = ''*'' @ dec_nat n @ crlf"

function encode_value :: "pyobj \<Rightarrow> bytes res"
  and encode_array :: "pyobj list option \<Rightarrow> bytes res" where
  "encode_value v =
     (case v of
        PNone \<Rightarrow> Inr encode_null_bulk
      | PBool b \<Rightarrow> encode_integer (if b then 1 else 0)
      | PInt i \<Rightarrow> encode_integer i
      | PBytes b \<Rightarrow> encode_bulk_string (Some (ABytes b))
      | PStr s \<Rightarrow> encode_bulk_string (Some (AStr s))
      | PList xs \<Rightarrow> encode_array (Some xs)
      | PSimple s \<Rightarrow> encode_simple_string (AStr s)
      | PErrorMsg m \<Rightarrow> Inl TypeError
      | PNoReply \<Rightarrow> Inl TypeError)"
| "encode_array items =
     (case items of
        None \<Rightarrow> Inr (''*-1'' @ crlf)
      | Some xs \<Rightarrow>
          bind_res (map_res encode_value xs) (\<lambda>parts. Inr (array_header (length xs) @ concat parts)))"
  by pat_completeness auto
termination
  by (relation "measure (\<lambda>x. case x of Inl v \<Rightarrow> 2 * size v
        | Inr None \<Rightarrow> 0 | Inr (Some xs) \<Rightarrow> Suc (2 * size_list size xs))")
     (auto simp: size_list_estimation' dest!: split_list)

declare encode_value.simps [simp del] encode_array.simps [simp del]

text \<open>\<open>encode_command(argv)\<close>: a RESP array of bulk strings.\<close>

definition encode_command :: "bytes list \<Rightarrow> bytes" where
  "encode_command argv = array_header (length argv) @ concat (map bulk_of argv)"

section \<open>What the encoders produce\<close>

lemma encode_value_simps [enc_simps]:
  "encode_value PNone = Inr encode_null_bulk"
  "encode_value (PBool t) = encode_integer (if t then 1 else 0)"
  "encode_value (PInt i) = encode_integer i"
  "encode_value (PBytes b) = Inr (bulk_of b)"
  "encode_value (PStr s) = bind_res (utf8_encode s) (\<lambda>b. Inr (bulk_of b))"
  "encode_value (PList xs) =
     bind_res (map_res encode_value xs) (\<lambda>parts. Inr (array_header (length xs) @ concat parts))"
  "encode_value (PSimple s) = encode_simple_string (AStr s)"
  "encode_value (PErrorMsg m) = Inl TypeError"
  "encode_value PNoReply = Inl TypeError"
  by (simp_all add: encode_value.simps encode_array.simps encode_bulk_string_def as_bytes_def)

lemma encode_array_Some: "encode_array (Some xs) = encode_value (PList xs)"
  by (simp add: encode_value_simps encode_array.simps)

lemma encode_command_value:
  "encode_value (PList (map PBytes argv)) = Inr (encode_command argv)"
proof -
  have "map_res encode_value (map PBytes argv) = Inr (map bulk_of argv)"
    by (induction argv) (simp_all add: enc_simps)
  then show ?thesis by (simp add: enc_simps encode_command_def)
qed

lemma replace_byte_set: "a \<noteq> b \<Longrightarrow> a \<notin> set (replace_byte a b xs)"
  by (auto simp: replace_byte_def)

lemma replace_byte_other: "c \<notin> set xs \<Longrightarrow> c \<noteq> b \<Longrightarrow> c \<notin> set (replace_byte a b xs)"
  by (auto simp: replace_byte_def)

text \<open>An error reply is exactly one line, whatever text the error carries.\<close>

lemma encode_error_single_line:
  assumes "encode_error v = Inr b"
  shows "\<exists>line. b = CHR ''-'' # line @ crlf \<and> cr \<notin> set line \<and> lf \<notin> set line"
proof -
  have neq: "cr \<noteq> CHR '' ''" "lf \<noteq> CHR '' ''" by (simp_all add: cr_def lf_def)
  from assms obtain m where
    "b = CHR ''-'' # replace_byte lf (CHR '' '') (replace_byte cr (CHR '' '') m) @ crlf"
    by (auto simp: encode_error_def bind_res_Inr_iff)
  moreover have "cr \<notin> set (replace_byte lf (CHR '' '') (replace_byte cr (CHR '' '') m))"
    using neq by (intro replace_byte_other replace_byte_set)
  moreover have "lf \<notin> set (replace_byte lf (CHR '' '') (replace_byte cr (CHR '' '') m))"
    using neq by (intro replace_byte_set)
  ultimately show ?thesis by blast
qed

end
