(* ===== verification/Resp_Parser.thy ===== *)
theory Resp_Parser
  imports Resp_Encoder
begin

text \<open>
  The incremental RESP2 parser of \<open>byo_redis/protocol/parser.py\<close>. The buffer is indexed by
  absolute positions as in the source; a result \<open>(v, 0)\<close> means "incomplete, wait for more bytes".

  The locale \<open>stream_parser\<close> states what a feed loop needs of the one-frame parser (a verdict,
  value or error, never changes when more bytes arrive) and derives that the loop is insensitive
  to how the stream is cut into packets; it is interpreted on \<open>try_parse\<close> and \<open>feed_loop\<close>.
\<close>

section \<open>The parser\<close>

record resp_parser =
  buf :: bytes
  max_bulk_len :: int
  max_buffer_bytes :: int
  max_array_len :: int
  max_array_depth :: int

definition RespParser :: "int \<Rightarrow> int \<Rightarrow> int \<Rightarrow> int \<Rightarrow> resp_parser" where
  "RespParser bulk bufmax arr depth =
     \<lparr>buf = [], max_bulk_len = bulk, max_buffer_bytes = bufmax,
      max_array_len = arr, max_array_depth = depth\<rparr>"

definition default_parser :: resp_parser where
  "default_parser = RespParser 16777216 32000000 1024 64"

definition parser_reset :: "resp_parser \<Rightarrow> resp_parser" where
  "parser_reset p = p\<lparr>buf := []\<rparr>"

definition buffered_size :: "resp_parser \<Rightarrow> nat" where
  "buffered_size p = length (buf p)"

definition read_line :: "resp_parser \<Rightarrow> nat \<Rightarrow> bytes \<times> nat" where
  "read_line p start =
     (case find_crlf (buf p) start of
        None \<Rightarrow> ([], 0)
      | Some idx \<Rightarrow> (take (idx - start) (drop start (buf p)), idx + 2))"

definition parse_line_value :: "resp_parser \<Rightarrow> nat \<Rightarrow> (pyobj \<times> nat) res" where
  "parse_line_value p start =
     (let (line, end) = read_line p (start + 1)
      in if end = 0 then Inr (PNone, 0) else Inr (PStr (utf8_decode_replace line), end))"

definition parse_error_line :: "resp_parser \<Rightarrow> nat \<Rightarrow> (pyobj \<times> nat) res" where
  "parse_error_line p start =
     (let (line, end) = read_line p (start + 1)
      in if end = 0 then Inr (PNone, 0) else Inr (PErrorMsg (utf8_decode_replace line), end))"

definition parse_int_line :: "resp_parser \<Rightarrow> nat \<Rightarrow> (pyobj \<times> nat) res" where
  "parse_int_line p start =
     (let (line, end) = read_line p (start + 1)
      in if end = 0 then Inr (PNone, 0)
         else (case py_int line of
                 None \<Rightarrow> Inl (ProtocolError (InvalidInteger line))
               | Some i \<Rightarrow> Inr (PInt i, end)))"

definition parse_bulk :: "resp_parser \<Rightarrow> nat \<Rightarrow> (pyobj \<times> nat) res" where
  "parse_bulk p start =
     (let (line, hdr_end) = read_line p (start + 1)
      in if hdr_end = 0 then Inr (PNone, 0)
         else (case py_int line of
                 None \<Rightarrow> Inl (ProtocolError (InvalidBulkLength line))
               | Some len \<Rightarrow>
                   if len = - 1 then Inr (PNone, hdr_end)
                   else if len < - 1 then Inl (ProtocolError (NegativeBulkLength len))
                   else if len > max_bulk_len p then Inl (ProtocolError (BulkTooLong len))
                   else
                     (let n = nat len; total_needed = hdr_end + n + 2
                      in if length (buf p) < total_needed then Inr (PNone, 0)
                         else if take 2 (drop (hdr_end + n) (buf p)) \<noteq> crlf
                           then Inl (ProtocolError MissingTrailer)
                         else Inr (PBytes (take n (drop hdr_end (buf p))), total_needed))))"

text \<open>The \<open>for\<close> loop of \<open>_parse_array\<close>; \<open>rec\<close> is the recursive call at a cursor.\<close>

fun parse_items :: "(nat \<Rightarrow> (pyobj \<times> nat) res) \<Rightarrow> nat \<Rightarrow> nat \<Rightarrow> pyobj list \<Rightarrow> (pyobj \<times> nat) res" where
  "parse_items rec 0 cursor items = Inr (PList items, cursor)"
| "parse_items rec (Suc n) cursor items =
     bind_res (rec cursor) (\<lambda>(item, end).
       if end = 0 then Inr (PNone, 0) else parse_items rec n end (items @ [item]))"

definition parse_array ::
  "resp_parser \<Rightarrow> (nat \<Rightarrow> nat \<Rightarrow> (pyobj \<times> nat) res) \<Rightarrow> nat \<Rightarrow> nat \<Rightarrow> (pyobj \<times> nat) res" where
  "parse_array p rec start depth =
     (if int depth \<ge> max_array_depth p then Inl (ProtocolError (ArrayTooDeep (max_array_depth p)))
      else
        (let (line, hdr_end) = read_line p (start + 1)
         in if hdr_end = 0 then Inr (PNone, 0)
            else (case py_int line of
                    None \<Rightarrow> Inl (ProtocolError (InvalidArrayLength line))
                  | Some count \<Rightarrow>
                      if count = - 1 then Inr (PNone, hdr_end)
                      else if count < - 1 then Inl (ProtocolError (NegativeArrayLength count))
                      else if count > max_array_len p then Inl (ProtocolError (ArrayTooLong count))
                      else parse_items (\<lambda>c. rec c (Suc depth)) (nat count) hdr_end [])))"

lemma parse_array_cong [fundef_cong]:
  assumes "p = p'" and "start = start'" and "depth = depth'"
    and "\<And>c. int depth' < max_array_depth p' \<Longrightarrow> rec c (Suc depth') = rec' c (Suc depth')"
  shows "parse_array p rec start depth = parse_array p' rec' start' depth'"
proof (cases "int depth' < max_array_depth p'")
  case True
  with assms(4) have eq: "(\<lambda>c. rec c (Suc depth')) = (\<lambda>c. rec' c (Suc depth'))" by auto
  show ?thesis unfolding parse_array_def assms(1-3) by (simp only: eq)
qed (simp add: assms(1-3) parse_array_def)

function try_parse :: "resp_parser \<Rightarrow> nat \<Rightarrow> nat \<Rightarrow> (pyobj \<times> nat) res" where
  "try_parse p start depth =
     (if start \<ge> length (buf p) then Inr (PNone, 0)
      else
        (let prefix = buf p ! start
         in if prefix = CHR ''+'' then parse_line_value p start
            else if prefix = CHR ''-'' then parse_error_line p start
            else if prefix = CHR '':'' then parse_int_line p start
            else if prefix = CHR ''$'' then parse_bulk p start
            else if prefix = CHR ''*'' then parse_array p (\<lambda>c d. try_parse p c d) start depth
            else Inl (ProtocolError (InvalidPrefix prefix))))"
  by pat_completeness auto
termination
  by (relation "measure (\<lambda>(p, start, depth). nat (max_array_depth p - int depth))") auto

declare try_parse.simps [simp del]

text \<open>The \<open>while True\<close> loop of \<open>feed\<close>: bytes of parsed frames are deleted as it goes.\<close>

function feed_loop :: "resp_parser \<Rightarrow> pyobj list \<Rightarrow> pyobj list res \<times> resp_parser" where
  "feed_loop p messages =
     (case try_parse p 0 0 of
        Inl e \<Rightarrow> (Inl e, p)
      | Inr (v, consumed) \<Rightarrow>
          (if consumed = 0 then (Inr messages, p)
           else feed_loop (p\<lparr>buf := drop consumed (buf p)\<rparr>) (messages @ [v])))"
  by pat_completeness auto
termination
proof (relation "measure (\<lambda>(p, messages). length (buf p))", goal_cases)
  case (2 p messages y v consumed)
  then have "buf p \<noteq> []" by (auto simp: try_parse.simps)
  with 2 show ?case by simp
qed simp

declare feed_loop.simps [simp del]

definition feed :: "resp_parser \<Rightarrow> bytes \<Rightarrow> pyobj list res \<times> resp_parser" where
  "feed p data =
     (if data \<noteq> [] then
        (if int (length (buf p) + length data) > max_buffer_bytes p
         then (Inl (ProtocolError (BufferLimit (max_buffer_bytes p))), p)
         else feed_loop (p\<lparr>buf := buf p @ data\<rparr>) [])
      else if int (length (buf p)) > max_buffer_bytes p
        then (Inl (ProtocolError (BufferLimit (max_buffer_bytes p))), p)
      else feed_loop p [])"

section \<open>Position bounds\<close>

lemma read_line_bounds:
  "read_line p start = (line, end) \<Longrightarrow> end = 0 \<or> start + 2 \<le> end \<and> end \<le> length (buf p)"
  by (auto simp: read_line_def split: option.splits dest!: find_crlf_bounds)

definition in_bounds :: "resp_parser \<Rightarrow> nat \<Rightarrow> (pyobj \<times> nat) res \<Rightarrow> bool" where
  "in_bounds p start r \<longleftrightarrow>
     (case r of Inl e \<Rightarrow> True | Inr (v, n) \<Rightarrow> n = 0 \<or> start < n \<and> n \<le> length (buf p))"

lemma parse_leaf_bounds:
  "in_bounds p start (parse_line_value p start)" (is ?line)
  "in_bounds p start (parse_error_line p start)" (is ?err)
  "in_bounds p start (parse_int_line p start)" (is ?int)
  "in_bounds p start (parse_bulk p start)" (is ?bulk)
proof -
  obtain line hdr where rl: "read_line p (Suc start) = (line, hdr)"
    by (cases "read_line p (Suc start)")
  note b = read_line_bounds [OF rl]
  show ?line ?err ?int ?bulk using b
    by (auto simp: in_bounds_def rl parse_line_value_def parse_error_line_def parse_int_line_def
        parse_bulk_def Let_def split: option.splits)
qed

lemma parse_items_bounds:
  assumes rec: "\<And>c. in_bounds p c (rec c)" and cur: "start < cur" "cur \<le> length (buf p)"
  shows "in_bounds p start (parse_items rec n cur items)"
  using cur
proof (induction n arbitrary: cur items)
  case 0
  then show ?case by (simp add: in_bounds_def)
next
  case (Suc n)
  show ?case
  proof (cases "rec cur")
    case (Inr y)
    obtain v e where y: "y = (v, e)" by (cases y)
    from rec [of cur] Inr y have "e = 0 \<or> cur < e \<and> e \<le> length (buf p)"
      by (simp add: in_bounds_def)
    with Inr y Suc show ?thesis by (auto simp: in_bounds_def)
  qed (simp add: in_bounds_def)
qed

lemma try_parse_bounds: "in_bounds p start (try_parse p start depth)"
proof (induction p start depth rule: try_parse.induct)
  case (1 p start depth)
  obtain line hdr where rl: "read_line p (Suc start) = (line, hdr)"
    by (cases "read_line p (Suc start)")
  note b = read_line_bounds [OF rl]
  have arr: "in_bounds p start (parse_array p (\<lambda>c d. try_parse p c d) start depth)"
    if pre: "\<not> start \<ge> length (buf p)" "buf p ! start = CHR ''*''"
  proof (cases "int depth < max_array_depth p")
    case True
    have "in_bounds p c (try_parse p c (Suc depth))" for c
      using 1 [OF pre(1) refl] pre(2) True by simp
    with True b show ?thesis
      by (auto simp: parse_array_def rl Let_def in_bounds_def [of _ _ "Inr _"]
          in_bounds_def [of _ _ "Inl _"] intro!: parse_items_bounds split: option.splits)
  qed (simp add: parse_array_def in_bounds_def)
  show ?case
  proof (cases "start \<ge> length (buf p)")
    case False
    then show ?thesis
      by (subst try_parse.simps) (simp add: Let_def parse_leaf_bounds arr in_bounds_def [of _ _ "Inl _"])
  qed (simp add: try_parse.simps in_bounds_def)
qed


section \<open>Verdicts are stable under more input\<close>

text \<open>
  \<open>settled r r'\<close>: either \<open>r\<close> was "incomplete", or \<open>r'\<close>, computed with more bytes, is the same.
\<close>

definition settled :: "(pyobj \<times> nat) res \<Rightarrow> (pyobj \<times> nat) res \<Rightarrow> bool" where
  "settled r r' \<longleftrightarrow> (\<exists>v. r = Inr (v, 0)) \<or> r' = r"

abbreviation extend :: "resp_parser \<Rightarrow> bytes \<Rightarrow> resp_parser" where
  "extend p extra \<equiv> p\<lparr>buf := buf p @ extra\<rparr>"

lemma settled_refl [simp]: "settled r r"
  by (simp add: settled_def)

lemma settled_incomplete [simp]: "settled (Inr (v, 0)) r"
  by (simp add: settled_def)

lemma read_line_extend:
  "read_line p start = (line, end) \<Longrightarrow> end \<noteq> 0 \<Longrightarrow> read_line (extend p extra) start = (line, end)"
  by (auto simp: read_line_def find_crlf_append split: option.splits dest!: find_crlf_bounds)

lemma settled_leaf:
  "settled (parse_line_value p start) (parse_line_value (extend p extra) start)" (is ?line)
  "settled (parse_error_line p start) (parse_error_line (extend p extra) start)" (is ?err)
  "settled (parse_int_line p start) (parse_int_line (extend p extra) start)" (is ?int)
  "settled (parse_bulk p start) (parse_bulk (extend p extra) start)" (is ?bulk)
proof -
  obtain line hdr where rl: "read_line p (Suc start) = (line, hdr)"
    by (cases "read_line p (Suc start)")
  note ext = read_line_extend [OF rl, of extra]
  show ?line ?err ?int
    using ext by (cases "hdr = 0";
        simp add: rl parse_line_value_def parse_error_line_def parse_int_line_def Let_def)+
  show ?bulk
  proof (cases "hdr = 0")
    case False
    with ext show ?thesis
      by (auto simp: rl parse_bulk_def Let_def split: option.splits)
  qed (simp add: rl parse_bulk_def Let_def)
qed

lemma settled_items:
  assumes "\<And>c. settled (rec c) (rec' c)"
  shows "settled (parse_items rec n cur items) (parse_items rec' n cur items)"
proof (induction n arbitrary: cur items)
  case (Suc n)
  from assms [of cur] consider v where "rec cur = Inr (v, 0)" | "rec' cur = rec cur"
    by (auto simp: settled_def)
  then show ?case
  proof cases
    case 2
    with Suc show ?thesis by (cases "rec cur") (auto split: prod.splits)
  qed simp
qed simp

lemma settled_array:
  assumes "\<And>c. int depth < max_array_depth p \<Longrightarrow> settled (rec c (Suc depth)) (rec' c (Suc depth))"
  shows "settled (parse_array p rec start depth) (parse_array (extend p extra) rec' start depth)"
proof (cases "int depth < max_array_depth p")
  case True
  obtain line hdr where rl: "read_line p (Suc start) = (line, hdr)"
    by (cases "read_line p (Suc start)")
  note ext = read_line_extend [OF rl, of extra]
  show ?thesis
  proof (cases "hdr = 0")
    case False
    with ext True assms show ?thesis
      by (auto simp: rl parse_array_def Let_def intro!: settled_items split: option.splits)
  qed (simp add: rl parse_array_def True)
qed (simp add: parse_array_def)

lemma try_parse_extend: "settled (try_parse p start depth) (try_parse (extend p extra) start depth)"
proof (induction p start depth rule: try_parse.induct)
  case (1 p start depth)
  show ?case
  proof (cases "start \<ge> length (buf p)")
    case False
    have arr: "settled (parse_array p (\<lambda>c d. try_parse p c d) start depth)
        (parse_array (extend p extra) (\<lambda>c d. try_parse (extend p extra) c d) start depth)"
      if "buf p ! start = CHR ''*''"
      using 1 [OF False refl] that by (intro settled_array) simp
    from False show ?thesis
      by (subst (1 2) try_parse.simps) (simp add: Let_def nth_append settled_leaf arr)
  qed (simp add: try_parse.simps)
qed

section \<open>Cutting the stream into packets\<close>

locale stream_parser =
  fixes parse :: "bytes \<Rightarrow> ('v \<times> nat) res"
    and drain :: "bytes \<Rightarrow> 'v list \<Rightarrow> 'v list res \<times> bytes"
  assumes parse_bound: "parse b = Inr (v, n) \<Longrightarrow> n \<le> length b"
    and parse_value_stable: "parse b = Inr (v, n) \<Longrightarrow> 0 < n \<Longrightarrow> parse (b @ c) = Inr (v, n)"
    and parse_error_stable: "parse b = Inl e \<Longrightarrow> parse (b @ c) = Inl e"
    and drain_unfold:
      "drain b ms =
         (case parse b of
            Inl e \<Rightarrow> (Inl e, b)
          | Inr (v, n) \<Rightarrow> if n = 0 then (Inr ms, b) else drain (drop n b) (ms @ [v]))"
begin

lemma drain_append_ok:
  "drain b ms = (Inr ms', b') \<Longrightarrow> drain (b @ c) ms = drain (b' @ c) ms'"
proof (induction "length b" arbitrary: b ms rule: less_induct)
  case less
  show ?case
  proof (cases "parse b")
    case (Inl e)
    with less.prems show ?thesis by (simp add: drain_unfold [of b])
  next
    case (Inr y)
    obtain v n where y: "y = (v, n)" by (cases y)
    show ?thesis
    proof (cases "n = 0")
      case True
      with less.prems Inr y show ?thesis by (simp add: drain_unfold [of b])
    next
      case False
      with Inr y have le: "n \<le> length b" by (auto dest: parse_bound)
      from False le have lt: "length (drop n b) < length b" by simp
      from less.prems Inr y False have "drain (drop n b) (ms @ [v]) = (Inr ms', b')"
        by (simp add: drain_unfold [of b])
      from less.hyps [OF lt this] parse_value_stable [of b v n c] Inr y False le show ?thesis
        by (simp add: drain_unfold [of "b @ c"])
    qed
  qed
qed

lemma drain_append_error:
  "drain b ms = (Inl e, b') \<Longrightarrow> drain (b @ c) ms = (Inl e, b' @ c)"
proof (induction "length b" arbitrary: b ms rule: less_induct)
  case less
  show ?case
  proof (cases "parse b")
    case (Inl e')
    with less.prems parse_error_stable [OF Inl, of c] show ?thesis
      by (auto simp: drain_unfold [of b] drain_unfold [of "b @ c"] drain_unfold [of "b' @ c"])
  next
    case (Inr y)
    obtain v n where y: "y = (v, n)" by (cases y)
    from less.prems Inr y have n: "n \<noteq> 0"
      by (auto simp: drain_unfold [of b] split: if_splits)
    with Inr y have le: "n \<le> length b" by (auto dest: parse_bound)
    from n le have lt: "length (drop n b) < length b" by simp
    from less.prems Inr y n have "drain (drop n b) (ms @ [v]) = (Inl e, b')"
      by (simp add: drain_unfold [of b])
    from less.hyps [OF lt this] parse_value_stable [of b v n c] Inr y n le show ?thesis
      by (simp add: drain_unfold [of "b @ c"])
  qed
qed

text \<open>A value needs all its bytes: cut anywhere before its end, the input is merely incomplete.\<close>

lemma proper_prefix_incomplete:
  assumes "parse (b @ c) = Inr (v, n)" and "length b < n"
  shows "\<exists>w. parse b = Inr (w, 0)"
proof (cases "parse b")
  case (Inl e)
  from parse_error_stable [OF this, of c] assms(1) show ?thesis by simp
next
  case (Inr r)
  obtain w k where r: "r = (w, k)" by (cases r)
  have "k = 0"
  proof (rule ccontr)
    assume "k \<noteq> 0"
    with parse_value_stable [of b w k c] Inr r assms(1) have "k = n" by simp
    with parse_bound [of b w k] Inr r assms(2) show False by simp
  qed
  with Inr r show ?thesis by simp
qed

lemma drain_incomplete: "parse b = Inr (v, 0) \<Longrightarrow> drain b ms = (Inr ms, b)"
  by (subst drain_unfold) simp

lemma drain_acc: "drain b ms = (case drain b [] of (r, b') \<Rightarrow> (map_sum id (\<lambda>xs. ms @ xs) r, b'))"
proof (induction "length b" arbitrary: b ms rule: less_induct)
  case less
  show ?case
  proof (cases "parse b")
    case (Inl e)
    then show ?thesis by (simp add: drain_unfold [of b])
  next
    case (Inr y)
    obtain v n where y: "y = (v, n)" by (cases y)
    show ?thesis
    proof (cases "n = 0")
      case True
      with Inr y show ?thesis by (simp add: drain_unfold [of b])
    next
      case False
      with Inr y have "length (drop n b) < length b" by (cases b) (auto dest: parse_bound)
      from less [OF this, of "ms @ [v]"] less [OF this, of "[v]"] Inr y False show ?thesis
        by (cases "drain (drop n b) []"; cases "fst (drain (drop n b) [])")
           (auto simp: drain_unfold [of b])
    qed
  qed
qed

lemma drain_shorter: "drain b ms = (r, b') \<Longrightarrow> length b' \<le> length b"
proof (induction "length b" arbitrary: b ms rule: less_induct)
  case less
  show ?case
  proof (cases "parse b")
    case (Inl e)
    with less.prems show ?thesis by (simp add: drain_unfold [of b])
  next
    case (Inr y)
    obtain v n where y: "y = (v, n)" by (cases y)
    show ?thesis
    proof (cases "n = 0")
      case True
      with less.prems Inr y show ?thesis by (simp add: drain_unfold [of b])
    next
      case False
      with Inr y have lt: "length (drop n b) < length b" by (cases b) (auto dest: parse_bound)
      from less.prems Inr y False have "drain (drop n b) (ms @ [v]) = (r, b')"
        by (simp add: drain_unfold [of b])
      from less.hyps [OF lt this] lt show ?thesis by simp
    qed
  qed
qed

lemma drain_rest_stuck: "drain b ms = (Inr ms', b') \<Longrightarrow> \<exists>v. parse b' = Inr (v, 0)"
proof (induction "length b" arbitrary: b ms rule: less_induct)
  case less
  from less.prems obtain v n where y: "parse b = Inr (v, n)"
    by (cases "parse b") (auto simp: drain_unfold [of b])
  show ?case
  proof (cases "n = 0")
    case True
    with less.prems y show ?thesis by (auto simp: drain_unfold [of b])
  next
    case False
    with y have "length (drop n b) < length b" by (cases b) (auto dest: parse_bound)
    from less.hyps [OF this] less.prems y False show ?thesis
      by (simp add: drain_unfold [of b])
  qed
qed

end

lemma feed_loop_limits:
  "feed_loop p ms = (r, p') \<Longrightarrow> p' = p\<lparr>buf := buf p'\<rparr>"
proof (induction p ms rule: feed_loop.induct)
  case (1 p ms)
  show ?case
  proof (cases "try_parse p 0 0")
    case (Inl e)
    with "1.prems" show ?thesis by (subst (asm) feed_loop.simps) simp
  next
    case (Inr y)
    obtain v n where y: "y = (v, n)" by (cases y)
    show ?thesis
    proof (cases "n = 0")
      case True
      with "1.prems" Inr y show ?thesis by (subst (asm) feed_loop.simps) simp
    next
      case False
      from "1.prems" Inr y False
      have "feed_loop (p\<lparr>buf := drop n (buf p)\<rparr>) (ms @ [v]) = (r, p')"
        by (subst (asm) feed_loop.simps) simp
      from "1.IH" [OF Inr y [symmetric] False this] show ?thesis by simp
    qed
  qed
qed

definition parse_at :: "resp_parser \<Rightarrow> bytes \<Rightarrow> (pyobj \<times> nat) res" where
  "parse_at p b = try_parse (p\<lparr>buf := b\<rparr>) 0 0"

definition drain_at :: "resp_parser \<Rightarrow> bytes \<Rightarrow> pyobj list \<Rightarrow> pyobj list res \<times> bytes" where
  "drain_at p b ms = map_prod id buf (feed_loop (p\<lparr>buf := b\<rparr>) ms)"

lemma feed_loop_drain: "feed_loop p ms = map_prod id (\<lambda>b. p\<lparr>buf := b\<rparr>) (drain_at p (buf p) ms)"
  using feed_loop_limits [of p ms] by (cases "feed_loop p ms") (auto simp: drain_at_def)

interpretation resp: stream_parser "parse_at p" "drain_at p" for p
proof unfold_locales
  fix b c :: bytes and v :: pyobj and n :: nat and e :: py_exn and ms :: "pyobj list"
  show "parse_at p b = Inr (v, n) \<Longrightarrow> n \<le> length b"
    using try_parse_bounds [of "p\<lparr>buf := b\<rparr>" 0 0] by (auto simp: parse_at_def in_bounds_def)
  show "parse_at p b = Inr (v, n) \<Longrightarrow> 0 < n \<Longrightarrow> parse_at p (b @ c) = Inr (v, n)"
    using try_parse_extend [of "p\<lparr>buf := b\<rparr>" 0 0 c] by (auto simp: parse_at_def settled_def)
  show "parse_at p b = Inl e \<Longrightarrow> parse_at p (b @ c) = Inl e"
    using try_parse_extend [of "p\<lparr>buf := b\<rparr>" 0 0 c] by (auto simp: parse_at_def settled_def)
  show "drain_at p b ms =
      (case parse_at p b of
         Inl e \<Rightarrow> (Inl e, b)
       | Inr (v, n) \<Rightarrow> if n = 0 then (Inr ms, b) else drain_at p (drop n b) (ms @ [v]))"
    unfolding drain_at_def parse_at_def
    by (subst feed_loop.simps) (auto split: sum.splits prod.splits)
qed


text \<open>Feeding one packet after the other, until the first error.\<close>

fun feed_chunks :: "resp_parser \<Rightarrow> bytes list \<Rightarrow> pyobj list res \<times> resp_parser" where
  "feed_chunks p [] = (Inr [], p)"
| "feed_chunks p (c # cs) =
     (case feed p c of
        (Inl e, p') \<Rightarrow> (Inl e, p')
      | (Inr ms, p') \<Rightarrow> map_prod (map_sum id ((@) ms)) id (feed_chunks p' cs))"

lemma drain_at_buf [simp]: "drain_at (p\<lparr>buf := b\<rparr>) = drain_at p"
  by (simp add: drain_at_def fun_eq_iff)

lemma feed_within_limit:
  "int (length (buf p) + length d) \<le> max_buffer_bytes p \<Longrightarrow>
   feed p d = map_prod id (\<lambda>b. p\<lparr>buf := b\<rparr>) (drain_at p (buf p @ d) [])"
  by (cases "d = []") (simp_all add: feed_def feed_loop_drain)

lemma feed_chunks_concat:
  assumes "cs \<noteq> []" and "int (length (buf p) + length (concat cs)) \<le> max_buffer_bytes p"
  shows "case feed_chunks p cs of
           (Inl e, p') \<Rightarrow> fst (feed p (concat cs)) = Inl e
         | (Inr ms, p') \<Rightarrow> feed p (concat cs) = (Inr ms, p')"
  using assms
proof (induction cs arbitrary: p)
  case (Cons c cs)
  note lim = Cons.prems(2)
  have c: "feed p c = map_prod id (\<lambda>b. p\<lparr>buf := b\<rparr>) (drain_at p (buf p @ c) [])"
    and all: "feed p (concat (c # cs))
        = map_prod id (\<lambda>b. p\<lparr>buf := b\<rparr>) (drain_at p ((buf p @ c) @ concat cs) [])"
    using lim by (simp_all add: feed_within_limit)
  obtain r b where d: "drain_at p (buf p @ c) [] = (r, b)" by (cases "drain_at p (buf p @ c) []")
  show ?case
  proof (cases r)
    case (Inl e)
    with c all d resp.drain_append_error [of p "buf p @ c" "[]" e b "concat cs"]
    show ?thesis by simp
  next
    case (Inr ms)
    let ?p1 = "p\<lparr>buf := b\<rparr>"
    have "length b \<le> length (buf p @ c)" using resp.drain_shorter [OF d] .
    with lim have lim1: "int (length (buf ?p1) + length (concat cs)) \<le> max_buffer_bytes ?p1" by simp
    have fuse: "drain_at p ((buf p @ c) @ concat cs) []
        = (case drain_at p (b @ concat cs) [] of (r', b') \<Rightarrow> (map_sum id ((@) ms) r', b'))"
      using resp.drain_append_ok [of p "buf p @ c" "[]" ms b "concat cs"] d Inr
        resp.drain_acc [of p "b @ concat cs" ms] by simp
    show ?thesis
    proof (cases "cs = []")
      case True
      with c d Inr show ?thesis by simp
    next
      case False
      obtain r' b' where d2: "drain_at p (b @ concat cs) [] = (r', b')"
        by (cases "drain_at p (b @ concat cs) []")
      from feed_within_limit [OF lim1] d2 have f1: "feed ?p1 (concat cs) = (r', p\<lparr>buf := b'\<rparr>)"
        by simp
      obtain fr fp where fc: "feed_chunks ?p1 cs = (fr, fp)" by (cases "feed_chunks ?p1 cs")
      from c d Inr have fcc: "feed_chunks p (c # cs) = (map_sum id ((@) ms) fr, fp)"
        by (simp add: fc)
      from all fuse d2 have full: "feed p (concat (c # cs)) = (map_sum id ((@) ms) r', p\<lparr>buf := b'\<rparr>)"
        by simp
      from Cons.IH [OF False lim1] fc f1 show ?thesis
        unfolding fcc full by (cases fr) simp_all
    qed
  qed
qed simp

end
