(* ===== verification/Resp_Roundtrip.thy ===== *)
theory Resp_Roundtrip
  imports Resp_Parser
begin

text \<open>
  The encoder and the parser together: what one side writes the other side reads back, at any
  position of the buffer and through any packetisation. These lemmas carry the round trips of
  the append-only file and of the replication stream.
\<close>

section \<open>Values on the wire\<close>

text \<open>The object the receiving parser builds for an encoded object.\<close>

fun wire :: "pyobj \<Rightarrow> pyobj" where
  "wire (PBool b) = PInt (if b then 1 else 0)"
| "wire (PStr s) = PBytes (concat (map utf8_encode_cp s))"
| "wire (PSimple s) = PStr s"
| "wire (PList xs) = PList (map wire xs)"
| "wire v = v"

definition size_ok :: "nat \<Rightarrow> bool" where
  "size_ok n \<longleftrightarrow> length (dec_nat n) \<le> int_max_str_digits"

text \<open>\<open>fits p depth v\<close>: \<open>v\<close> respects the limits of the parser \<open>p\<close> at nesting depth \<open>depth\<close>.\<close>

fun fits :: "resp_parser \<Rightarrow> nat \<Rightarrow> pyobj \<Rightarrow> bool" where
  "fits p d (PBytes b) \<longleftrightarrow> int (length b) \<le> max_bulk_len p \<and> size_ok (length b)"
| "fits p d (PStr s) \<longleftrightarrow>
     int (length (concat (map utf8_encode_cp s))) \<le> max_bulk_len p
     \<and> size_ok (length (concat (map utf8_encode_cp s)))"
| "fits p d (PList xs) \<longleftrightarrow>
     int d < max_array_depth p \<and> int (length xs) \<le> max_array_len p \<and> size_ok (length xs)
     \<and> (\<forall>x\<in>set xs. fits p (Suc d) x)"
| "fits p d _ \<longleftrightarrow> True"

lemma size_ok_small: "n < 10 ^ int_max_str_digits \<Longrightarrow> size_ok n"
  unfolding size_ok_def by (erule length_dec_nat_le) (simp add: int_max_str_digits_def)

section \<open>Parsing at a position\<close>

lemma read_line_at:
  assumes "buf p = pre @ c # line @ crlf @ rest" and "cr \<notin> set line"
  shows "read_line p (Suc (length pre)) = (line, length pre + length line + 3)"
  using find_crlf_line [OF assms(2), of "pre @ [c]" rest] assms(1) by (simp add: read_line_def)

lemma nth_at: "buf p = pre @ c # rest \<Longrightarrow> buf p ! length pre = c \<and> length pre < length (buf p)"
  by simp

lemma py_int_size: "size_ok n \<Longrightarrow> py_int (dec_nat n) = Some (int n)"
  by (simp add: size_ok_def py_int_dec_nat)

lemma parse_bulk_at:
  assumes b: "buf p = pre @ bulk_of b @ rest"
    and lim: "int (length b) \<le> max_bulk_len p" "size_ok (length b)"
  shows "parse_bulk p (length pre) = Inr (PBytes b, length pre + length (bulk_of b))"
proof -
  have rl: "read_line p (Suc (length pre))
      = (dec_nat (length b), length pre + length (dec_nat (length b)) + 3)"
    using b by (intro read_line_at [where rest = "b @ crlf @ rest"]) (simp_all add: bulk_of_def)
  have buf: "buf p = (pre @ CHR ''$'' # dec_nat (length b) @ crlf) @ b @ crlf @ rest"
    using b by (simp add: bulk_of_def)
  have hdr: "length (pre @ CHR ''$'' # dec_nat (length b) @ crlf)
      = length pre + length (dec_nat (length b)) + 3"
    by (simp add: crlf_def)
  have "drop (length pre + length (dec_nat (length b)) + 3) (buf p) = b @ crlf @ rest"
    unfolding hdr [symmetric] by (simp only: buf drop_append_length)
  moreover from this have
    "drop (length pre + length (dec_nat (length b)) + 3 + length b) (buf p) = crlf @ rest"
    by (metis add.commute drop_append_length drop_drop)
  moreover have "length (buf p) \<ge> length pre + length (dec_nat (length b)) + 3 + length b + 2"
    using arg_cong [OF buf, of length] by (simp add: crlf_def)
  moreover have "length (bulk_of b) = length (dec_nat (length b)) + 3 + length b + 2"
    by (simp add: bulk_of_def crlf_def)
  ultimately show ?thesis
    using lim by (simp add: parse_bulk_def rl py_int_size Let_def) (simp add: crlf_def)
qed

lemma parse_items_at:
  assumes rec: "\<And>x pre rest. x \<in> set xs \<Longrightarrow> buf p = pre @ e x @ rest \<Longrightarrow>
      rec (length pre) = Inr (f x, length pre + length (e x))"
    and ne: "\<And>x. x \<in> set xs \<Longrightarrow> e x \<noteq> []"
    and "buf p = pre @ concat (map e xs) @ rest"
  shows "parse_items rec (length xs) (length pre) items
      = Inr (PList (items @ map f xs), length pre + length (concat (map e xs)))"
  using assms
proof (induction xs arbitrary: pre items)
  case (Cons x xs)
  have rec: "rec (length pre') = Inr (f y, length pre' + length (e y))"
    if "y \<in> set xs" "buf p = pre' @ e y @ rest'" for y pre' rest'
    using Cons.prems(1) [of y pre' rest'] that by simp
  have "rec (length pre) = Inr (f x, length (pre @ e x))"
    using Cons.prems(1) [of x pre "concat (map e xs) @ rest"] Cons.prems(3) by simp
  moreover have "parse_items rec (length xs) (length (pre @ e x)) (items @ [f x])
      = Inr (PList ((items @ [f x]) @ map f xs), length (pre @ e x) + length (concat (map e xs)))"
    by (rule Cons.IH [OF rec]) (use Cons.prems(2,3) in simp_all)
  ultimately show ?case using Cons.prems(2) [of x] by simp
qed simp

lemma encode_value_nonempty: "encode_value v = Inr b \<Longrightarrow> b \<noteq> []"
  by (cases v) (auto simp: enc_simps bind_res_Inr_iff encode_integer_def encode_simple_string_def
      encode_null_bulk_def bulk_of_def array_header_def split: if_splits)

lemma map_res_fun:
  assumes "map_res f xs = Inr ys"
  shows "ys = map (\<lambda>x. case f x of Inr y \<Rightarrow> y) xs \<and> (\<forall>x\<in>set xs. \<exists>y. f x = Inr y)"
  using assms by (induction xs arbitrary: ys) (auto simp: bind_res_Inr_iff)

lemma parse_array_at:
  assumes b: "buf p = pre @ array_header (length xs) @ concat (map e xs) @ rest"
    and lim: "int d < max_array_depth p" "int (length xs) \<le> max_array_len p" "size_ok (length xs)"
    and rec: "\<And>x pre rest. x \<in> set xs \<Longrightarrow> buf p = pre @ e x @ rest \<Longrightarrow>
      rec (length pre) (Suc d) = Inr (f x, length pre + length (e x))"
    and ne: "\<And>x. x \<in> set xs \<Longrightarrow> e x \<noteq> []"
  shows "parse_array p rec (length pre) d
      = Inr (PList (map f xs), length pre + length (array_header (length xs) @ concat (map e xs)))"
proof -
  let ?n = "length xs"
  have rl: "read_line p (Suc (length pre)) = (dec_nat ?n, length pre + length (dec_nat ?n) + 3)"
    using b by (intro read_line_at [where rest = "concat (map e xs) @ rest"])
      (simp_all add: array_header_def)
  have hdr: "length (pre @ array_header ?n) = length pre + length (dec_nat ?n) + 3"
    by (simp add: array_header_def crlf_def)
  have "parse_items (\<lambda>c. rec c (Suc d)) ?n (length (pre @ array_header ?n)) []
      = Inr (PList ([] @ map f xs), length (pre @ array_header ?n) + length (concat (map e xs)))"
    by (rule parse_items_at [OF rec ne]) (use b in simp_all)
  then have "parse_items (\<lambda>c. rec c (Suc d)) ?n (length pre + length (dec_nat ?n) + 3) []
      = Inr (PList (map f xs), length pre + length (array_header ?n @ concat (map e xs)))"
    unfolding hdr by (simp add: array_header_def crlf_def)
  then show ?thesis
    using lim by (simp add: parse_array_def rl py_int_size)
qed

text \<open>The parser on the encoding of a value that contains no other.\<close>

lemma try_parse_bulk:
  assumes "buf p = pre @ bulk_of x @ rest" and "int (length x) \<le> max_bulk_len p" and "size_ok (length x)"
  shows "try_parse p (length pre) d = Inr (PBytes x, length pre + length (bulk_of x))"
proof -
  have "buf p = pre @ CHR ''$'' # dec_nat (length x) @ crlf @ x @ crlf @ rest"
    using assms(1) by (simp add: bulk_of_def)
  then show ?thesis
    using parse_bulk_at [of p pre x rest] nth_at [of p pre "CHR ''$''"] assms by (subst try_parse.simps) simp
qed

lemma try_parse_integer:
  assumes "encode_integer i = Inr b" and "buf p = pre @ b @ rest"
  shows "try_parse p (length pre) d = Inr (PInt i, length pre + length b)"
proof -
  from assms(1) have b: "b = '':'' @ dec_int i @ crlf" and len: "length (dec_nat (nat \<bar>i\<bar>)) \<le> int_max_str_digits"
    by (auto simp: encode_integer_def py_format_int_def split: if_splits)
  from b assms(2) have buf: "buf p = pre @ CHR '':'' # dec_int i @ crlf @ rest" by simp
  from read_line_at [OF buf] nth_at [OF buf] py_int_dec_int [OF len] show ?thesis
    by (subst try_parse.simps) (simp add: parse_int_line_def b crlf_def)
qed

lemma try_parse_simple:
  assumes "encode_simple_string (AStr s) = Inr b" and "buf p = pre @ b @ rest"
  shows "try_parse p (length pre) d = Inr (PStr s, length pre + length b)"
proof -
  from assms(1) obtain x where x: "utf8_encode s = Inr x" and cr: "cr \<notin> set x" and b: "b = ''+'' @ x @ crlf"
    by (auto simp: encode_simple_string_def as_bytes_def bind_res_Inr_iff split: if_splits)
  from b assms(2) have buf: "buf p = pre @ CHR ''+'' # x @ crlf @ rest" by simp
  from read_line_at [OF buf cr] nth_at [OF buf] utf8_decode_encode [OF x] show ?thesis
    by (subst try_parse.simps) (simp add: parse_line_value_def b crlf_def)
qed

lemma try_parse_null:
  assumes "buf p = pre @ encode_null_bulk @ rest"
  shows "try_parse p (length pre) d = Inr (PNone, length pre + length encode_null_bulk)"
proof -
  from assms have buf: "buf p = pre @ CHR ''$'' # ''-1'' @ crlf @ rest" by (simp add: encode_null_bulk_def)
  from read_line_at [OF this] nth_at [OF this] show ?thesis
    by (subst try_parse.simps) (simp add: parse_bulk_def py_int_minus_one cr_def crlf_def encode_null_bulk_def Let_def)
qed

lemma try_parse_encoded:
  assumes "encode_value v = Inr b" and "fits p d v" and "buf p = pre @ b @ rest"
  shows "try_parse p (length pre) d = Inr (wire v, length pre + length b)"
  using assms
proof (induction v arbitrary: b d pre rest)
  case PNone
  then show ?case using try_parse_null [of p pre rest d] by (simp add: enc_simps)
next
  case (PList xs)
  let ?e = "\<lambda>x. case encode_value x of Inr y \<Rightarrow> y"
  from PList.prems(1) obtain parts where "map_res encode_value xs = Inr parts"
    and b: "b = array_header (length xs) @ concat parts"
    by (auto simp: enc_simps bind_res_Inr_iff)
  from map_res_fun [OF this(1)] have parts: "parts = map ?e xs"
    and ok: "\<forall>x\<in>set xs. \<exists>y. encode_value x = Inr y" by auto
  have rec: "try_parse p (length pre') (Suc d) = Inr (wire x, length pre' + length (?e x))"
    if "x \<in> set xs" "buf p = pre' @ ?e x @ rest'" for x pre' rest'
  proof -
    from ok that(1) obtain y where y: "encode_value x = Inr y" by auto
    with PList.IH [OF that(1) y, of "Suc d" pre' rest'] PList.prems(2) that show ?thesis by simp
  qed
  have ne: "?e x \<noteq> []" if "x \<in> set xs" for x
    using ok that encode_value_nonempty [of x] by force
  have "parse_array p (\<lambda>c d. try_parse p c d) (length pre) d
      = Inr (PList (map wire xs), length pre + length (array_header (length xs) @ concat (map ?e xs)))"
    by (rule parse_array_at [where e = ?e and f = wire and p = p and d = d and rest = rest
          and rec = "\<lambda>c d. try_parse p c d", OF _ _ _ _ rec ne])
       (use PList.prems(2,3) b parts in simp_all)
  moreover from PList.prems(3) b have
    "buf p = pre @ CHR ''*'' # dec_nat (length xs) @ crlf @ concat parts @ rest"
    by (simp add: array_header_def)
  ultimately show ?case
    using nth_at [of p pre "CHR ''*''"] by (subst try_parse.simps) (simp add: b parts)
next
  case (PBytes x)
  then show ?case using try_parse_bulk [of p pre x rest d] by (simp add: enc_simps)
next
  case (PStr s)
  then have "b = bulk_of (concat (map utf8_encode_cp s))"
    by (auto simp: enc_simps utf8_encode_def split: if_splits)
  then show ?case using try_parse_bulk [of p pre "concat (map utf8_encode_cp s)" rest d] PStr.prems by simp
next
  case (PSimple s)
  then show ?case using try_parse_simple [of s b p pre rest d] by (simp add: enc_simps)
next
  case (PInt i)
  then show ?case using try_parse_integer [of i b p pre rest d] by (simp add: enc_simps)
next
  case (PBool t)
  then show ?case using try_parse_integer [of "if t then 1 else 0" b p pre rest d] by (cases t) (simp_all add: enc_simps)
qed (simp_all add: enc_simps)


section \<open>Streams of commands\<close>

text \<open>The message a parsed command is, and the commands a parser accepts.\<close>

definition command_msg :: "bytes list \<Rightarrow> pyobj" where
  "command_msg argv = PList (map PBytes argv)"

definition command_fits :: "resp_parser \<Rightarrow> bytes list \<Rightarrow> bool" where
  "command_fits p argv \<longleftrightarrow> fits p 0 (command_msg argv)"

lemma command_fits_iff:
  "command_fits p argv \<longleftrightarrow>
     0 < max_array_depth p \<and> int (length argv) \<le> max_array_len p \<and> size_ok (length argv)
     \<and> (\<forall>a\<in>set argv. int (length a) \<le> max_bulk_len p \<and> size_ok (length a))"
  by (auto simp: command_fits_def command_msg_def)

lemma command_fits_buf [simp]: "command_fits (p\<lparr>buf := b\<rparr>) argv = command_fits p argv"
  by (simp add: command_fits_iff)

lemma parse_at_command:
  assumes "command_fits p argv"
  shows "parse_at p (encode_command argv @ rest) = Inr (command_msg argv, length (encode_command argv))"
  using try_parse_encoded [OF encode_command_value, of "p\<lparr>buf := encode_command argv @ rest\<rparr>" 0 argv "[]" rest]
    assms
  by (simp add: parse_at_def command_msg_def command_fits_iff comp_def)

lemma encode_command_nonempty [simp]: "encode_command argv \<noteq> []"
  by (simp add: encode_command_def array_header_def)

lemma drain_commands:
  assumes "\<forall>argv\<in>set cmds. command_fits p argv"
  shows "drain_at p (concat (map encode_command cmds) @ rest) ms
      = drain_at p rest (ms @ map command_msg cmds)"
  using assms
proof (induction cmds arbitrary: ms)
  case (Cons argv cmds)
  then have "parse_at p (encode_command argv @ concat (map encode_command cmds) @ rest)
      = Inr (command_msg argv, length (encode_command argv))"
    by (simp add: parse_at_command)
  with Cons show ?case
    by (simp add: resp.drain_unfold [of p "encode_command argv @ concat (map encode_command cmds) @ rest"])
qed simp

lemma drain_at_empty [simp]: "drain_at p [] ms = (Inr ms, [])"
  by (simp add: resp.drain_unfold [of p "[]"] parse_at_def try_parse.simps)

lemma feed_commands:
  assumes "\<forall>argv\<in>set cmds. command_fits p argv" and "buf p = []"
    and "int (length (concat (map encode_command cmds))) \<le> max_buffer_bytes p"
  shows "feed p (concat (map encode_command cmds)) = (Inr (map command_msg cmds), p)"
proof -
  have "drain_at p (concat (map encode_command cmds)) [] = (Inr (map command_msg cmds), [])"
    using drain_commands [OF assms(1), of "[]" "[]"] by simp
  with assms(2,3) show ?thesis by (simp add: feed_within_limit)
qed


section \<open>Properties of the protocol layer\<close>

lemma size_ok_parser: "n \<le> 32000000 \<Longrightarrow> size_ok n"
proof (rule size_ok_small)
  assume "n \<le> 32000000"
  also have "(32000000 :: nat) < 10 ^ 8" by simp
  also have "(10 :: nat) ^ 8 \<le> 10 ^ int_max_str_digits"
    by (rule power_increasing) (simp_all add: int_max_str_digits_def)
  finally show "n < 10 ^ int_max_str_digits" .
qed

lemma fits_buf: "fits (p\<lparr>buf := b\<rparr>) d v = fits p d v"
  by (induction p d v rule: fits.induct) simp_all

lemma feed_chunks_commands:
  assumes cmds: "\<forall>argv\<in>set cmds. command_fits p argv" and p: "buf p = []"
    and cs: "cs \<noteq> []" "concat cs = concat (map encode_command cmds)"
    and lim: "int (length (concat cs)) \<le> max_buffer_bytes p"
  shows "feed_chunks p cs = (Inr (map command_msg cmds), p)"
proof -
  have whole: "feed p (concat cs) = (Inr (map command_msg cmds), p)"
    using feed_commands [OF cmds p] lim by (simp add: cs(2))
  from lim p have "int (length (buf p) + length (concat cs)) \<le> max_buffer_bytes p" by simp
  from feed_chunks_concat [OF cs(1) this] whole show ?thesis
    by (auto split: prod.splits sum.splits)
qed

text \<open>C2: A pipeline of commands written with \<open>encode_command\<close> and delivered in any packets
  whatever (\<open>cs\<close>, cut anywhere, even inside a length line or between CR and LF) makes
  \<open>RespParser.feed\<close> return exactly those commands in order, and leaves the parser's buffer empty,
  provided each command respects the parser's limits and the bytes fit the buffer limit.\<close>

theorem pipeline_any_packets:
  assumes "\<forall>argv\<in>set cmds. command_fits p argv" and "buf p = []"
    and "cs \<noteq> []" and "concat cs = concat (map encode_command cmds)"
    and "int (length (concat cs)) \<le> max_buffer_bytes p"
  shows "feed_chunks p cs = (Inr (map command_msg cmds), p)"
  using assms by (rule feed_chunks_commands)

theorem pipeline_any_packets_witness:
  "feed_chunks default_parser [''*1'' @ [cr], lf # ''$4'' @ crlf @ ''PI'', ''NG'' @ crlf]
     = (Inr [PList [PBytes ''PING'']], default_parser)"
proof -
  let ?cs = "[''*1'' @ [cr], lf # ''$4'' @ crlf @ ''PI'', ''NG'' @ crlf]"
  have wire: "concat ?cs = concat (map encode_command [[''PING'']])"
    by code_simp
  have len: "length (concat ?cs) = 14" by (simp add: crlf_def)
  show ?thesis
    using pipeline_any_packets [of "[[''PING'']]" default_parser ?cs] wire len size_ok_parser
    by (simp add: command_fits_iff default_parser_def RespParser_def command_msg_def)
qed



text \<open>Whatever \<open>encode_value\<close> writes, the parser reads back: for every object the encoder
  accepts and that respects the parser's limits, feeding its encoding followed by any incomplete
  rest to an idle parser produces that object (as \<open>wire\<close> sees it: a boolean arrives as an
  integer, text as bulk bytes, a status as text) and nothing of its bytes remains.\<close>

lemma encode_parse_roundtrip:
  assumes "encode_value v = Inr b" and "fits p 0 v" and "buf p = []"
    and "int (length b) \<le> max_buffer_bytes p"
  shows "feed p b = (Inr [wire v], p)"
proof -
  have "fits (p\<lparr>buf := b\<rparr>) 0 v" using assms(2) by (simp add: fits_buf)
  then have "parse_at p b = Inr (wire v, length b)"
    using try_parse_encoded [OF assms(1), of "p\<lparr>buf := b\<rparr>" 0 "[]" "[]"] by (simp add: parse_at_def)
  moreover have "b \<noteq> []" using assms(1) by (rule encode_value_nonempty)
  ultimately have "drain_at p b [] = (Inr [wire v], [])"
    by (subst resp.drain_unfold) simp
  then show ?thesis using assms(3,4) by (simp add: feed_within_limit)
qed

lemma encode_parse_roundtrip_witness:
  "feed default_parser (''*2'' @ crlf @ ''$-1'' @ crlf @ '':1'' @ crlf)
     = (Inr [PList [PNone, PInt 1]], default_parser)"
proof -
  let ?b = "''*2'' @ crlf @ ''$-1'' @ crlf @ '':1'' @ crlf"
  have "encode_value (PList [PNone, PBool True]) = Inr ?b"
    by code_simp
  from encode_parse_roundtrip [OF this, of default_parser] size_ok_parser show ?thesis
    by (simp add: default_parser_def RespParser_def crlf_def)
qed

lemma feed_loop_shrinks: "length (buf (snd (feed_loop p ms))) \<le> length (buf p)"
proof -
  obtain r b where d: "drain_at p (buf p) ms = (r, b)" by (cases "drain_at p (buf p) ms")
  from resp.drain_shorter [OF d] show ?thesis by (simp add: feed_loop_drain d)
qed

text \<open>The parser's memory is bounded: no sequence of packets, hostile or not, makes it hold
  more bytes than \<open>max_buffer_bytes\<close>, and its limits never change.\<close>

lemma feed_memory_bound:
  assumes "int (length (buf p)) \<le> max_buffer_bytes p"
  shows "int (buffered_size (snd (feed p data))) \<le> max_buffer_bytes p
    \<and> snd (feed p data) = p\<lparr>buf := buf (snd (feed p data))\<rparr>"
proof (cases "int (length (buf p) + length data) \<le> max_buffer_bytes p")
  case True
  obtain r b where d: "drain_at p (buf p @ data) [] = (r, b)" by (cases "drain_at p (buf p @ data) []")
  from resp.drain_shorter [OF d] True show ?thesis by (simp add: feed_within_limit d buffered_size_def)
next
  case False
  then show ?thesis using assms by (auto simp: feed_def buffered_size_def)
qed

lemma feed_memory_bound_witness:
  "int (buffered_size (snd (feed (RespParser 10 4 2 2) ''$3aaaaaa''))) \<le> 4"
  using feed_memory_bound [of "RespParser 10 4 2 2" "''$3aaaaaa''"] by (simp add: RespParser_def)

text \<open>An error reply is exactly one RESP line, whatever text the error carries: no CR or LF of
  a client-supplied name can forge a second reply.\<close>

lemma error_reply_single_line:
  assumes "encode_error v = Inr b"
  shows "\<exists>line. b = CHR ''-'' # line @ crlf \<and> cr \<notin> set line \<and> lf \<notin> set line"
  using assms by (rule encode_error_single_line)

lemma error_reply_single_line_witness:
  "\<exists>line. ''-ERR x  +OK'' @ crlf = CHR ''-'' # line @ crlf \<and> cr \<notin> set line \<and> lf \<notin> set line"
  using error_reply_single_line [of "ABytes (''ERR x'' @ crlf @ ''+OK'')" "''-ERR x  +OK'' @ crlf"]
  by (simp add: encode_error_def as_bytes_def replace_byte_def crlf_def cr_def lf_def)

end
