(* ===== verification/Config.thy ===== *)
theory Config
  imports PyLib
begin

text \<open>
  The configuration of \<open>byo_redis/config.py\<close>: the \<open>Config\<close> dataclass and the checks
  \<open>config_from_args\<close> makes on the parsed command line. \<open>argparse\<close> turns the command line into the
  namespace \<open>args\<close>; a float option may be infinite or NaN, since \<open>float()\<close> accepts these.
\<close>

text \<open>A Python float: \<open>Finite m e\<close> is \<open>m * 2 ^ e\<close>.\<close>

datatype pyfloat = Finite int int | PosInf | NegInf | NaN

text \<open>\<open>x <= 0\<close> for a Python float: false for NaN.\<close>

fun float_nonpos :: "pyfloat \<Rightarrow> bool" where
  "float_nonpos (Finite m e) \<longleftrightarrow> m \<le> 0"
| "float_nonpos PosInf \<longleftrightarrow> False"
| "float_nonpos NegInf \<longleftrightarrow> True"
| "float_nonpos NaN \<longleftrightarrow> False"

datatype fsync_policy = Always | Everysec | NoFsync
datatype role = Master | Replica
datatype log_level = LogDebug | LogInfo | LogWarning | LogError

record config =
  cfg_host :: pystr
  cfg_port :: int
  cfg_dir :: pystr
  cfg_dbfilename :: pystr
  cfg_aof_enabled :: bool
  cfg_aof_filename :: pystr
  cfg_aof_fsync :: fsync_policy
  cfg_role :: role
  cfg_replicaof_host :: "pystr option"
  cfg_replicaof_port :: "int option"
  cfg_log_level :: log_level
  cfg_rdb_save_seconds :: int
  cfg_proto_max_bulk_len :: int
  cfg_proto_max_array_len :: int
  cfg_max_array_depth :: int
  cfg_max_buffer_bytes :: int
  cfg_partial_timeout_sec :: pyfloat
  cfg_client_idle_timeout_sec :: pyfloat
  cfg_max_clients :: int
  cfg_max_auth_failures :: int
  cfg_aof_queue_max_commands :: int
  cfg_aof_enqueue_timeout_sec :: pyfloat
  cfg_replica_backlog_max_bytes :: int
  cfg_replica_pending_max_commands :: int
  cfg_persistence_max_load_bytes :: int
  cfg_maxmemory_bytes :: int
  cfg_maxmemory_policy :: string
  cfg_requirepass :: "pystr option"
  cfg_masterauth :: "pystr option"
  cfg_allow_unprotected :: bool

definition is_replica :: "config \<Rightarrow> bool" where
  "is_replica c \<longleftrightarrow> cfg_role c = Replica"

text \<open>The namespace \<open>parser.parse_args\<close> returns.\<close>

record args =
  arg_host :: pystr
  arg_port :: int
  arg_dir :: pystr
  arg_dbfilename :: pystr
  arg_aof_enabled :: bool
  arg_aof_filename :: pystr
  arg_aof_fsync :: fsync_policy
  arg_replicaof :: "(pystr \<times> int) option"
  arg_log_level :: log_level
  arg_rdb_save_seconds :: int
  arg_proto_max_bulk_len :: int
  arg_proto_max_array_len :: int
  arg_max_array_depth :: int
  arg_max_buffer_bytes :: int
  arg_partial_timeout_sec :: pyfloat
  arg_client_idle_timeout_sec :: pyfloat
  arg_max_clients :: int
  arg_max_auth_failures :: int
  arg_aof_queue_max_commands :: int
  arg_aof_enqueue_timeout_sec :: pyfloat
  arg_replica_backlog_max_bytes :: int
  arg_replica_pending_max_commands :: int
  arg_persistence_max_load_bytes :: int
  arg_maxmemory_bytes :: int
  arg_maxmemory_policy :: string
  arg_requirepass :: "pystr option"
  arg_masterauth :: "pystr option"
  arg_allow_unprotected :: bool

text \<open>
  The namespace of an empty command line: the defaults of \<open>build_arg_parser\<close>, with the passwords the
  environment variables \<open>BYO_REDIS_PASSWORD\<close> and \<open>BYO_REDIS_MASTER_PASSWORD\<close> give.
\<close>

definition default_args :: "pystr option \<Rightarrow> pystr option \<Rightarrow> args" where
  "default_args password master_password =
     \<lparr>arg_host = lit ''127.0.0.1'', arg_port = 6379, arg_dir = lit ''./data'', arg_dbfilename = lit ''dump.rdb'',
      arg_aof_enabled = True, arg_aof_filename = lit ''appendonly.aof'', arg_aof_fsync = Everysec,
      arg_replicaof = None, arg_log_level = LogInfo, arg_rdb_save_seconds = 0,
      arg_proto_max_bulk_len = 16777216, arg_proto_max_array_len = 1024, arg_max_array_depth = 16,
      arg_max_buffer_bytes = 32000000, arg_partial_timeout_sec = Finite 30 0,
      arg_client_idle_timeout_sec = Finite 300 0, arg_max_clients = 1000, arg_max_auth_failures = 5,
      arg_aof_queue_max_commands = 10000, arg_aof_enqueue_timeout_sec = Finite 5 0,
      arg_replica_backlog_max_bytes = 64 * 1024 * 1024, arg_replica_pending_max_commands = 10000,
      arg_persistence_max_load_bytes = 1024 * 1024 * 1024, arg_maxmemory_bytes = 0,
      arg_maxmemory_policy = ''noeviction'', arg_requirepass = password, arg_masterauth = master_password,
      arg_allow_unprotected = False\<rparr>"

text \<open>The checks, in source order: the first one that fails is reported.\<close>

definition arg_checks :: "args \<Rightarrow> (bool \<times> string) list" where
  "arg_checks a =
     [(\<not> (1 \<le> arg_port a \<and> arg_port a \<le> 65535), ''port''),
      (arg_proto_max_bulk_len a < 1024, ''proto-max-bulk-len''),
      (arg_proto_max_array_len a \<le> 0, ''proto-max-array-len''),
      (arg_max_array_depth a \<le> 0, ''max-array-depth''),
      (arg_rdb_save_seconds a < 0, ''rdb-save-seconds''),
      (arg_max_buffer_bytes a < 1024, ''max-buffer-bytes''),
      (float_nonpos (arg_partial_timeout_sec a), ''partial-timeout-sec''),
      (float_nonpos (arg_client_idle_timeout_sec a), ''client-idle-timeout-sec''),
      (arg_max_clients a \<le> 0, ''max-clients''),
      (arg_max_auth_failures a \<le> 0, ''max-auth-failures''),
      (arg_aof_queue_max_commands a \<le> 0, ''aof-queue-max-commands''),
      (float_nonpos (arg_aof_enqueue_timeout_sec a), ''aof-enqueue-timeout-sec''),
      (arg_replica_backlog_max_bytes a < 1024, ''replica-backlog-max-bytes''),
      (arg_replica_pending_max_commands a \<le> 0, ''replica-pending-max-commands''),
      (arg_persistence_max_load_bytes a < 1024, ''persistence-max-load-bytes''),
      (arg_maxmemory_bytes a < 0, ''maxmemory-bytes''),
      (arg_requirepass a = Some [], ''requirepass''),
      (arg_masterauth a = Some [], ''masterauth'')]"

fun run_checks :: "(bool \<times> string) list \<Rightarrow> unit res" where
  "run_checks [] = Inr ()"
| "run_checks ((bad, opt) # cs) = (if bad then Inl (UsageError opt) else run_checks cs)"

text \<open>\<open>resolve\<close> makes the data directory absolute (\<open>Path.resolve\<close> reads the working directory).\<close>

definition config_of_args :: "(pystr \<Rightarrow> pystr) \<Rightarrow> args \<Rightarrow> config" where
  "config_of_args resolve a =
     \<lparr>cfg_host = arg_host a, cfg_port = arg_port a, cfg_dir = resolve (arg_dir a),
      cfg_dbfilename = arg_dbfilename a, cfg_aof_enabled = arg_aof_enabled a,
      cfg_aof_filename = arg_aof_filename a, cfg_aof_fsync = arg_aof_fsync a,
      cfg_role = (case arg_replicaof a of None \<Rightarrow> Master | Some _ \<Rightarrow> Replica),
      cfg_replicaof_host = map_option fst (arg_replicaof a),
      cfg_replicaof_port = map_option snd (arg_replicaof a), cfg_log_level = arg_log_level a,
      cfg_rdb_save_seconds = arg_rdb_save_seconds a,
      cfg_proto_max_bulk_len = arg_proto_max_bulk_len a,
      cfg_proto_max_array_len = arg_proto_max_array_len a,
      cfg_max_array_depth = arg_max_array_depth a,
      cfg_max_buffer_bytes = arg_max_buffer_bytes a,
      cfg_partial_timeout_sec = arg_partial_timeout_sec a,
      cfg_client_idle_timeout_sec = arg_client_idle_timeout_sec a,
      cfg_max_clients = arg_max_clients a,
      cfg_max_auth_failures = arg_max_auth_failures a,
      cfg_aof_queue_max_commands = arg_aof_queue_max_commands a,
      cfg_aof_enqueue_timeout_sec = arg_aof_enqueue_timeout_sec a,
      cfg_replica_backlog_max_bytes = arg_replica_backlog_max_bytes a,
      cfg_replica_pending_max_commands = arg_replica_pending_max_commands a,
      cfg_persistence_max_load_bytes = arg_persistence_max_load_bytes a,
      cfg_maxmemory_bytes = arg_maxmemory_bytes a,
      cfg_maxmemory_policy = arg_maxmemory_policy a,
      cfg_requirepass = arg_requirepass a,
      cfg_masterauth = arg_masterauth a,
      cfg_allow_unprotected = arg_allow_unprotected a\<rparr>"

definition config_from_args :: "(pystr \<Rightarrow> pystr) \<Rightarrow> args \<Rightarrow> config res" where
  "config_from_args resolve a =
     bind_res (run_checks (arg_checks a)) (\<lambda>_. Inr (config_of_args resolve a))"

section \<open>Accepted configurations\<close>

text \<open>What the rest of the program relies on.\<close>

definition config_ok :: "config \<Rightarrow> bool" where
  "config_ok c \<longleftrightarrow>
     1 \<le> cfg_port c \<and> cfg_port c \<le> 65535 \<and> 1024 \<le> cfg_proto_max_bulk_len c
     \<and> 0 < cfg_proto_max_array_len c \<and> 0 < cfg_max_array_depth c \<and> 0 \<le> cfg_rdb_save_seconds c
     \<and> 1024 \<le> cfg_max_buffer_bytes c \<and> 0 < cfg_max_clients c \<and> 0 < cfg_max_auth_failures c
     \<and> 0 < cfg_aof_queue_max_commands c \<and> 1024 \<le> cfg_replica_backlog_max_bytes c
     \<and> 0 < cfg_replica_pending_max_commands c \<and> 1024 \<le> cfg_persistence_max_load_bytes c
     \<and> 0 \<le> cfg_maxmemory_bytes c \<and> cfg_requirepass c \<noteq> Some [] \<and> cfg_masterauth c \<noteq> Some []
     \<and> \<not> float_nonpos (cfg_partial_timeout_sec c) \<and> \<not> float_nonpos (cfg_client_idle_timeout_sec c)
     \<and> \<not> float_nonpos (cfg_aof_enqueue_timeout_sec c)
     \<and> (is_replica c \<longleftrightarrow> cfg_replicaof_host c \<noteq> None)
     \<and> (is_replica c \<longleftrightarrow> cfg_replicaof_port c \<noteq> None)"

lemma run_checks_Inr: "run_checks cs = Inr () \<longleftrightarrow> (\<forall>(bad, opt)\<in>set cs. \<not> bad)"
  by (induction cs rule: run_checks.induct) auto

lemma arg_checks_ok:
  "run_checks (arg_checks a) = Inr () \<longleftrightarrow> config_ok (config_of_args resolve a)"
  unfolding run_checks_Inr arg_checks_def
  by (cases "arg_replicaof a") (auto simp: config_of_args_def config_ok_def is_replica_def)

lemma run_checks_find:
  "run_checks cs = (case List.find fst cs of None \<Rightarrow> Inr () | Some (bad, opt) \<Rightarrow> Inl (UsageError opt))"
  by (induction cs rule: run_checks.induct) auto


end
