(* ===== verification/Aof.thy ===== *)
theory Aof
  imports Resp_Roundtrip Store_Spec Config
begin

text \<open>
  The append-only log of \<open>byo_redis/persistence/aof.py\<close>: the log object with its file, the append
  path through the background writer, the rewrite, and the reader that recovers commands from the
  file.

  The operating system is part of the environment: \<open>write_result\<close> and \<open>fsync_result\<close> give the
  outcome of successive calls (\<open>os_calls\<close> counts them): the text of an \<open>OSError\<close>, or for an fsync
  the second at which it finished, and for a write \<open>None\<close> when all bytes were written and \<open>Some n\<close>
  when only the first \<open>n\<close> were. The file is opened with \<open>buffering=0\<close>, so \<open>write\<close> may write fewer
  bytes than it is given.
\<close>

section \<open>The log object\<close>

record aof_log =
  aof_enabled :: bool
  fsync_policy :: fsync_policy
  aof_file :: bytes
  aof_synced :: nat
  fh_open :: bool
  dirty :: bool
  failure :: "pystr option"
  writer_task :: bool
  aof_queue :: "bytes list"
  last_fsync_time :: int
  write_result :: "nat \<Rightarrow> pystr + nat option"
  fsync_result :: "nat \<Rightarrow> pystr + int"
  os_calls :: nat

definition AOFLog :: "fsync_policy \<Rightarrow> bool \<Rightarrow> bytes \<Rightarrow> (nat \<Rightarrow> pystr + nat option) \<Rightarrow> (nat \<Rightarrow> pystr + int) \<Rightarrow> aof_log" where
  "AOFLog pol on file wr fs =
     \<lparr>aof_enabled = on, fsync_policy = pol, aof_file = file, aof_synced = length file, fh_open = False,
      dirty = False, failure = None, writer_task = False, aof_queue = [], last_fsync_time = 0,
      write_result = wr, fsync_result = fs, os_calls = 0\<rparr>"

definition pending_commands :: "aof_log \<Rightarrow> nat" where
  "pending_commands l = length (aof_queue l)"

definition healthy :: "aof_log \<Rightarrow> bool" where
  "healthy l \<longleftrightarrow> failure l = None"

definition aof_open :: "aof_log \<Rightarrow> aof_log" where
  "aof_open l = (if \<not> aof_enabled l then l else l\<lparr>fh_open := True, aof_queue := [], failure := None\<rparr>)"

definition start_background_fsync :: "aof_log \<Rightarrow> aof_log" where
  "start_background_fsync l = (if \<not> aof_enabled l then l else l\<lparr>writer_task := True\<rparr>)"

section \<open>Writing\<close>

definition write_sync :: "bytes \<Rightarrow> aof_log \<Rightarrow> unit res \<times> aof_log" where
  "write_sync payload l =
     (if \<not> fh_open l then (Inl (OSError (lit ''AOF is not open'')), l)
      else
        (let l1 = l\<lparr>os_calls := Suc (os_calls l)\<rparr>
         in (case write_result l (os_calls l) of
               Inl m \<Rightarrow> (Inl (OSError m), l1)
             | Inr short \<Rightarrow>
                 (Inr (), l1\<lparr>aof_file := aof_file l @ (case short of None \<Rightarrow> payload | Some n \<Rightarrow> take n payload),
                             dirty := True\<rparr>))))"

definition fsync_sync :: "aof_log \<Rightarrow> unit res \<times> aof_log" where
  "fsync_sync l =
     (if \<not> fh_open l \<or> \<not> dirty l then (Inr (), l)
      else
        (let l1 = l\<lparr>os_calls := Suc (os_calls l)\<rparr>
         in (case fsync_result l (os_calls l) of
               Inl m \<Rightarrow> (Inl (OSError m), l1)
             | Inr t \<Rightarrow> (Inr (), l1\<lparr>dirty := False, aof_synced := length (aof_file l), last_fsync_time := t\<rparr>))))"

text \<open>Write one payload and, under \<open>always\<close>, wait for the fsync.\<close>

definition write_item :: "bytes \<Rightarrow> aof_log \<Rightarrow> unit res \<times> aof_log" where
  "write_item payload l =
     (case write_sync payload l of
        (Inl e, l1) \<Rightarrow> (Inl e, l1)
      | (Inr _, l1) \<Rightarrow> if fsync_policy l = Always then fsync_sync l1 else (Inr (), l1))"

text \<open>
  One round of \<open>_writer_loop\<close> on the item at the head of the queue: an \<open>OSError\<close> is recorded, the
  items behind it fail with it (\<open>_fail_pending\<close>), and the writer stops. The result is what the
  item's future delivers.
\<close>

definition writer_round :: "aof_log \<Rightarrow> unit res \<times> aof_log" where
  "writer_round l =
     (case aof_queue l of
        [] \<Rightarrow> (Inr (), l)
      | payload # rest \<Rightarrow>
          (case write_item payload (l\<lparr>aof_queue := rest\<rparr>) of
             (Inl (OSError m), l1) \<Rightarrow> (Inl (OSError m), l1\<lparr>failure := Some m, aof_queue := []\<rparr>)
           | (r, l1) \<Rightarrow> (r, l1)))"

text \<open>
  \<open>append\<close>, called with the write lock held, so that the queue is empty: the payload is queued and
  the call returns when the writer has handled it.
\<close>

definition aof_append :: "bytes list \<Rightarrow> aof_log \<Rightarrow> unit res \<times> aof_log" where
  "aof_append argv l =
     (if \<not> aof_enabled l \<or> \<not> fh_open l then (Inr (), l)
      else
        (case failure l of
           Some m \<Rightarrow> (Inl (OSError (lit ''AOF is unhealthy: '' @ m)), l)
         | None \<Rightarrow>
             (let payload = encode_command argv
              in if \<not> writer_task l then write_item payload l
                 else writer_round (l\<lparr>aof_queue := aof_queue l @ [payload]\<rparr>))))"

text \<open>One round of \<open>_fsync_loop\<close>, which the policy \<open>everysec\<close> starts.\<close>

definition fsync_round :: "aof_log \<Rightarrow> aof_log" where
  "fsync_round l =
     (case fsync_sync l of
        (Inl (OSError m), l1) \<Rightarrow> l1\<lparr>failure := Some m, aof_queue := []\<rparr>
      | (_, l1) \<Rightarrow> l1)"

section \<open>Closing\<close>

lemma write_item_queue: "aof_queue (snd (write_item payload l)) = aof_queue l"
  by (auto simp: write_item_def write_sync_def fsync_sync_def Let_def split: sum.splits)

lemma writer_round_queue: "aof_queue l \<noteq> [] \<Longrightarrow> length (aof_queue (snd (writer_round l))) < length (aof_queue l)"
proof (cases "aof_queue l")
  case (Cons payload rest)
  obtain r l1 where w: "write_item payload (l\<lparr>aof_queue := rest\<rparr>) = (r, l1)" by fastforce
  then have "aof_queue l1 = rest" using write_item_queue [of payload "l\<lparr>aof_queue := rest\<rparr>"] by simp
  with Cons w show ?thesis by (auto simp: writer_round_def split: sum.splits py_exn.splits)
qed simp

text \<open>The writer works off its queue up to the end marker that \<open>close\<close> puts behind it.\<close>

function drain_queue :: "aof_log \<Rightarrow> aof_log" where
  "drain_queue l = (if aof_queue l = [] then l else drain_queue (snd (writer_round l)))"
  by pat_completeness auto
termination
  by (relation "measure (\<lambda>l. length (aof_queue l))") (simp_all add: writer_round_queue)

declare drain_queue.simps [simp del]

text \<open>\<open>close\<close>: let the writer finish, sync what is left (an error is only logged), close the file.\<close>

definition aof_close :: "aof_log \<Rightarrow> aof_log" where
  "aof_close l =
     (let l1 = (if writer_task l then (drain_queue l)\<lparr>writer_task := False\<rparr> else l);
          l2 = (if fh_open l1 then (snd (fsync_sync l1))\<lparr>fh_open := False\<rparr> else l1)
      in l2\<lparr>aof_queue := []\<rparr>)"

section \<open>Rewriting\<close>

definition round_half_even :: "int \<Rightarrow> int \<Rightarrow> int" where
  "round_half_even a b =
     (let q = a div b; r = a mod b in if 2 * r < b \<or> 2 * r = b \<and> even q then q else q + 1)"

fun bit_length :: "nat \<Rightarrow> nat" where
  "bit_length n = (if n = 0 then 0 else Suc (bit_length (n div 2)))"

declare bit_length.simps [simp del]

text \<open>
  \<open>math.ceil(r / 1000)\<close> for \<open>r > 0\<close>. The division is a correctly rounded float division. Below
  \<open>2 ^ 53\<close> the distance of the quotient to the next integer, when it is not one, is at least
  \<open>1/1000\<close> and so more than the rounding error, and the ceiling is exact. Above, the quotient has
  53 significant bits (\<open>k\<close> is the exponent of its last bit), and a quotient of \<open>2 ^ 1024\<close> or
  more raises.
\<close>

definition ceil_thousandth :: "int \<Rightarrow> int res" where
  "ceil_thousandth r =
     (if r < 2 ^ 53 then Inr ((r + 999) div 1000)
      else
        (let k0 = int (bit_length (nat r)) - 63;
             k = (if r \<ge> 1000 * 2 ^ nat (53 + k0) then k0 + 1 else k0);
             n = (if 0 \<le> k then round_half_even r (1000 * 2 ^ nat k)
                  else round_half_even (r * 2 ^ nat (- k)) 1000);
             q = (if 0 \<le> k then n * 2 ^ nat k else - ((- n) div 2 ^ nat (- k)))
         in if q \<ge> 2 ^ 1024 then Inl OverflowError else Inr q))"

text \<open>The commands one key is rewritten to, in the order they are appended.\<close>

definition rewrite_value :: "bytes \<Rightarrow> key_entry \<Rightarrow> bytes list list res" where
  "rewrite_value key e =
     (case ktype e of
        STRING \<Rightarrow> (case kvalue e of VStr b \<Rightarrow> Inr [[''SET'', key, b]] | _ \<Rightarrow> Inl AssertionError)
      | LIST \<Rightarrow>
          (case kvalue e of
             VList xs \<Rightarrow> Inr (if xs = [] then [] else [''LPUSH'' # key # rev xs])
           | _ \<Rightarrow> Inl AssertionError)
      | HASH \<Rightarrow>
          (case kvalue e of
             VHash d \<Rightarrow> Inr (if flatten_pairs d = [] then [] else [''HSET'' # key # flatten_pairs d])
           | _ \<Rightarrow> Inl AssertionError))"

definition rewrite_expiry :: "int \<Rightarrow> bytes \<Rightarrow> key_entry \<Rightarrow> bytes list list res" where
  "rewrite_expiry now key e =
     (case expire_at_ms e of
        None \<Rightarrow> Inr []
      | Some t \<Rightarrow>
          (let remaining = t - now
           in if remaining \<le> 0 then Inr []
              else
                bind_res (ceil_thousandth remaining) (\<lambda>c.
                bind_res (py_format_int (max 1 c)) (\<lambda>s. Inr [[''EXPIRE'', key, s]]))))"

definition rewrite_entry :: "int \<Rightarrow> bytes \<times> key_entry \<Rightarrow> bytes list list res" where
  "rewrite_entry now ke =
     bind_res (rewrite_value (fst ke) (snd ke)) (\<lambda>vs.
     bind_res (rewrite_expiry now (fst ke) (snd ke)) (\<lambda>xs. Inr (vs @ xs)))"

definition rewrite_commands :: "int \<Rightarrow> (bytes, key_entry) dict \<Rightarrow> bytes list list res" where
  "rewrite_commands now es = bind_res (map_res (rewrite_entry now) es) (\<lambda>cs. Inr (concat cs))"

definition build_rewrite_payload :: "int \<Rightarrow> (bytes, key_entry) dict \<Rightarrow> bytes res" where
  "build_rewrite_payload now es =
     bind_res (rewrite_commands now es) (\<lambda>cs. Inr (concat (map encode_command cs)))"

text \<open>
  Where \<open>_replace_file_sync\<close> can fail: writing or syncing the temporary file, syncing the old file,
  renaming, or opening the new file (the handler then opens it again and re-raises).
\<close>

datatype replace_outcome =
    TmpFails pystr
  | OldSyncFails pystr
  | RenameFails pystr
  | ReopenFails pystr
  | Replaced int

definition replace_file_sync :: "replace_outcome \<Rightarrow> bytes \<Rightarrow> aof_log \<Rightarrow> unit res \<times> aof_log" where
  "replace_file_sync out payload l =
     (case out of
        TmpFails m \<Rightarrow> (Inl (OSError m), l)
      | OldSyncFails m \<Rightarrow> (Inl (OSError m), l)
      | RenameFails m \<Rightarrow> (Inl (OSError m), l\<lparr>fh_open := True, aof_synced := length (aof_file l)\<rparr>)
      | ReopenFails m \<Rightarrow>
          (Inl (OSError m), l\<lparr>fh_open := True, aof_file := payload, aof_synced := length payload\<rparr>)
      | Replaced t \<Rightarrow>
          (Inr (), l\<lparr>fh_open := True, aof_file := payload, aof_synced := length payload,
                     dirty := False, last_fsync_time := t\<rparr>))"

definition aof_rewrite ::
  "replace_outcome \<Rightarrow> int \<Rightarrow> (bytes, key_entry) dict \<Rightarrow> aof_log \<Rightarrow> nat res \<times> aof_log" where
  "aof_rewrite out now es l =
     (if \<not> aof_enabled l then (Inl (OSError (lit ''AOF is disabled'')), l)
      else
        (case build_rewrite_payload now es of
           Inl e \<Rightarrow> (Inl e, l)
         | Inr payload \<Rightarrow>
             (case replace_file_sync out payload l of
                (Inl e, l1) \<Rightarrow> (Inl e, l1)
              | (Inr _, l1) \<Rightarrow> (Inr (length payload), l1))))"

section \<open>Reading back\<close>

definition is_bulk :: "pyobj \<Rightarrow> bool" where
  "is_bulk x = (case x of PBytes _ \<Rightarrow> True | PNone \<Rightarrow> True | _ \<Rightarrow> False)"

definition bulk_arg :: "pyobj \<Rightarrow> bytes" where
  "bulk_arg x = (case x of PBytes b \<Rightarrow> b | _ \<Rightarrow> [])"

text \<open>The inner loop for a message with an item that is not a bulk: \<open>None\<close> means skip the message.\<close>

fun text_args :: "pyobj list \<Rightarrow> bytes list option res" where
  "text_args [] = Inr (Some [])"
| "text_args (x # xs) =
     (case x of
        PBytes b \<Rightarrow> bind_res (text_args xs) (\<lambda>r. Inr (map_option (Cons b) r))
      | PStr s \<Rightarrow>
          bind_res (utf8_encode s) (\<lambda>b. bind_res (text_args xs) (\<lambda>r. Inr (map_option (Cons b) r)))
      | _ \<Rightarrow> Inr None)"

definition aof_message :: "pyobj \<Rightarrow> bytes list option res" where
  "aof_message msg =
     (case msg of
        PList xs \<Rightarrow>
          (if xs = [] then Inr None
           else if \<not> list_all is_bulk xs then text_args xs
           else Inr (Some (map bulk_arg xs)))
      | _ \<Rightarrow> Inr None)"

definition aof_parser :: "int \<Rightarrow> resp_parser" where
  "aof_parser max_bulk = default_parser\<lparr>max_bulk_len := max_bulk\<rparr>"

text \<open>\<open>read_commands(path)\<close> on the file's bytes, \<open>None\<close> when there is no file.\<close>

definition read_commands :: "bytes option \<Rightarrow> int \<Rightarrow> int \<Rightarrow> bytes list list res" where
  "read_commands file max_bulk max_file =
     (case file of
        None \<Rightarrow> Inr []
      | Some data \<Rightarrow>
          if data = [] then Inr []
          else if int (length data) > max_file then Inl (AofError (AofTooLarge (int (length data))))
          else
            (case fst (feed (aof_parser max_bulk) data) of
               Inl (ProtocolError e) \<Rightarrow> Inl (AofError (AofProtocol e))
             | Inl e \<Rightarrow> Inl e
             | Inr messages \<Rightarrow>
                 bind_res (map_res aof_message messages) (\<lambda>cs. Inr (List.map_filter id cs))))"

text \<open>\<open>replay_aof\<close>: apply the commands in order; \<open>apply\<close> may raise.\<close>

fun apply_all :: "(bytes list \<Rightarrow> 's \<Rightarrow> unit res \<times> 's) \<Rightarrow> bytes list list \<Rightarrow> 's \<Rightarrow> unit res \<times> 's" where
  "apply_all f [] s = (Inr (), s)"
| "apply_all f (c # cs) s = (case f c s of (Inl e, s1) \<Rightarrow> (Inl e, s1) | (Inr _, s1) \<Rightarrow> apply_all f cs s1)"

definition replay_aof ::
  "(bytes list \<Rightarrow> 's \<Rightarrow> unit res \<times> 's) \<Rightarrow> bytes option \<Rightarrow> int \<Rightarrow> int \<Rightarrow> 's \<Rightarrow> nat res \<times> 's" where
  "replay_aof f file max_bulk max_file s =
     (case read_commands file max_bulk max_file of
        Inl e \<Rightarrow> (Inl e, s)
      | Inr cs \<Rightarrow> (case apply_all f cs s of (Inl e, s1) \<Rightarrow> (Inl e, s1) | (Inr _, s1) \<Rightarrow> (Inr (length cs), s1)))"

end
