(* ===== verification/Master.thy ===== *)
theory Master
  imports Rdb Resp_Encoder
begin

text \<open>
  The master side of replication, \<open>byo_redis/replication/master.py\<close>. A \<open>ReplicaLink\<close> object is
  shared between the table of registered replicas and the coroutine running its full resync, so
  links live in a heap: \<open>links\<close> holds the objects and \<open>replicas\<close> maps connection ids to their
  addresses. \<open>written\<close> is everything handed to the link's transport with \<open>writer.write\<close>.
\<close>

section \<open>State\<close>

datatype replica_state = Syncing | Live

record replica_link =
  link_offset :: nat
  link_alive :: bool
  link_state :: replica_state
  backlog :: "bytes list"
  backlog_bytes :: nat
  pending_drains :: nat
  drain_task :: bool
  written :: bytes

record master =
  backlog_max_bytes :: int
  pending_max_commands :: int
  replid :: pystr
  repl_offset :: nat
  links :: "replica_link list"
  replicas :: "(nat, nat) dict"
  unregister_tasks :: "nat list"

definition MasterReplication :: "int \<Rightarrow> int \<Rightarrow> pystr \<Rightarrow> master" where
  "MasterReplication bmax pmax rid =
     \<lparr>backlog_max_bytes = bmax, pending_max_commands = pmax, replid = rid, repl_offset = 0,
      links = [], replicas = [], unregister_tasks = []\<rparr>"

definition new_link :: "nat \<Rightarrow> replica_state \<Rightarrow> replica_link" where
  "new_link off st =
     \<lparr>link_offset = off, link_alive = True, link_state = st, backlog = [], backlog_bytes = 0,
      pending_drains = 0, drain_task = False, written = []\<rparr>"

definition update_link :: "nat \<Rightarrow> (replica_link \<Rightarrow> replica_link) \<Rightarrow> master \<Rightarrow> master" where
  "update_link a f m = m\<lparr>links := (links m)[a := f (links m ! a)]\<rparr>"

section \<open>Registration\<close>

definition connected_replicas :: "master \<Rightarrow> nat" where
  "connected_replicas m =
     length (filter (\<lambda>(c, a). link_alive (links m ! a) \<and> link_state (links m ! a) = Live) (replicas m))"

definition register_syncing :: "nat \<Rightarrow> master \<Rightarrow> nat \<times> master" where
  "register_syncing conn m =
     (let a = length (links m)
      in (a, m\<lparr>links := links m @ [new_link (repl_offset m) Syncing], replicas := dict_set conn a (replicas m)\<rparr>))"

definition start_drain_task :: "nat \<Rightarrow> master \<Rightarrow> master" where
  "start_drain_task a m = update_link a (\<lambda>l. l\<lparr>drain_task := True\<rparr>) m"

definition register :: "nat \<Rightarrow> master \<Rightarrow> nat \<times> master" where
  "register conn m =
     (let a = length (links m)
      in (a, m\<lparr>links := links m @ [(new_link (repl_offset m) Live)\<lparr>drain_task := True\<rparr>],
               replicas := dict_set conn a (replicas m)\<rparr>))"

definition unregister :: "nat \<Rightarrow> master \<Rightarrow> master" where
  "unregister conn m =
     (case dict_get (replicas m) conn of
        None \<Rightarrow> m
      | Some a \<Rightarrow>
          update_link a (\<lambda>l. l\<lparr>link_alive := False, drain_task := False\<rparr>)
            (m\<lparr>replicas := dict_del conn (replicas m)\<rparr>))"

section \<open>Propagation\<close>

text \<open>
  The loop body of \<open>propagate\<close> for one link; \<open>raises\<close> tells whether \<open>writer.write\<close> raises. The
  flag of the result says whether the link is put on the list of dead connections.
\<close>

definition propagate_link :: "int \<Rightarrow> int \<Rightarrow> nat \<Rightarrow> bytes \<Rightarrow> bool \<Rightarrow> replica_link \<Rightarrow> bool \<times> replica_link" where
  "propagate_link bmax pmax off payload raises l =
     (if \<not> link_alive l then (True, l)
      else if link_state l = Syncing then
        (if int (backlog_bytes l + length payload) > bmax then (True, l\<lparr>link_alive := False\<rparr>)
         else (False, l\<lparr>backlog := backlog l @ [payload], backlog_bytes := backlog_bytes l + length payload,
                        link_offset := off\<rparr>))
      else if int (pending_drains l) \<ge> pmax then (True, l\<lparr>link_alive := False\<rparr>)
      else if raises then (True, l\<lparr>link_alive := False\<rparr>)
      else (False, l\<lparr>written := written l @ payload, link_offset := off,
                     pending_drains := Suc (pending_drains l)\<rparr>))"

fun propagate_items :: "bytes \<Rightarrow> (nat \<Rightarrow> bool) \<Rightarrow> (nat, nat) dict \<Rightarrow> master \<Rightarrow> nat list \<times> master" where
  "propagate_items payload raises [] m = ([], m)"
| "propagate_items payload raises ((conn, a) # items) m =
     (let (dead, l) = propagate_link (backlog_max_bytes m) (pending_max_commands m) (repl_offset m)
                        payload (raises conn) (links m ! a);
          (ds, m1) = propagate_items payload raises items (m\<lparr>links := (links m)[a := l]\<rparr>)
      in (if dead then conn # ds else ds, m1))"

definition propagate :: "(nat \<Rightarrow> bool) \<Rightarrow> bytes list \<Rightarrow> master \<Rightarrow> master" where
  "propagate raises argv m =
     (if replicas m = [] then m
      else
        (let payload = encode_command argv;
             (dead, m1) = propagate_items payload raises (replicas m)
                            (m\<lparr>repl_offset := repl_offset m + length payload\<rparr>)
         in m1\<lparr>unregister_tasks := unregister_tasks m1 @ dead\<rparr>))"

text \<open>One round of \<open>_replica_writer_loop\<close> on a queued drain marker; \<open>failed\<close>: \<open>drain()\<close> raises.\<close>

definition drain_round :: "nat \<Rightarrow> nat \<Rightarrow> bool \<Rightarrow> master \<Rightarrow> master" where
  "drain_round conn a failed m =
     (let l = links m ! a
      in if \<not> link_alive l \<or> \<not> drain_task l \<or> pending_drains l = 0 then m
         else
           (let m1 = update_link a (\<lambda>l. l\<lparr>pending_drains := pending_drains l - 1\<rparr>) m
            in if failed
               then (update_link a (\<lambda>l. l\<lparr>link_alive := False, drain_task := False\<rparr>) m1)
                      \<lparr>unregister_tasks := unregister_tasks m1 @ [conn]\<rparr>
               else m1))"

section \<open>Full resynchronisation\<close>

text \<open>What \<open>full_resync\<close> sends first: the status line, the bulk header and the snapshot.\<close>

definition resync_payload :: "pystr \<Rightarrow> nat \<Rightarrow> (bytes, key_entry) dict \<Rightarrow> bytes res" where
  "resync_payload rid off es =
     bind_res (dump_rdb_entries es) (\<lambda>rdb.
     bind_res (py_format_int (int off)) (\<lambda>off_s.
     bind_res (encode_simple_string (AStr (lit ''FULLRESYNC '' @ rid @ lit '' '' @ lit off_s))) (\<lambda>header.
       Inr (header @ ''$'' @ dec_nat (length rdb) @ crlf @ rdb))))"

definition resync_write :: "nat \<Rightarrow> bytes \<Rightarrow> master \<Rightarrow> master" where
  "resync_write a data m = update_link a (\<lambda>l. l\<lparr>written := written l @ data\<rparr>) m"

text \<open>
  One iteration of the flush loop up to its next \<open>await\<close>: take the backlog under the state lock;
  go live if it is empty, write it out otherwise.
\<close>

definition flush_round :: "nat \<Rightarrow> master \<Rightarrow> bool \<times> master" where
  "flush_round a m =
     (let l = links m ! a; batch = backlog l; l1 = l\<lparr>backlog := [], backlog_bytes := 0\<rparr>
      in if batch = [] then (True, m\<lparr>links := (links m)[a := l1\<lparr>link_state := Live, link_offset := repl_offset m\<rparr>]\<rparr>)
         else (False, m\<lparr>links := (links m)[a := l1\<lparr>written := written l1 @ concat batch\<rparr>]\<rparr>))"

text \<open>
  \<open>full_resync\<close> when nothing else runs in between: the backlog stays empty and the first flush
  round goes live. An exception after registration unregisters and is raised again.
\<close>

definition full_resync :: "nat \<Rightarrow> store \<Rightarrow> master \<Rightarrow> unit res \<times> store \<times> master" where
  "full_resync conn s m =
     (let (a, m1) = register_syncing conn m; (es, s1) = snapshot s
      in (case resync_payload (replid m1) (repl_offset m1) es of
            Inl e \<Rightarrow> (Inl e, s1, unregister conn m1)
          | Inr data \<Rightarrow> (Inr (), s1, start_drain_task a (snd (flush_round a (resync_write a data m1))))))"

end
