(* ===== verification/Server_State.thy ===== *)
theory Server_State
  imports Aof Master
begin

text \<open>
  The state of \<open>RedisServer\<close> (\<open>byo_redis/server.py\<close>) as the command handlers see it, and the
  methods they call on it: authentication, saving, scheduling of background jobs, and the entry
  point of a full resync. The keyspace is \<open>db\<close>, the snapshot file \<open>rdb_file\<close>; \<open>disk_result\<close> gives
  the outcome of successive snapshot writes, the text of an \<open>OSError\<close> or success, and
  \<open>write_raises\<close> the connections whose transport raises when a command is propagated to it.

  \<open>time.time()\<close> is read from the keyspace's clock, which counts milliseconds.
\<close>

text \<open>Where a background save is: waiting for the write lock, encoding a snapshot, writing its bytes.\<close>

datatype save_phase =
    SaveIdle
  | SaveWaiting
  | SaveEncoding "(bytes, key_entry) dict"
  | SaveWriting bytes

record server =
  db :: store
  config :: config
  version :: pystr
  aof :: aof_log
  master :: master
  rdb_file :: "bytes option"
  last_save_time :: int
  bgsave_phase :: save_phase
  rewrite_running :: bool
  started :: bool
  started_at :: int
  replica_link_status :: pystr
  open_writers :: "nat set"
  authenticated :: "nat set"
  authentication_failures :: "(nat, nat) dict"
  client_count :: nat
  conn_seq :: nat
  total_connections_received :: nat
  rejected_connections :: nat
  total_commands_processed :: nat
  total_commands_failed :: nat
  disk_result :: "nat \<Rightarrow> pystr + unit"
  disk_calls :: nat
  write_raises :: "nat \<Rightarrow> bool"

text \<open>
  The server before \<open>start\<close>. \<open>_started_at\<close> is read only once \<open>start\<close> has set it; the log object is
  built by the caller, since its file and the outcomes of its system calls are part of it.
\<close>

definition RedisServer ::
  "config \<Rightarrow> pystr \<Rightarrow> pystr \<Rightarrow> (nat \<Rightarrow> int) \<Rightarrow> aof_log \<Rightarrow> bytes option \<Rightarrow> (nat \<Rightarrow> pystr + unit) \<Rightarrow> server" where
  "RedisServer cfg ver rid clk alog rdb disk =
     \<lparr>db = new_store (cfg_maxmemory_bytes cfg) (cfg_maxmemory_policy cfg) clk, config = cfg, version = ver,
      aof = alog,
      master = MasterReplication (cfg_replica_backlog_max_bytes cfg) (cfg_replica_pending_max_commands cfg) rid,
      rdb_file = rdb, last_save_time = 0, bgsave_phase = SaveIdle, rewrite_running = False,
      started = False, started_at = 0, replica_link_status = lit ''down'', open_writers = {},
      authenticated = {}, authentication_failures = [], client_count = 0, conn_seq = 0,
      total_connections_received = 0, rejected_connections = 0, total_commands_processed = 0,
      total_commands_failed = 0, disk_result = disk, disk_calls = 0, write_raises = (\<lambda>conn. False)\<rparr>"

text \<open>Run a keyspace operation on the server's store.\<close>

definition on_db :: "(store \<Rightarrow> 'r \<times> store) \<Rightarrow> server \<Rightarrow> 'r \<times> server" where
  "on_db f s = (let (r, d) = f (db s) in (r, s\<lparr>db := d\<rparr>))"

lemma on_db_simps:
  "fst (on_db f s) = fst (f (db s))" "snd (on_db f s) = s\<lparr>db := snd (f (db s))\<rparr>"
  by (simp_all add: on_db_def split_beta Let_def)

text \<open>\<open>time.time()\<close> in milliseconds.\<close>

definition server_now :: "server \<Rightarrow> int \<times> server" where
  "server_now s = on_db now_ms s"

definition uptime_seconds :: "server \<Rightarrow> int \<times> server" where
  "uptime_seconds s =
     (if \<not> started s then (0, s)
      else (let (n, s1) = server_now s in (max 0 ((n - started_at s) div 1000), s1)))"

section \<open>Authentication\<close>

definition authenticate :: "nat \<Rightarrow> bytes \<Rightarrow> server \<Rightarrow> bool res \<times> server" where
  "authenticate conn password s =
     (case cfg_requirepass (config s) of
        None \<Rightarrow> (Inr False, s)
      | Some pw \<Rightarrow>
          (case utf8_encode pw of
             Inl e \<Rightarrow> (Inl e, s)
           | Inr expected \<Rightarrow>
               if expected \<noteq> password
               then (Inr False,
                     s\<lparr>authentication_failures :=
                         dict_set conn
                           ((case dict_get (authentication_failures s) conn of None \<Rightarrow> 0 | Some n \<Rightarrow> n) + 1)
                           (authentication_failures s)\<rparr>)
               else (Inr True,
                     s\<lparr>authenticated := insert conn (authenticated s),
                       authentication_failures := dict_del conn (authentication_failures s)\<rparr>)))"

section \<open>Saving\<close>

text \<open>
  \<open>dump_rdb\<close>: the payload is written to a temporary file, synced and renamed over the snapshot
  file, so that a failure leaves the old file in place.
\<close>

definition write_rdb :: "bytes \<Rightarrow> server \<Rightarrow> unit res \<times> server" where
  "write_rdb payload s =
     (let s1 = s\<lparr>disk_calls := Suc (disk_calls s)\<rparr>
      in (case disk_result s (disk_calls s) of
            Inl m \<Rightarrow> (Inl (OSError m), s1)
          | Inr _ \<Rightarrow> (Inr (), s1\<lparr>rdb_file := Some payload\<rparr>)))"

definition dump_rdb :: "server \<Rightarrow> unit res \<times> server" where
  "dump_rdb s =
     (case on_db dump_rdb_bytes s of
        (Inl e, s1) \<Rightarrow> (Inl e, s1)
      | (Inr payload, s1) \<Rightarrow> write_rdb payload s1)"

definition save_rdb_sync :: "server \<Rightarrow> unit res \<times> server" where
  "save_rdb_sync s =
     (case dump_rdb s of
        (Inl e, s1) \<Rightarrow> (Inl e, s1)
      | (Inr _, s1) \<Rightarrow> (let (n, s2) = server_now s1 in (Inr (), s2\<lparr>last_save_time := n div 1000\<rparr>)))"

text \<open>\<open>bgsave_in_progress\<close> and \<open>schedule_bgsave\<close>.\<close>

definition bgsave_in_progress :: "server \<Rightarrow> bool" where
  "bgsave_in_progress s \<longleftrightarrow> bgsave_phase s \<noteq> SaveIdle"

definition schedule_bgsave :: "server \<Rightarrow> bool \<times> server" where
  "schedule_bgsave s = (if bgsave_in_progress s then (False, s) else (True, s\<lparr>bgsave_phase := SaveWaiting\<rparr>))"

text \<open>
  \<open>_bgsave_worker\<close> up to its next \<open>await\<close>: the snapshot under the write lock, the encoding and the writing,
  each in a thread. Other tasks run in between. Every exception is logged and dropped, and ends the save.
\<close>

definition bgsave_step :: "server \<Rightarrow> server" where
  "bgsave_step s =
     (case bgsave_phase s of
        SaveIdle \<Rightarrow> s
      | SaveWaiting \<Rightarrow> (let (es, s1) = on_db snapshot s in s1\<lparr>bgsave_phase := SaveEncoding es\<rparr>)
      | SaveEncoding es \<Rightarrow>
          (case dump_rdb_entries es of
             Inl e \<Rightarrow> s\<lparr>bgsave_phase := SaveIdle\<rparr>
           | Inr payload \<Rightarrow> s\<lparr>bgsave_phase := SaveWriting payload\<rparr>)
      | SaveWriting payload \<Rightarrow>
          (case write_rdb payload s of
             (Inl e, s1) \<Rightarrow> s1\<lparr>bgsave_phase := SaveIdle\<rparr>
           | (Inr _, s1) \<Rightarrow>
               (let (n, s2) = server_now s1 in s2\<lparr>last_save_time := n div 1000, bgsave_phase := SaveIdle\<rparr>)))"

text \<open>The worker from where it is to its end, when no other task runs in between.\<close>

definition bgsave_worker :: "server \<Rightarrow> server" where
  "bgsave_worker s = bgsave_step (bgsave_step (bgsave_step s))"

definition schedule_aof_rewrite :: "server \<Rightarrow> bool \<times> server" where
  "schedule_aof_rewrite s =
     (if rewrite_running s \<or> \<not> cfg_aof_enabled (config s) then (False, s)
      else (True, s\<lparr>rewrite_running := True\<rparr>))"

definition aof_rewrite_worker :: "replace_outcome \<Rightarrow> server \<Rightarrow> server" where
  "aof_rewrite_worker out s =
     (let (es, s1) = on_db snapshot s; (now, s2) = server_now s1
      in s2\<lparr>aof := snd (aof_rewrite out now es (aof s2)), rewrite_running := False\<rparr>)"

section \<open>Replication\<close>

definition handle_psync :: "nat \<Rightarrow> server \<Rightarrow> pyobj res \<times> server" where
  "handle_psync conn s =
     (if conn \<notin> open_writers s then (Inl (RespError (lit ''ERR PSYNC requires active connection'')), s)
      else
        (case full_resync conn (db s) (master s) of
           (Inl e, d, m) \<Rightarrow> (Inl e, s\<lparr>db := d, master := m\<rparr>)
         | (Inr _, d, m) \<Rightarrow> (Inr PNoReply, s\<lparr>db := d, master := m\<rparr>)))"

end
