(* ===== verification/Commands.thy ===== *)
theory Commands
  imports Server_State "HOL-Library.Char_ord" "HOL-Library.List_Lexorder"
begin

text \<open>
  The command handlers of \<open>byo_redis/commands/\<close> and the registry that dispatches to them. A
  handler takes the context of the call (the fields of \<open>CommandContext\<close> besides store, configuration
  and server, which are parts of the server state) and the server, and returns its result or the
  exception it raises with the new server state.
\<close>

section \<open>Context and errors\<close>

record command_context =
  argv :: "bytes list"
  is_replica_client :: bool
  is_loading :: bool
  is_replica_link :: bool
  connection_id :: nat

type_synonym handler = "command_context \<Rightarrow> server \<Rightarrow> pyobj res \<times> server"

abbreviation quote :: pystr where
  "quote \<equiv> [0x27]"

definition resp_error :: "string \<Rightarrow> py_exn" where
  "resp_error m = RespError (lit m)"

definition wrongtype :: py_exn where
  "wrongtype = resp_error ''WRONGTYPE Operation against a key holding the wrong kind of value''"

definition wrong_arity :: "string \<Rightarrow> py_exn" where
  "wrong_arity cmd =
     RespError (lit ''ERR wrong number of arguments for '' @ quote @ lit cmd @ quote @ lit '' command'')"

definition unknown_command :: "bytes \<Rightarrow> py_exn" where
  "unknown_command name = RespError (lit ''ERR unknown command '' @ quote @ utf8_decode_replace name @ quote)"

definition readonly_error :: py_exn where
  "readonly_error =
     RespError (lit ''READONLY You can'' @ quote @ lit ''t write against a read only replica.'')"

definition WRITE_COMMANDS :: "bytes list" where
  "WRITE_COMMANDS = [''SET'', ''EXPIRE'', ''LPUSH'', ''RPOP'', ''HSET'', ''DEL'']"

text \<open>\<open>_Simple("OK")\<close> and its like.\<close>

definition simple :: "string \<Rightarrow> pyobj" where
  "simple m = PSimple (lit m)"

text \<open>Run a keyspace operation; \<open>except WrongTypeError\<close> turns that exception into the reply.\<close>

definition store_call :: "(store \<Rightarrow> 'r res \<times> store) \<Rightarrow> ('r \<Rightarrow> pyobj) \<Rightarrow> server \<Rightarrow> pyobj res \<times> server" where
  "store_call f wrap s =
     (case on_db f s of
        (Inl WrongTypeError, s1) \<Rightarrow> (Inl wrongtype, s1)
      | (Inl e, s1) \<Rightarrow> (Inl e, s1)
      | (Inr r, s1) \<Rightarrow> (Inr (wrap r), s1))"

definition bulk_or_nil :: "bytes option \<Rightarrow> pyobj" where
  "bulk_or_nil r = (case r of None \<Rightarrow> PNone | Some b \<Rightarrow> PBytes b)"

section \<open>Connection commands\<close>

definition cmd_ping :: handler where
  "cmd_ping ctx s =
     (let argc = length (argv ctx)
      in if argc = 1 then (Inr (simple ''PONG''), s)
         else if argc = 2 then (Inr (PBytes (argv ctx ! 1)), s)
         else (Inl (wrong_arity ''ping''), s))"

definition cmd_echo :: handler where
  "cmd_echo ctx s =
     (if length (argv ctx) \<noteq> 2 then (Inl (wrong_arity ''echo''), s) else (Inr (PBytes (argv ctx ! 1)), s))"

definition cmd_select :: handler where
  "cmd_select ctx s =
     (if length (argv ctx) \<noteq> 2 then (Inl (wrong_arity ''select''), s)
      else
        (case py_int (argv ctx ! 1) of
           None \<Rightarrow> (Inl (resp_error ''ERR invalid DB index''), s)
         | Some index \<Rightarrow>
             if index \<noteq> 0 then (Inl (resp_error ''ERR DB index is out of range''), s)
             else (Inr (simple ''OK''), s)))"

definition cmd_command :: handler where
  "cmd_command ctx s = (Inr (PList []), s)"

definition cmd_auth :: handler where
  "cmd_auth ctx s =
     (if length (argv ctx) \<noteq> 2 then (Inl (wrong_arity ''auth''), s)
      else if cfg_requirepass (config s) = None
        then (Inl (resp_error ''ERR AUTH called without any password configured''), s)
      else
        (case authenticate (connection_id ctx) (argv ctx ! 1) s of
           (Inl e, s1) \<Rightarrow> (Inl e, s1)
         | (Inr ok, s1) \<Rightarrow>
             if \<not> ok then (Inl (resp_error ''WRONGPASS invalid username-password pair''), s1)
             else (Inr (simple ''OK''), s1)))"

section \<open>String and key commands\<close>

text \<open>The option loop of \<open>SET\<close>, from index 3 on.\<close>

fun set_options :: "bytes list \<Rightarrow> int option \<Rightarrow> int option res" where
  "set_options [] ex = Inr ex"
| "set_options [opt] ex = Inl (resp_error ''ERR syntax error'')"
| "set_options (opt # arg # rest) ex =
     (if py_upper opt = ''EX'' then
        (case py_int arg of
           None \<Rightarrow> Inl (resp_error ''ERR value is not an integer or out of range'')
         | Some n \<Rightarrow>
             if n \<le> 0 then Inl (resp_error ''ERR invalid expire time in set'') else set_options rest (Some n))
      else Inl (resp_error ''ERR syntax error''))"

definition cmd_set :: handler where
  "cmd_set ctx s =
     (if length (argv ctx) < 3 then (Inl (wrong_arity ''set''), s)
      else
        (case set_options (drop 3 (argv ctx)) None of
           Inl e \<Rightarrow> (Inl e, s)
         | Inr ex \<Rightarrow> (Inr (simple ''OK''), s\<lparr>db := set_string (argv ctx ! 1) (argv ctx ! 2) ex (db s)\<rparr>)))"

definition cmd_get :: handler where
  "cmd_get ctx s =
     (if length (argv ctx) \<noteq> 2 then (Inl (wrong_arity ''get''), s)
      else store_call (get_string (argv ctx ! 1)) bulk_or_nil s)"

definition cmd_expire :: handler where
  "cmd_expire ctx s =
     (if length (argv ctx) \<noteq> 3 then (Inl (wrong_arity ''expire''), s)
      else
        (case py_int (argv ctx ! 2) of
           None \<Rightarrow> (Inl (resp_error ''ERR value is not an integer or out of range''), s)
         | Some seconds \<Rightarrow> (let (r, s1) = on_db (expire (argv ctx ! 1) seconds) s in (Inr (PInt r), s1))))"

definition cmd_ttl :: handler where
  "cmd_ttl ctx s =
     (if length (argv ctx) \<noteq> 2 then (Inl (wrong_arity ''ttl''), s)
      else (let (r, s1) = on_db (ttl (argv ctx ! 1)) s in (Inr (PInt r), s1)))"

section \<open>List and hash commands\<close>

definition cmd_lpush :: handler where
  "cmd_lpush ctx s =
     (if length (argv ctx) < 3 then (Inl (wrong_arity ''lpush''), s)
      else store_call (lpush (argv ctx ! 1) (drop 2 (argv ctx))) (\<lambda>n. PInt (int n)) s)"

definition cmd_rpop :: handler where
  "cmd_rpop ctx s =
     (if length (argv ctx) \<noteq> 2 then (Inl (wrong_arity ''rpop''), s)
      else store_call (rpop (argv ctx ! 1)) bulk_or_nil s)"

fun pair_up :: "bytes list \<Rightarrow> (bytes \<times> bytes) list" where
  "pair_up (f # v # rest) = (f, v) # pair_up rest"
| "pair_up _ = []"

definition cmd_hset :: handler where
  "cmd_hset ctx s =
     (let argc = length (argv ctx)
      in if argc < 4 \<or> argc mod 2 \<noteq> 0 then (Inl (wrong_arity ''hset''), s)
         else
           (let pairs = drop 2 (argv ctx)
            in if length pairs mod 2 \<noteq> 0 then (Inl (wrong_arity ''hset''), s)
               else store_call (hset (argv ctx ! 1) (pair_up pairs)) (\<lambda>n. PInt (int n)) s))"

definition cmd_hgetall :: handler where
  "cmd_hgetall ctx s =
     (if length (argv ctx) \<noteq> 2 then (Inl (wrong_arity ''hgetall''), s)
      else store_call (hgetall (argv ctx ! 1)) (\<lambda>xs. PList (map PBytes xs)) s)"

section \<open>Server commands\<close>

definition info_int :: "string \<Rightarrow> int \<Rightarrow> pystr res" where
  "info_int name i = bind_res (py_format_int i) (\<lambda>d. Inr (lit name @ lit '':'' @ lit d))"

definition info_str :: "string \<Rightarrow> pystr \<Rightarrow> pystr res" where
  "info_str name v = Inr (lit name @ lit '':'' @ v)"

definition info_keyspace :: "nat \<Rightarrow> nat \<Rightarrow> int \<Rightarrow> pystr res" where
  "info_keyspace keys expires avg =
     bind_res (py_format_int (int keys)) (\<lambda>k.
     bind_res (py_format_int (int expires)) (\<lambda>e.
     bind_res (py_format_int avg) (\<lambda>a.
       Inr (lit ''db0:keys='' @ lit k @ lit '',expires='' @ lit e @ lit '',avg_ttl='' @ lit a))))"

text \<open>The lines of \<open>INFO\<close>; \<open>stats\<close>, \<open>up\<close> and \<open>used\<close> were read from the server in this order.\<close>

definition info_lines :: "(nat \<times> nat \<times> int) \<Rightarrow> int \<Rightarrow> nat \<Rightarrow> server \<Rightarrow> pystr res list" where
  "info_lines stats up used s =
     (let (keys, expires, avg) = stats; c = config s
      in [Inr (lit ''# Server''), info_str ''redis_version'' (version s), Inr (lit ''redis_mode:standalone''),
          info_int ''tcp_port'' (cfg_port c), info_int ''uptime_in_seconds'' up,
          info_int ''total_connections_received'' (int (total_connections_received s)),
          info_int ''rejected_connections'' (int (rejected_connections s)),
          info_int ''total_commands_processed'' (int (total_commands_processed s)),
          info_int ''total_commands_failed'' (int (total_commands_failed s)),
          info_int ''used_memory'' (int used), info_int ''maxmemory'' (cfg_maxmemory_bytes c),
          info_str ''maxmemory_policy'' (lit (cfg_maxmemory_policy c)),
          info_int ''evicted_keys'' (int (evicted_keys (db s))), Inr [],
          Inr (lit ''# Clients''), info_int ''connected_clients'' (int (client_count s)),
          info_int ''maxclients'' (cfg_max_clients c), Inr [],
          Inr (lit ''# Replication''), info_str ''role'' (lit (if is_replica c then ''slave'' else ''master''))]
         @ (if is_replica c
            then [info_str ''master_host'' (case cfg_replicaof_host c of None \<Rightarrow> [] | Some h \<Rightarrow> h),
                  info_int ''master_port'' (case cfg_replicaof_port c of None \<Rightarrow> 0 | Some p \<Rightarrow> p),
                  info_str ''master_link_status'' (replica_link_status s)]
            else [info_int ''connected_slaves'' (int (connected_replicas (master s)))])
         @ [Inr [], Inr (lit ''# Keyspace''), info_keyspace keys expires avg, Inr [],
            Inr (lit ''# Persistence''),
            info_int ''aof_enabled'' (if cfg_aof_enabled c then 1 else 0),
            info_int ''aof_pending_commands'' (int (pending_commands (aof s))),
            info_int ''aof_healthy'' (if healthy (aof s) then 1 else 0),
            info_int ''aof_last_fsync_time'' (last_fsync_time (aof s)),
            info_int ''aof_rewrite_in_progress'' (if rewrite_running s then 1 else 0),
            info_int ''rdb_last_save_time'' (last_save_time s)])"

definition join_lines :: "pystr list \<Rightarrow> pystr" where
  "join_lines ls = concat (map (\<lambda>l. l @ [13, 10]) ls)"

definition cmd_info :: handler where
  "cmd_info ctx s =
     (if length (argv ctx) > 2 then (Inl (wrong_arity ''info''), s)
      else
        (let (stats, s1) = on_db keyspace_stats s; (up, s2) = uptime_seconds s1
         in (case on_db memory_usage s2 of
               (Inl e, s3) \<Rightarrow> (Inl e, s3)
             | (Inr used, s3) \<Rightarrow>
                 (bind_res (map_res id (info_lines stats up used s3)) (\<lambda>ls.
                  bind_res (utf8_encode (join_lines ls)) (\<lambda>b. Inr (PBytes b))), s3))))"

definition cmd_save :: handler where
  "cmd_save ctx s =
     (if length (argv ctx) \<noteq> 1 then (Inl (wrong_arity ''save''), s)
      else
        (case save_rdb_sync s of
           (Inl (OSError m), s1) \<Rightarrow> (Inl (RespError (lit ''ERR SAVE failed: '' @ m)), s1)
         | (Inl e, s1) \<Rightarrow> (Inl e, s1)
         | (Inr _, s1) \<Rightarrow> (Inr (simple ''OK''), s1)))"

definition cmd_bgsave :: handler where
  "cmd_bgsave ctx s =
     (if length (argv ctx) \<noteq> 1 then (Inl (wrong_arity ''bgsave''), s)
      else
        (let (ok, s1) = schedule_bgsave s
         in if \<not> ok then (Inl (resp_error ''ERR Background save already in progress''), s1)
            else (Inr (simple ''Background saving started''), s1)))"

definition cmd_bgrewriteaof :: handler where
  "cmd_bgrewriteaof ctx s =
     (if length (argv ctx) \<noteq> 1 then (Inl (wrong_arity ''bgrewriteaof''), s)
      else if \<not> cfg_aof_enabled (config s) then (Inl (resp_error ''ERR AOF is disabled''), s)
      else
        (let (ok, s1) = schedule_aof_rewrite s
         in if \<not> ok
            then (Inl (resp_error ''ERR Background append only file rewriting already in progress''), s1)
            else (Inr (simple ''Background append only file rewriting started''), s1)))"

text \<open>
  \<open>CONFIG GET\<close>. \<open>pattern.lower()\<close> is compared with ASCII names only, and no other character maps to
  one of their letters alone, so the ASCII mapping decides the comparison.
\<close>

definition lower_cp :: "nat \<Rightarrow> nat" where
  "lower_cp c = (if 65 \<le> c \<and> c \<le> 90 then c + 32 else c)"

definition config_get :: "bytes \<Rightarrow> config \<Rightarrow> pyobj res" where
  "config_get raw c =
     (let pattern = map lower_cp (utf8_decode_replace raw);
          pick = (\<lambda>name v. if pattern = lit ''*'' \<or> pattern = lit name then [PBytes name, PBytes v] else [])
      in bind_res (utf8_encode (cfg_dir c)) (\<lambda>d.
         bind_res (utf8_encode (cfg_dbfilename c)) (\<lambda>f.
           Inr (PList (pick ''dir'' d @ pick ''dbfilename'' f)))))"

definition cmd_config :: handler where
  "cmd_config ctx s =
     (if length (argv ctx) < 2 then (Inl (wrong_arity ''config''), s)
      else
        (let sub = py_upper (argv ctx ! 1)
         in if sub = ''GET'' then
              (if length (argv ctx) \<noteq> 3 then (Inl (wrong_arity ''config|get''), s)
               else (config_get (argv ctx ! 2) (config s), s))
            else if sub = ''SET'' then (Inl (resp_error ''ERR CONFIG SET not supported in BYO-Redis v0.2.2''), s)
            else
              (bind_res (utf8_decode sub) (\<lambda>shown.
                 Inl (RespError (lit ''ERR Unknown subcommand or wrong number of arguments for ''
                        @ quote @ lit ''config|'' @ shown @ quote))), s)))"

definition cmd_del :: handler where
  "cmd_del ctx s =
     (if length (argv ctx) < 2 then (Inl (wrong_arity ''del''), s)
      else (let (n, s1) = on_db (delete (drop 1 (argv ctx))) s in (Inr (PInt (int n)), s1)))"

definition cmd_dbsize :: handler where
  "cmd_dbsize ctx s =
     (if length (argv ctx) \<noteq> 1 then (Inl (wrong_arity ''dbsize''), s)
      else (let (n, s1) = on_db dbsize s in (Inr (PInt (int n)), s1)))"

section \<open>Replication commands\<close>

definition cmd_replconf :: handler where
  "cmd_replconf ctx s =
     (if length (argv ctx) < 2 then (Inl (wrong_arity ''replconf''), s) else (Inr (simple ''OK''), s))"

definition cmd_psync :: handler where
  "cmd_psync ctx s =
     (if length (argv ctx) \<noteq> 3 then (Inl (wrong_arity ''psync''), s) else handle_psync (connection_id ctx) s)"

section \<open>The registry\<close>

type_synonym registry = "(bytes, handler) dict"

definition reg_register :: "string \<Rightarrow> handler \<Rightarrow> registry \<Rightarrow> registry" where
  "reg_register name h reg = dict_set (py_upper name) h reg"

definition reg_get :: "registry \<Rightarrow> bytes \<Rightarrow> handler option" where
  "reg_get reg name = dict_get reg (py_upper name)"

definition reg_names :: "registry \<Rightarrow> bytes list" where
  "reg_names reg = sort (dict_keys reg)"

definition default_handlers :: "(string \<times> handler) list" where
  "default_handlers =
     [(''PING'', cmd_ping), (''ECHO'', cmd_echo), (''SELECT'', cmd_select), (''COMMAND'', cmd_command),
      (''AUTH'', cmd_auth), (''SET'', cmd_set), (''GET'', cmd_get), (''EXPIRE'', cmd_expire), (''TTL'', cmd_ttl),
      (''LPUSH'', cmd_lpush), (''RPOP'', cmd_rpop), (''HSET'', cmd_hset), (''HGETALL'', cmd_hgetall),
      (''INFO'', cmd_info), (''SAVE'', cmd_save), (''BGSAVE'', cmd_bgsave),
      (''BGREWRITEAOF'', cmd_bgrewriteaof), (''CONFIG'', cmd_config), (''DEL'', cmd_del),
      (''DBSIZE'', cmd_dbsize), (''REPLCONF'', cmd_replconf), (''PSYNC'', cmd_psync)]"

definition create_default_registry :: registry where
  "create_default_registry = fold (\<lambda>(name, h). reg_register name h) default_handlers []"

definition dispatch :: "registry \<Rightarrow> command_context \<Rightarrow> server \<Rightarrow> pyobj res \<times> server" where
  "dispatch reg ctx s =
     (case argv ctx of
        [] \<Rightarrow> (Inl (resp_error ''ERR empty command''), s)
      | name # _ \<Rightarrow>
          (case reg_get reg name of
             None \<Rightarrow> (Inl (unknown_command name), s)
           | Some h \<Rightarrow>
               if is_replica (config s) \<and> py_upper name \<in> set WRITE_COMMANDS
                  \<and> \<not> is_replica_client ctx \<and> \<not> is_loading ctx
               then (Inl readonly_error, s)
               else h ctx s))"

end
