(* ===== verification/Server.thy ===== *)
theory Server
  imports Commands
begin

text \<open>
  \<open>RedisServer\<close> of \<open>byo_redis/server.py\<close>: executing a command with its guards, memory limit,
  logging and propagation; recovery at start; and the client connection loop. A coroutine is
  modelled up to its result; the write lock makes the part of \<open>_execute_inner\<close> that changes data
  one step with respect to other writers, snapshots and rewrites.
\<close>

section \<open>Executing a command\<close>

definition count_failed :: "server \<Rightarrow> server" where
  "count_failed s = s\<lparr>total_commands_failed := Suc (total_commands_failed s)\<rparr>"

definition error_reply :: "pystr \<Rightarrow> bytes option res" where
  "error_reply m = bind_res (encode_error (AStr m)) (\<lambda>b. Inr (Some b))"

definition misconf :: "pystr \<Rightarrow> bytes option res" where
  "misconf m = error_reply (lit ''MISCONF AOF persistence failed: '' @ m)"

definition log_command :: "bytes list \<Rightarrow> server \<Rightarrow> unit res \<times> server" where
  "log_command cmd s = (let (r, l) = aof_append cmd (aof s) in (r, s\<lparr>aof := l\<rparr>))"

definition propagate_command :: "bytes list \<Rightarrow> server \<Rightarrow> server" where
  "propagate_command cmd s = s\<lparr>master := propagate (write_raises s) cmd (master s)\<rparr>"

text \<open>Append a command to the log and, once it is there, hand it to the replicas.\<close>

definition log_and_propagate :: "bytes list \<Rightarrow> server \<Rightarrow> unit res \<times> server" where
  "log_and_propagate cmd s =
     (case log_command cmd s of
        (Inl e, s1) \<Rightarrow> (Inl e, s1)
      | (Inr _, s1) \<Rightarrow> (Inr (), propagate_command cmd s1))"

fun log_all :: "bytes list list \<Rightarrow> server \<Rightarrow> unit res \<times> server" where
  "log_all [] s = (Inr (), s)"
| "log_all (c # cs) s =
     (case log_and_propagate c s of (Inl e, s1) \<Rightarrow> (Inl e, s1) | (Inr _, s1) \<Rightarrow> log_all cs s1)"

definition encode_reply :: "pyobj \<Rightarrow> bytes option res" where
  "encode_reply result =
     (case encode_value result of
        Inl TypeError \<Rightarrow> error_reply (lit ''ERR internal error'')
      | Inl e \<Rightarrow> Inl e
      | Inr b \<Rightarrow> Inr (Some b))"

text \<open>What a write command is logged as: itself, then a \<open>DEL\<close> for every key evicted on its behalf.\<close>

definition persist :: "command_context \<Rightarrow> bool \<Rightarrow> bytes list \<Rightarrow> server \<Rightarrow> unit res \<times> server" where
  "persist ctx is_write evicted s =
     (if is_write \<and> \<not> is_loading ctx \<and> \<not> is_replica_client ctx \<and> \<not> is_replica (config s)
      then log_all (argv ctx # map (\<lambda>k. [''DEL'', k]) evicted) s
      else if is_write \<and> is_replica_client ctx \<and> \<not> is_loading ctx then log_command (argv ctx) s
      else (Inr (), s))"

definition upper_name :: "bytes list \<Rightarrow> bytes" where
  "upper_name cmd = (case cmd of [] \<Rightarrow> [] | c # _ \<Rightarrow> py_upper c)"

text \<open>From the handler's result on: memory limit, persistence, reply.\<close>

definition after_dispatch ::
  "command_context \<Rightarrow> bool \<Rightarrow> (bytes, key_entry) dict \<Rightarrow> pyobj \<Rightarrow> server \<Rightarrow> bytes option res \<times> server" where
  "after_dispatch ctx is_write before result s =
     (case (if is_write then on_db enforce_memory_limit s else (Inr [], s)) of
        (Inl MemoryLimitError, s1) \<Rightarrow>
          (error_reply (lit ''OOM command not allowed when used memory > maxmemory''),
           count_failed (s1\<lparr>db := load_entries before (db s1)\<rparr>))
      | (Inl e, s1) \<Rightarrow> (Inl e, s1)
      | (Inr evicted, s1) \<Rightarrow>
          if result = PNoReply then (Inr None, s1)
          else
            (case persist ctx is_write evicted s1 of
               (Inl (OSError m), s2) \<Rightarrow> (misconf m, count_failed s2)
             | (Inl e, s2) \<Rightarrow> (Inl e, s2)
             | (Inr _, s2) \<Rightarrow> (encode_reply result, s2)))"

definition execute_inner :: "registry \<Rightarrow> command_context \<Rightarrow> server \<Rightarrow> bytes option res \<times> server" where
  "execute_inner reg ctx s =
     (let upper = upper_name (argv ctx);
          is_write = upper \<in> set WRITE_COMMANDS;
          trusted = is_loading ctx \<or> is_replica_client ctx
      in if cfg_requirepass (config s) \<noteq> None \<and> connection_id ctx \<notin> authenticated s
            \<and> upper \<noteq> ''AUTH'' \<and> \<not> trusted
         then (error_reply (lit ''NOAUTH Authentication required.''), count_failed s)
         else if is_write \<and> cfg_aof_enabled (config s) \<and> \<not> healthy (aof s) \<and> \<not> trusted
         then (error_reply (lit ''MISCONF AOF persistence is unhealthy''), count_failed s)
         else
           (let (before, s1) = (if is_write then on_db snapshot s else ([], s))
            in (case dispatch reg ctx s1 of
                  (Inl (RespError m), s2) \<Rightarrow> (error_reply m, count_failed s2)
                | (Inl e, s2) \<Rightarrow> (error_reply (lit ''ERR internal error''), count_failed s2)
                | (Inr result, s2) \<Rightarrow> after_dispatch ctx is_write before result s2)))"

definition client_context :: "nat \<Rightarrow> bytes list \<Rightarrow> command_context" where
  "client_context conn cmd =
     \<lparr>argv = cmd, is_replica_client = False, is_loading = False, is_replica_link = False, connection_id = conn\<rparr>"

definition execute :: "nat \<Rightarrow> bytes list \<Rightarrow> server \<Rightarrow> bytes option res \<times> server" where
  "execute conn cmd s = execute_inner create_default_registry (client_context conn cmd) s"

text \<open>Commands from the master and from the log: replies are dropped, exceptions are not.\<close>

definition apply_replicated_command :: "bytes list \<Rightarrow> server \<Rightarrow> unit res \<times> server" where
  "apply_replicated_command cmd s =
     (let (r, s1) = execute_inner create_default_registry ((client_context 0 cmd)\<lparr>is_replica_client := True\<rparr>) s
      in (bind_res r (\<lambda>_. Inr ()), s1))"

definition apply_logged_command :: "bytes list \<Rightarrow> server \<Rightarrow> unit res \<times> server" where
  "apply_logged_command cmd s =
     (let (r, s1) = execute_inner create_default_registry
                      ((client_context 0 cmd)\<lparr>is_replica_client := True, is_loading := True\<rparr>) s
      in (bind_res r (\<lambda>_. Inr ()), s1))"

section \<open>Recovery at start\<close>

definition load_rdb_into :: "bytes \<Rightarrow> int \<Rightarrow> server \<Rightarrow> nat res \<times> server" where
  "load_rdb_into data max_bytes s =
     (let (now, s1) = server_now s
      in (case load_rdb_bytes data max_bytes now of
            Inl e \<Rightarrow> (Inl e, s1)
          | Inr es \<Rightarrow> (Inr (length es), s1\<lparr>db := load_entries es (db s1)\<rparr>)))"

definition load_persistence :: "server \<Rightarrow> unit res \<times> server" where
  "load_persistence s =
     (let c = config s; mx = cfg_persistence_max_load_bytes c
      in if cfg_aof_enabled c \<and> aof_file (aof s) \<noteq> []
         then (let (r, s1) = replay_aof apply_logged_command (Some (aof_file (aof s))) (cfg_proto_max_bulk_len c) mx s
               in (bind_res r (\<lambda>_. Inr ()), s1))
         else
           (case rdb_file s of
              None \<Rightarrow> (Inr (), s)
            | Some data \<Rightarrow>
                if data = [] then (Inr (), s)
                else (let (r, s1) = load_rdb_into data mx s in (bind_res r (\<lambda>_. Inr ()), s1))))"

section \<open>Client connections\<close>

text \<open>\<open>_normalize_argv\<close>.\<close>

definition class_name :: "pyobj \<Rightarrow> string" where
  "class_name v =
     (case v of
        PNone \<Rightarrow> ''NoneType'' | PBool _ \<Rightarrow> ''bool'' | PInt _ \<Rightarrow> ''int'' | PBytes _ \<Rightarrow> ''bytes''
      | PStr _ \<Rightarrow> ''str'' | PList _ \<Rightarrow> ''list'' | PSimple _ \<Rightarrow> ''byo_redis.commands.connection_cmds._Simple''
      | PErrorMsg _ \<Rightarrow> ''byo_redis.protocol.parser.ProtocolErrorMsg'' | PNoReply \<Rightarrow> ''object'')"

definition normalize_item :: "pyobj \<Rightarrow> bytes res" where
  "normalize_item item =
     (case item of
        PBytes b \<Rightarrow> Inr b
      | PStr t \<Rightarrow> utf8_encode t
      | PNone \<Rightarrow> Inr []
      | _ \<Rightarrow> Inl (ProtocolError (BadCommandArg (class_name item))))"

definition normalize_argv :: "pyobj \<Rightarrow> bytes list res" where
  "normalize_argv msg =
     (case msg of PList xs \<Rightarrow> map_res normalize_item xs | _ \<Rightarrow> Inl (ProtocolError ExpectedArrayCommand))"

text \<open>The texts of the protocol errors; \<open>{line!r}\<close> is the \<open>repr\<close> of a byte string.\<close>

definition hex_digit :: "nat \<Rightarrow> nat" where
  "hex_digit d = (if d < 10 then 48 + d else 87 + d)"

definition hex_escape :: "nat \<Rightarrow> pystr" where
  "hex_escape c = [92, 120, hex_digit (c div 16), hex_digit (c mod 16)]"

definition escape_ascii :: "nat \<Rightarrow> nat \<Rightarrow> pystr" where
  "escape_ascii q c =
     (if c = q \<or> c = 92 then [92, c]
      else if c = 9 then [92, 116] else if c = 10 then [92, 110] else if c = 13 then [92, 114]
      else if c < 32 \<or> c = 127 then hex_escape c
      else [c])"

definition repr_quote :: "nat list \<Rightarrow> nat" where
  "repr_quote cs = (if 39 \<in> set cs \<and> 34 \<notin> set cs then 34 else 39)"

definition bytes_repr :: "bytes \<Rightarrow> pystr" where
  "bytes_repr b =
     (let cs = map byte_val b; q = repr_quote cs
      in [98, q] @ concat (map (\<lambda>c. if c \<ge> 128 then hex_escape c else escape_ascii q c) cs) @ [q])"

text \<open>\<open>repr(chr(c))\<close> for a byte: the C1 controls, the no-break space and the soft hyphen are escaped.\<close>

definition char_repr :: "char \<Rightarrow> pystr" where
  "char_repr b =
     (let c = byte_val b; q = repr_quote [c]
      in [q] @ (if 128 \<le> c \<and> c \<le> 160 \<or> c = 173 then hex_escape c
                else if c \<ge> 128 then [c] else escape_ascii q c) @ [q])"

definition proto_text :: "proto_error \<Rightarrow> pystr" where
  "proto_text e =
     (case e of
        BufferLimit n \<Rightarrow> lit ''input buffer exceeds max_buffer_bytes ('' @ lit (dec_int n) @ lit '')''
      | InvalidPrefix c \<Rightarrow> lit ''invalid RESP type prefix: '' @ char_repr c
      | InvalidInteger l \<Rightarrow> lit ''invalid integer: '' @ bytes_repr l
      | InvalidBulkLength l \<Rightarrow> lit ''invalid bulk length: '' @ bytes_repr l
      | NegativeBulkLength n \<Rightarrow> lit ''invalid bulk length: '' @ lit (dec_int n)
      | BulkTooLong n \<Rightarrow> lit ''bulk length '' @ lit (dec_int n) @ lit '' exceeds limit''
      | MissingTrailer \<Rightarrow> lit ''bulk string missing CRLF trailer''
      | ArrayTooDeep n \<Rightarrow> lit ''array nesting exceeds limit ('' @ lit (dec_int n) @ lit '')''
      | InvalidArrayLength l \<Rightarrow> lit ''invalid array length: '' @ bytes_repr l
      | NegativeArrayLength n \<Rightarrow> lit ''invalid array length: '' @ lit (dec_int n)
      | ArrayTooLong n \<Rightarrow> lit ''array length '' @ lit (dec_int n) @ lit '' exceeds limit''
      | ExpectedArrayCommand \<Rightarrow> lit ''expected array command''
      | BadCommandArg cls \<Rightarrow>
          lit ''command arg must be bulk string, got <class '' @ quote @ lit cls @ quote @ lit ''>'')"

definition protocol_error_reply :: "proto_error \<Rightarrow> bytes res" where
  "protocol_error_reply e = encode_error (AStr (lit ''ERR protocol error: '' @ proto_text e))"

text \<open>
  How serving a batch of messages ends: the connection stays open, is closed, is handed over to
  replication, or is closed by an exception nobody handles.
\<close>

datatype verdict = Continue | Close | HoldReplica | Crash py_exn

definition opt_bytes :: "bytes option \<Rightarrow> bytes" where
  "opt_bytes r = (case r of None \<Rightarrow> [] | Some b \<Rightarrow> b)"

text \<open>\<open>PSYNC\<close> on a master, which the connection loop handles itself.\<close>

definition serve_psync :: "nat \<Rightarrow> server \<Rightarrow> bytes \<times> verdict \<times> server" where
  "serve_psync conn s =
     (case full_resync conn (db s) (master s) of
        (Inr _, d, m) \<Rightarrow> ([], HoldReplica, s\<lparr>db := d, master := m\<rparr>)
      | (Inl _, d, m) \<Rightarrow>
          ((case encode_error (AStr (lit ''ERR PSYNC failed'')) of Inr b \<Rightarrow> b | Inl _ \<Rightarrow> []), Close,
           s\<lparr>db := d, master := unregister conn m\<rparr>))"

definition too_many_failures :: "nat \<Rightarrow> server \<Rightarrow> bool" where
  "too_many_failures conn s \<longleftrightarrow>
     int (case dict_get (authentication_failures s) conn of None \<Rightarrow> 0 | Some n \<Rightarrow> n)
       \<ge> cfg_max_auth_failures (config s)"

definition serve_command :: "nat \<Rightarrow> bytes list \<Rightarrow> server \<Rightarrow> bytes \<times> verdict \<times> server" where
  "serve_command conn cmd s =
     (let name = upper_name cmd
      in if name = ''PSYNC'' \<and> \<not> is_replica (config s) then serve_psync conn s
         else
           (case execute conn cmd s of
              (Inl e, s1) \<Rightarrow> ([], Crash e, s1)
            | (Inr r, s1) \<Rightarrow>
                (opt_bytes r, if name = ''AUTH'' \<and> too_many_failures conn s1 then Close else Continue, s1)))"

definition serve_message :: "nat \<Rightarrow> pyobj \<Rightarrow> server \<Rightarrow> bytes \<times> verdict \<times> server" where
  "serve_message conn msg s =
     (let s1 = s\<lparr>total_commands_processed := Suc (total_commands_processed s)\<rparr>
      in (case normalize_argv msg of
            Inl (ProtocolError e) \<Rightarrow>
              (case protocol_error_reply e of Inr b \<Rightarrow> (b, Continue, s1) | Inl x \<Rightarrow> ([], Crash x, s1))
          | Inl e \<Rightarrow> ([], Crash e, s1)
          | Inr cmd \<Rightarrow> if cmd = [] then ([], Continue, s1) else serve_command conn cmd s1))"

fun serve_messages :: "nat \<Rightarrow> pyobj list \<Rightarrow> server \<Rightarrow> bytes \<times> verdict \<times> server" where
  "serve_messages conn [] s = ([], Continue, s)"
| "serve_messages conn (msg # msgs) s =
     (case serve_message conn msg s of
        (out, Continue, s1) \<Rightarrow>
          (let (out', v, s2) = serve_messages conn msgs s1 in (out @ out', v, s2))
      | (out, v, s1) \<Rightarrow> (out, v, s1))"

text \<open>One read from the socket: feed the parser, serve the complete messages.\<close>

definition client_data ::
  "nat \<Rightarrow> resp_parser \<Rightarrow> bytes \<Rightarrow> server \<Rightarrow> bytes \<times> verdict \<times> resp_parser \<times> server" where
  "client_data conn p data s =
     (if data = [] then ([], Close, p, s)
      else
        (case feed p data of
           (Inl (ProtocolError e), p1) \<Rightarrow>
             ((case protocol_error_reply e of Inr b \<Rightarrow> b | Inl _ \<Rightarrow> []), Close, p1, s)
         | (Inl e, p1) \<Rightarrow> ([], Crash e, p1, s)
         | (Inr msgs, p1) \<Rightarrow> (let (out, v, s1) = serve_messages conn msgs s in (out, v, p1, s1))))"

definition client_parser :: "config \<Rightarrow> resp_parser" where
  "client_parser c =
     RespParser (cfg_proto_max_bulk_len c) (cfg_max_buffer_bytes c) (cfg_proto_max_array_len c)
       (cfg_max_array_depth c)"

text \<open>A new connection: its id, or the refusal that is sent to it.\<close>

definition accept_client :: "server \<Rightarrow> (bytes res + nat) \<times> server" where
  "accept_client s =
     (let s1 = s\<lparr>total_connections_received := Suc (total_connections_received s)\<rparr>
      in if int (client_count s) \<ge> cfg_max_clients (config s)
         then (Inl (encode_error (AStr (lit ''ERR max number of clients reached''))),
               s1\<lparr>rejected_connections := Suc (rejected_connections s)\<rparr>)
         else (Inr (Suc (conn_seq s)),
               s1\<lparr>client_count := Suc (client_count s), conn_seq := Suc (conn_seq s),
                  open_writers := insert (Suc (conn_seq s)) (open_writers s)\<rparr>))"

text \<open>The \<open>finally\<close> block of \<open>handle_client\<close>.\<close>

definition close_client :: "nat \<Rightarrow> server \<Rightarrow> server" where
  "close_client conn s =
     s\<lparr>master := unregister conn (master s), open_writers := open_writers s - {conn},
       authenticated := authenticated s - {conn},
       authentication_failures := dict_del conn (authentication_failures s),
       client_count := client_count s - 1\<rparr>"

end
