(* ===== verification/Server_Inv.thy ===== *)
theory Server_Inv
  imports Server Store_Machine
begin

text \<open>
  The contract every command handler keeps, as a locale, and its discharge for the handlers of the
  default registry and for \<open>dispatch\<close>: the keyspace invariant is preserved, the clock only moves on,
  configuration and log are not touched, a handler that raises leaves the visible keyspace as it
  was, and only a correct \<open>AUTH\<close> authenticates a connection, and only its own.
\<close>

section \<open>Progress of the clock\<close>

text \<open>Readings of the clock are only added, and the memory limit stays as configured.\<close>

definition clock_step :: "store \<Rightarrow> store \<Rightarrow> bool" where
  "clock_step s t \<longleftrightarrow> clock t = clock s \<and> ticks s \<le> ticks t \<and> maxmemory_bytes t = maxmemory_bytes s"

lemma clock_step_refl [simp]: "clock_step s s"
  by (simp add: clock_step_def)

lemma clock_step_trans: "clock_step s t \<Longrightarrow> clock_step t u \<Longrightarrow> clock_step s u"
  by (simp add: clock_step_def)

lemma clock_step_simps [simp]:
  "clock_step s (drop_key k t) = clock_step s t" "clock_step s (put_entry k e t) = clock_step s t"
  "clock_step s (touch_access k t) = clock_step s t" "clock_step s (drop_keys ks t) = clock_step s t"
  "clock_step s (load_entries es t) = clock_step s t" "clock_step s (t\<lparr>evicted_keys := n\<rparr>) = clock_step s t"
  "clock_step s (s\<lparr>ticks := Suc (ticks s)\<rparr>)"
  by (simp_all add: clock_step_def load_entries_def put_entry_def touch_access_def Let_def)

lemma clock_step_tick: "clock_step s t \<Longrightarrow> clock_step s (t\<lparr>ticks := Suc (ticks t)\<rparr>)"
  by (simp add: clock_step_def)

lemma clock_step_touch: "clock_step s t \<Longrightarrow> clock_step s (snd (touch k t))"
  by (auto simp: touch_def is_expired_now_eq Let_def clock_step_tick split: option.splits)

lemma clock_step_purge: "clock_step s t \<Longrightarrow> clock_step s (purge_expired t)"
  by (simp add: purge_expired_def now_ms_def clock_step_tick)

lemma clock_step_delete: "clock_step s t \<Longrightarrow> clock_step s (snd (delete_loop ks r t))"
  by (induction ks arbitrary: r t)
    (auto simp: is_expired_now_eq clock_step_tick split: option.splits)

lemma clock_step_evict: "clock_step s t \<Longrightarrow> clock_step s (snd (evict_loop ev t))"
proof (induction ev t rule: evict_loop.induct)
  case (1 ev t)
  have p: "clock_step s (purge_expired t)" by (rule clock_step_purge [OF 1(2)])
  obtain r where m: "memory_usage t = (r, purge_expired t)" by (simp add: memory_usage_def Let_def)
  show ?case
    using 1(1) p m
    by (subst evict_loop.simps) (auto simp: evict_key_def split: sum.splits)
qed

lemma store_clock_steps:
  "clock_step s (set_string k v ex s)" "clock_step s (snd (get_string k s))" "clock_step s (snd (lpush k els s))"
  "clock_step s (snd (rpop k s))" "clock_step s (snd (hset k items s))" "clock_step s (snd (hgetall k s))"
  "clock_step s (snd (delete ks s))" "clock_step s (snd (expire k secs s))" "clock_step s (snd (ttl k s))"
  "clock_step s (snd (snapshot s))" "clock_step s (snd (dbsize s))" "clock_step s (snd (memory_usage s))"
  "clock_step s (snd (keyspace_stats s))" "clock_step s (snd (enforce_memory_limit s))"
  "clock_step s (snd (now_ms s))"
proof -
  have t: "clock_step s (snd (touch k s))" by (rule clock_step_touch) simp
  obtain e s1 where op: "touch k s = (e, s1)" by (cases "touch k s")
  with t have s1: "clock_step s s1" by simp
  show "clock_step s (set_string k v ex s)"
    by (auto simp: set_string_def now_ms_def split: option.splits)
  show "clock_step s (snd (get_string k s))" "clock_step s (snd (lpush k els s))" "clock_step s (snd (rpop k s))"
    "clock_step s (snd (hset k items s))" "clock_step s (snd (hgetall k s))"
    using op s1
    by (auto simp: get_string_def lpush_def rpop_def hset_def hgetall_def Let_def hset_loop_spec
        split: option.splits redis_value.splits)
  show "clock_step s (snd (delete ks s))" by (simp add: delete_def clock_step_delete)
  show "clock_step s (snd (expire k secs s))"
    using op s1 by (auto simp: expire_def now_ms_def clock_step_tick split: option.splits)
  show "clock_step s (snd (ttl k s))"
    by (auto simp: ttl_def is_expired_now_eq ttl_seconds_now_def now_ms_def Let_def clock_step_def
        split: option.splits)
  show "clock_step s (snd (snapshot s))"
    by (simp add: snapshot_def iter_entries_def now_ms_def Let_def)
  show "clock_step s (snd (dbsize s))" "clock_step s (snd (memory_usage s))"
    by (simp_all add: dbsize_def memory_usage_def Let_def clock_step_purge)
  show "clock_step s (snd (keyspace_stats s))"
    by (simp add: keyspace_stats_def now_ms_def Let_def clock_step_tick clock_step_purge)
  show "clock_step s (snd (enforce_memory_limit s))"
    by (simp add: enforce_memory_limit_def clock_step_evict)
  show "clock_step s (snd (now_ms s))" by (simp add: now_ms_def)
qed

text \<open>With a clock that is never set back, readings grow.\<close>

lemma reading_mono: "mono (clock s) \<Longrightarrow> clock_step s t \<Longrightarrow> reading s \<le> reading t"
  by (simp add: reading_def clock_step_def mono_def)

section \<open>The contract of a handler\<close>

text \<open>The password check a connection passes.\<close>

definition right_password :: "command_context \<Rightarrow> server \<Rightarrow> bool" where
  "right_password ctx s \<longleftrightarrow>
     (\<exists>name pw. argv ctx = [name, pw] \<and> (\<exists>cfg. cfg_requirepass (config s) = Some cfg \<and> utf8_encode cfg = Inr pw))"

locale handler_contract =
  fixes h :: handler
  assumes keeps_inv: "store_inv (db s) \<Longrightarrow> store_inv (db (snd (h ctx s)))"
    and keeps_clock: "clock_step (db s) (db (snd (h ctx s)))"
    and keeps_config: "config (snd (h ctx s)) = config s"
    and keeps_aof: "aof (snd (h ctx s)) = aof s"
    and error_invisible: "store_inv (db s) \<Longrightarrow> mono (clock (db s)) \<Longrightarrow> fst (h ctx s) = Inl e \<Longrightarrow>
      reading (db (snd (h ctx s))) \<le> m \<Longrightarrow> live m (db (snd (h ctx s))) = live m (db s)"
    and auth_only: "c \<in> authenticated (snd (h ctx s)) \<Longrightarrow>
      c \<in> authenticated s \<or> c = connection_id ctx \<and> right_password ctx s"

text \<open>A handler that only runs a store operation, with its store-level obligations.\<close>

lemma store_view_restored:
  "n \<le> m \<Longrightarrow> (live m s)(k := alive m (live n s k)) = live m s"
  by (auto simp: live_def alive_alive_later)

lemma key_op_error_invisible:
  assumes "key_op oper spec" and "store_inv s" and "reading s \<le> m"
    and "fst (oper k s) = Inl e" and "\<And>x e. fst (spec x) = Inl e \<Longrightarrow> snd (spec x) = x"
  shows "live m (snd (oper k s)) = live m s"
proof -
  have "fst (spec (live (reading s) s k)) = Inl e"
    using key_op.op_result [OF assms(1,2)] assms(4) by metis
  then have "snd (spec (live (reading s) s k)) = live (reading s) s k" by (rule assms(5))
  then show ?thesis
    by (simp add: key_op.op_view [OF assms(1,2,3)] store_view_restored [OF assms(3)])
qed

definition store_handler :: "handler \<Rightarrow> bool" where
  "store_handler h \<longleftrightarrow>
     (\<forall>ctx s. \<exists>r d. h ctx s = (r, s\<lparr>db := d\<rparr>) \<and> clock_step (db s) d \<and> (store_inv (db s) \<longrightarrow> store_inv d)
       \<and> (\<forall>e m. r = Inl e \<longrightarrow> store_inv (db s) \<longrightarrow> reading (db s) \<le> m \<longrightarrow> live m d = live m (db s)))"

lemma store_handlerE:
  assumes "store_handler h"
  obtains d where "snd (h ctx s) = s\<lparr>db := d\<rparr>" "clock_step (db s) d" "store_inv (db s) \<Longrightarrow> store_inv d"
    "\<And>e m. fst (h ctx s) = Inl e \<Longrightarrow> store_inv (db s) \<Longrightarrow> reading (db s) \<le> m \<Longrightarrow> live m d = live m (db s)"
proof -
  from assms obtain r d where "h ctx s = (r, s\<lparr>db := d\<rparr>)" "clock_step (db s) d" "store_inv (db s) \<longrightarrow> store_inv d"
    "\<forall>e m. r = Inl e \<longrightarrow> store_inv (db s) \<longrightarrow> reading (db s) \<le> m \<longrightarrow> live m d = live m (db s)"
    unfolding store_handler_def by blast
  then show thesis by (intro that [of d]) auto
qed

lemma store_handler_contract:
  assumes "store_handler h"
  shows "handler_contract h"
proof
  fix s :: server and ctx e m c
  from assms obtain d where d: "snd (h ctx s) = s\<lparr>db := d\<rparr>" "clock_step (db s) d" "store_inv (db s) \<Longrightarrow> store_inv d"
    "\<And>e m. fst (h ctx s) = Inl e \<Longrightarrow> store_inv (db s) \<Longrightarrow> reading (db s) \<le> m \<Longrightarrow> live m d = live m (db s)"
    by (rule store_handlerE [of h ctx s]) blast
  show "store_inv (db s) \<Longrightarrow> store_inv (db (snd (h ctx s)))" using d by simp
  show "clock_step (db s) (db (snd (h ctx s)))" using d by simp
  show "config (snd (h ctx s)) = config s" "aof (snd (h ctx s)) = aof s" using d by simp_all
  show "c \<in> authenticated (snd (h ctx s)) \<Longrightarrow>
      c \<in> authenticated s \<or> c = connection_id ctx \<and> right_password ctx s" using d by simp
  assume "store_inv (db s)" "mono (clock (db s))" "fst (h ctx s) = Inl e" "reading (db (snd (h ctx s))) \<le> m"
  with d reading_mono [OF _ d(2)] show "live m (db (snd (h ctx s))) = live m (db s)" by simp
qed

section \<open>The handlers keep the contract\<close>

lemma store_handlerI:
  assumes "\<And>ctx s. \<exists>r d. h ctx s = (r, s\<lparr>db := d\<rparr>) \<and> clock_step (db s) d \<and> (store_inv (db s) \<longrightarrow> store_inv d)
       \<and> (\<forall>e m. r = Inl e \<longrightarrow> store_inv (db s) \<longrightarrow> reading (db s) \<le> m \<longrightarrow> live m d = live m (db s))"
  shows "store_handler h"
  using assms unfolding store_handler_def by blast

text \<open>Handlers that check their arity and run one store operation.\<close>

definition quiet_on_error :: "(store \<Rightarrow> 'r res \<times> store) \<Rightarrow> bool" where
  "quiet_on_error f \<longleftrightarrow>
     (\<forall>s. clock_step s (snd (f s)) \<and> (store_inv s \<longrightarrow> store_inv (snd (f s)))
       \<and> (\<forall>e m. fst (f s) = Inl e \<longrightarrow> store_inv s \<longrightarrow> reading s \<le> m \<longrightarrow> live m (snd (f s)) = live m s))"

lemma store_call_result:
  "\<exists>r. store_call f wrap s = (r, s\<lparr>db := snd (f (db s))\<rparr>) \<and> (\<forall>e. r = Inl e \<longrightarrow> (\<exists>e'. fst (f (db s)) = Inl e'))"
  by (cases "f (db s)") (auto simp: store_call_def on_db_def split: sum.splits py_exn.splits)

lemma guarded_store_call:
  assumes "\<And>ctx s. h ctx s = (if guard ctx then (Inl (err ctx), s) else store_call (f ctx) wrap s)"
    and "\<And>ctx. quiet_on_error (f ctx)"
  shows "store_handler h"
proof (rule store_handlerI)
  fix ctx s
  obtain r where r: "store_call (f ctx) wrap s = (r, s\<lparr>db := snd (f ctx (db s))\<rparr>)"
    "\<forall>e. r = Inl e \<longrightarrow> (\<exists>e'. fst (f ctx (db s)) = Inl e')"
    using store_call_result by blast
  show "\<exists>r d. h ctx s = (r, s\<lparr>db := d\<rparr>) \<and> clock_step (db s) d \<and> (store_inv (db s) \<longrightarrow> store_inv d)
       \<and> (\<forall>e m. r = Inl e \<longrightarrow> store_inv (db s) \<longrightarrow> reading (db s) \<le> m \<longrightarrow> live m d = live m (db s))"
  proof (cases "guard ctx")
    case True
    then show ?thesis by (intro exI [of _ "Inl (err ctx)"] exI [of _ "db s"]) (simp add: assms(1))
  next
    case False
    have "h ctx s = (r, s\<lparr>db := snd (f ctx (db s))\<rparr>)" using False assms(1) r by simp
    then show ?thesis using assms(2) [of ctx] r(2) unfolding quiet_on_error_def by blast
  qed
qed

lemma quiet_key_op:
  assumes "key_op oper spec" and "\<And>s. clock_step s (snd (oper k s))"
    and "\<And>x e. fst (spec x) = Inl e \<Longrightarrow> snd (spec x) = x"
  shows "quiet_on_error (oper k)"
  unfolding quiet_on_error_def
proof (intro allI conjI impI)
  fix s e m
  show "clock_step s (snd (oper k s))" by (rule assms(2))
  show "store_inv s \<Longrightarrow> store_inv (snd (oper k s))" by (rule key_op.op_inv [OF assms(1)])
  assume "fst (oper k s) = Inl e" "store_inv s" "reading s \<le> m"
  then show "live m (snd (oper k s)) = live m s"
    using key_op_error_invisible [OF assms(1)] assms(3) by metis
qed

lemma spec_errors:
  "fst (get_spec x) = Inl e \<Longrightarrow> snd (get_spec x) = x"
  "fst (lpush_spec els x) = Inl e \<Longrightarrow> snd (lpush_spec els x) = x"
  "fst (rpop_spec x) = Inl e \<Longrightarrow> snd (rpop_spec x) = x"
  "fst (hset_spec items x) = Inl e \<Longrightarrow> snd (hset_spec items x) = x"
  "fst (hgetall_spec x) = Inl e \<Longrightarrow> snd (hgetall_spec x) = x"
  by (auto simp: get_spec_def lpush_spec_def rpop_spec_def hset_spec_def hgetall_spec_def
      split: option.splits redis_value.splits if_splits)

lemma quiet_ops:
  "quiet_on_error (lpush k els)" "quiet_on_error (rpop k)" "quiet_on_error (hset k items)"
proof -
  show "quiet_on_error (lpush k els)"
    by (rule quiet_key_op [OF key_op_lpush]) (auto simp: store_clock_steps dest: spec_errors)
  show "quiet_on_error (rpop k)"
    by (rule quiet_key_op [OF rpop_op.key_op_axioms]) (auto simp: store_clock_steps dest: spec_errors)
  show "quiet_on_error (hset k items)"
    by (rule quiet_key_op [OF key_op_hset]) (auto simp: store_clock_steps dest: spec_errors)
qed

lemma store_call_handlers:
  "store_handler cmd_lpush" "store_handler cmd_rpop"
proof -
  show "store_handler cmd_lpush"
    by (rule guarded_store_call [OF _ quiet_ops(1)]) (auto simp: cmd_lpush_def fun_eq_iff)
  show "store_handler cmd_rpop"
    by (rule guarded_store_call [OF _ quiet_ops(2)]) (auto simp: cmd_rpop_def fun_eq_iff)
qed

lemma hset_handler: "store_handler cmd_hset"
proof (rule guarded_store_call [OF _ quiet_ops(3)])
  fix ctx s
  show "cmd_hset ctx s =
      (if length (argv ctx) < 4 \<or> length (argv ctx) mod 2 \<noteq> 0 then (Inl (wrong_arity ''hset''), s)
       else store_call (hset (argv ctx ! 1) (pair_up (drop 2 (argv ctx)))) (\<lambda>n. PInt (int n)) s)"
    by (auto simp: cmd_hset_def Let_def mod_Suc)
qed

text \<open>Handlers that never fail once their arguments are accepted.\<close>

lemma total_handler:
  assumes "\<And>ctx s. (\<exists>e. h ctx s = (Inl e, s)) \<or>
      (\<exists>r d. h ctx s = (Inr r, s\<lparr>db := d\<rparr>) \<and> clock_step (db s) d \<and> (store_inv (db s) \<longrightarrow> store_inv d))"
  shows "store_handler h"
proof (rule store_handlerI)
  fix ctx s
  consider (err) e where "h ctx s = (Inl e, s\<lparr>db := db s\<rparr>)"
    | (ok) r d where "h ctx s = (Inr r, s\<lparr>db := d\<rparr>)" "clock_step (db s) d" "store_inv (db s) \<longrightarrow> store_inv d"
    using assms [of ctx s] by auto
  then show "\<exists>r d. h ctx s = (r, s\<lparr>db := d\<rparr>) \<and> clock_step (db s) d \<and> (store_inv (db s) \<longrightarrow> store_inv d)
       \<and> (\<forall>e m. r = Inl e \<longrightarrow> store_inv (db s) \<longrightarrow> reading (db s) \<le> m \<longrightarrow> live m d = live m (db s))"
  proof cases
    case err
    then show ?thesis by (intro exI [of _ "Inl e"] exI [of _ "db s"]) simp
  next
    case ok
    then show ?thesis by (intro exI [of _ "Inr r"] exI [of _ d]) simp
  qed
qed

lemma total_handlers:
  "store_handler cmd_set" "store_handler cmd_expire" "store_handler cmd_del"
proof -
  show "store_handler cmd_set"
    by (rule total_handler) (auto simp: cmd_set_def store_clock_steps set_string_inv split: sum.splits)
  show "store_handler cmd_expire"
    by (rule total_handler)
      (auto simp: cmd_expire_def on_db_def Let_def split_beta store_clock_steps expire_op(3) split: option.splits)
  show "store_handler cmd_del"
    by (rule total_handler) (auto simp: cmd_del_def on_db_def Let_def split_beta store_clock_steps delete_inv)
qed

section \<open>Steps no client can see\<close>

text \<open>
  A change of the store that keeps the invariant and the view, at any time from its last reading
  on, when the clock is never set back.
\<close>

definition quiet :: "store \<Rightarrow> store \<Rightarrow> bool" where
  "quiet s t \<longleftrightarrow>
     clock_step s t \<and> (store_inv s \<longrightarrow> store_inv t)
     \<and> (store_inv s \<longrightarrow> mono (clock s) \<longrightarrow> (\<forall>m\<ge>reading t. live m t = live m s))"

lemma quiet_refl [simp]: "quiet s s"
  by (simp add: quiet_def)

lemma quiet_trans:
  assumes "quiet s t" and "quiet t u"
  shows "quiet s u"
proof -
  have st: "clock_step s t" "clock_step t u" "clock_step s u"
    using assms clock_step_trans by (auto simp: quiet_def)
  have "live m u = live m s" if "store_inv s" "mono (clock s)" "reading u \<le> m" for m
  proof -
    have t: "store_inv t" "clock t = clock s" using assms(1) that by (auto simp: quiet_def clock_step_def)
    then have "reading t \<le> reading u" using reading_mono [OF _ st(2)] that(2) by simp
    with assms that t show ?thesis unfolding quiet_def by (metis order_trans)
  qed
  with assms st show ?thesis by (simp add: quiet_def)
qed

lemma quiet_tick: "quiet s (s\<lparr>ticks := Suc (ticks s)\<rparr>)"
  by (simp add: quiet_def)

lemma quiet_purge: "quiet s (purge_expired s)"
  using purge_view [of s] reading_mono [of s "purge_expired s"]
  by (auto simp: quiet_def clock_step_purge purge_inv dest: order_trans)

lemma snapshot_snd: "snd (snapshot s) = purge_expired s"
  by (simp add: snapshot_def iter_entries_def purge_expired_def now_ms_def Let_def)

lemma quiet_reads:
  "quiet s (snd (now_ms s))" "quiet s (snd (snapshot s))" "quiet s (snd (memory_usage s))"
  "quiet s (snd (dbsize s))" "quiet s (snd (keyspace_stats s))" "quiet s (snd (dump_rdb_bytes s))"
  by (simp_all add: now_ms_def quiet_tick snapshot_snd quiet_purge memory_usage_def dbsize_def
      keyspace_stats_def Let_def quiet_trans [OF quiet_purge quiet_tick] dump_rdb_bytes_def split_beta)

text \<open>A handler that only reads: nothing a client can see changes.\<close>

locale quiet_handler =
  fixes h :: handler
  assumes quiet_db: "quiet (db s) (db (snd (h ctx s)))"
    and quiet_frame: "config (snd (h ctx s)) = config s \<and> aof (snd (h ctx s)) = aof s"
    and quiet_auth: "c \<in> authenticated (snd (h ctx s)) \<Longrightarrow>
      c \<in> authenticated s \<or> c = connection_id ctx \<and> right_password ctx s"

sublocale quiet_handler \<subseteq> handler_contract h
  using quiet_db quiet_frame quiet_auth by unfold_locales (auto simp: quiet_def)

context quiet_handler
begin

lemma is_contract: "handler_contract h"
  by unfold_locales

end

lemma quiet_on_db: "(\<And>d. quiet d (snd (f d))) \<Longrightarrow> quiet (db s) (db (snd (on_db f s)))"
  by (simp add: on_db_simps)

lemma uptime_frame:
  "quiet (db s) (db (snd (uptime_seconds s)))" "\<exists>d. snd (uptime_seconds s) = s\<lparr>db := d\<rparr>"
  by (auto simp: uptime_seconds_def server_now_def split_beta Let_def quiet_on_db quiet_reads on_db_simps)
    (metis server.surjective server.update_convs(1))

lemma info_quiet: "quiet_handler cmd_info"
proof
  fix ctx s
  obtain st s1 where 1: "on_db keyspace_stats s = (st, s1)" by fastforce
  obtain up s2 where 2: "uptime_seconds s1 = (up, s2)" by fastforce
  obtain us s3 where 3: "on_db memory_usage s2 = (us, s3)" by fastforce
  have res: "snd (cmd_info ctx s) = (if length (argv ctx) > 2 then s else s3)"
    by (auto simp: cmd_info_def 1 2 3 split: sum.splits)
  have "quiet (db s) (db s1)" using quiet_on_db [OF quiet_reads(5), of s] 1 by simp
  moreover have "quiet (db s1) (db s2)" using uptime_frame(1) [of s1] 2 by simp
  moreover have "quiet (db s2) (db s3)" using quiet_on_db [OF quiet_reads(3), of s2] 3 by simp
  ultimately have q: "quiet (db s) (db s3)" using quiet_trans by blast
  obtain d where d: "s3 = s\<lparr>db := d\<rparr>"
  proof -
    obtain d2 where "s2 = s1\<lparr>db := d2\<rparr>" using uptime_frame(2) [of s1] 2 by auto
    moreover have "s1 = s\<lparr>db := db s1\<rparr>" "s3 = s2\<lparr>db := db s3\<rparr>"
      using 1 3 on_db_simps(2) [of keyspace_stats s] on_db_simps(2) [of memory_usage s2] by auto
    ultimately show ?thesis by (metis server.update_convs(1) server.surjective that)
  qed
  show "quiet (db s) (db (snd (cmd_info ctx s)))" using q by (simp add: res)
  show "config (snd (cmd_info ctx s)) = config s \<and> aof (snd (cmd_info ctx s)) = aof s" by (simp add: res d)
  show "c \<in> authenticated (snd (cmd_info ctx s)) \<Longrightarrow>
      c \<in> authenticated s \<or> c = connection_id ctx \<and> right_password ctx s" for c
    by (auto simp: res d split: if_splits)
qed

lemma dump_rdb_frame:
  "quiet (db s) (db (snd (dump_rdb s))) \<and> config (snd (dump_rdb s)) = config s
   \<and> aof (snd (dump_rdb s)) = aof s \<and> authenticated (snd (dump_rdb s)) = authenticated s"
  using quiet_on_db [OF quiet_reads(6), of s]
  by (auto simp: dump_rdb_def write_rdb_def on_db_def Let_def split_beta split: sum.splits)

lemma save_frame:
  "quiet (db s) (db (snd (save_rdb_sync s))) \<and> config (snd (save_rdb_sync s)) = config s
   \<and> aof (snd (save_rdb_sync s)) = aof s \<and> authenticated (snd (save_rdb_sync s)) = authenticated s"
proof (cases "dump_rdb s")
  case (Pair r s1)
  with dump_rdb_frame [of s] quiet_trans [OF _ quiet_reads(1)] show ?thesis
    by (auto simp: save_rdb_sync_def server_now_def on_db_def Let_def split_beta split: sum.splits)
qed

lemma save_quiet: "quiet_handler cmd_save"
proof
  fix ctx s c
  have "snd (cmd_save ctx s) = (if length (argv ctx) \<noteq> 1 then s else snd (save_rdb_sync s))"
    by (auto simp: cmd_save_def split: prod.splits sum.splits py_exn.splits)
  then show "quiet (db s) (db (snd (cmd_save ctx s)))"
    "config (snd (cmd_save ctx s)) = config s \<and> aof (snd (cmd_save ctx s)) = aof s"
    "c \<in> authenticated (snd (cmd_save ctx s)) \<Longrightarrow>
      c \<in> authenticated s \<or> c = connection_id ctx \<and> right_password ctx s"
    using save_frame [of s] by (auto split: if_splits)
qed

lemma jobs_quiet: "quiet_handler cmd_bgsave" "quiet_handler cmd_bgrewriteaof"
  by (unfold_locales; auto simp: cmd_bgsave_def cmd_bgrewriteaof_def schedule_bgsave_def
      schedule_aof_rewrite_def Let_def split: if_splits)+

lemma auth_quiet: "quiet_handler cmd_auth"
proof
  fix ctx :: command_context and s :: server and c
  obtain r s1 where a: "authenticate (connection_id ctx) (argv ctx ! 1) s = (r, s1)" by fastforce
  have res: "snd (cmd_auth ctx s) = (if length (argv ctx) \<noteq> 2 \<or> cfg_requirepass (config s) = None then s else s1)"
    by (auto simp: cmd_auth_def a [simplified] split: sum.splits)
  have f: "db s1 = db s" "config s1 = config s" "aof s1 = aof s"
    using a by (auto simp: authenticate_def split: option.splits sum.splits if_splits)
  show "quiet (db s) (db (snd (cmd_auth ctx s)))"
    "config (snd (cmd_auth ctx s)) = config s \<and> aof (snd (cmd_auth ctx s)) = aof s"
    by (simp_all add: res f)
  show "c \<in> authenticated (snd (cmd_auth ctx s)) \<Longrightarrow>
      c \<in> authenticated s \<or> c = connection_id ctx \<and> right_password ctx s"
  proof (cases "length (argv ctx) = 2 \<and> cfg_requirepass (config s) \<noteq> None")
    case True
    then obtain name pw where "argv ctx = [name, pw]" by (auto simp: numeral_2_eq_2 length_Suc_conv)
    then show "c \<in> authenticated (snd (cmd_auth ctx s)) \<Longrightarrow>
      c \<in> authenticated s \<or> c = connection_id ctx \<and> right_password ctx s"
      using a by (auto simp: res right_password_def authenticate_def split: option.splits sum.splits if_splits)
  qed (auto simp: res)
qed

lemma psync_quiet: "quiet_handler cmd_psync"
proof
  fix ctx :: command_context and s :: server and c
  obtain r d m where f: "full_resync (connection_id ctx) (db s) (master s) = (r, d, m)"
    using prod_cases3 by blast
  then have d: "d = snd (snapshot (db s))"
    by (auto simp: full_resync_def register_syncing_def Let_def split_beta split: sum.splits)
  have res: "snd (cmd_psync ctx s) =
      (if length (argv ctx) \<noteq> 3 \<or> connection_id ctx \<notin> open_writers s then s else s\<lparr>db := d, master := m\<rparr>)"
    by (auto simp: cmd_psync_def handle_psync_def f split: sum.splits)
  then show "quiet (db s) (db (snd (cmd_psync ctx s)))"
    "config (snd (cmd_psync ctx s)) = config s \<and> aof (snd (cmd_psync ctx s)) = aof s"
    "c \<in> authenticated (snd (cmd_psync ctx s)) \<Longrightarrow>
      c \<in> authenticated s \<or> c = connection_id ctx \<and> right_password ctx s"
    using d quiet_reads(2) [of "db s"] by (auto split: if_splits)
qed

lemma quiet_key_read:
  assumes "key_op oper spec" and "\<And>x. snd (spec x) = x" and "\<And>s. clock_step s (snd (oper k s))"
  shows "quiet s (snd (oper k s))"
  using assms(3) [of s] key_op.op_inv [OF assms(1)] reading_mono [of s "snd (oper k s)"]
  by (auto simp: quiet_def key_op.op_view [OF assms(1)] assms(2) store_view_restored dest: order_trans)

lemma quiet_ttl: "quiet s (snd (ttl k s))"
proof (cases "dict_get (entries s) k")
  case (Some e)
  let ?t = "s\<lparr>ticks := Suc (ticks s)\<rparr>"
  have drop: "quiet s (drop_key k ?t)" if x: "is_expired (expire_at_ms e) (reading s)"
  proof -
    have "live m (drop_key k ?t) = live m s" if "mono (clock s)" and "reading (drop_key k ?t) \<le> m" for m
    proof -
      have "reading s \<le> m" using that by (simp add: reading_def mono_def) (metis le_SucI order_refl order_trans)
      then have "live m s k = None" using x Some by (auto simp: live_def alive_def is_expired_def split: option.splits)
      then show ?thesis by (auto simp: fun_eq_iff live_def)
    qed
    then show ?thesis by (simp add: quiet_def inv_drop_key)
  qed
  show ?thesis
    using Some drop quiet_tick [of s] quiet_trans [OF quiet_tick quiet_tick, of s]
    by (auto simp: ttl_def is_expired_now_eq ttl_seconds_now_def now_ms_def is_expired_def split: option.splits)
qed (simp add: ttl_def)

lemma store_call_snd: "snd (store_call f wrap s) = s\<lparr>db := snd (f (db s))\<rparr>"
  using store_call_result [of f wrap s] by auto

lemma quiet_handlerI:
  assumes "\<And>ctx s. snd (h ctx s) = s \<or> (\<exists>d. snd (h ctx s) = s\<lparr>db := d\<rparr> \<and> quiet (db s) d)"
  shows "quiet_handler h"
proof
  fix ctx and s :: server
  have "s = s\<lparr>db := db s\<rparr>" by simp
  with assms [of ctx s] obtain d where d: "snd (h ctx s) = s\<lparr>db := d\<rparr>" "quiet (db s) d"
    by (metis quiet_refl)
  then show "quiet (db s) (db (snd (h ctx s)))"
    "config (snd (h ctx s)) = config s \<and> aof (snd (h ctx s)) = aof s" by simp_all
  show "c \<in> authenticated (snd (h ctx s)) \<Longrightarrow> c \<in> authenticated s \<or> c = connection_id ctx \<and> right_password ctx s" for c
    using d by simp
qed

lemma reads_quiet:
  "quiet_handler cmd_get" "quiet_handler cmd_hgetall" "quiet_handler cmd_ttl" "quiet_handler cmd_dbsize"
proof -
  have get: "quiet d (snd (get_string k d))" "quiet d (snd (hgetall k d))" for k d
    by (rule quiet_key_read [OF get_op.key_op_axioms] quiet_key_read [OF hgetall_op.key_op_axioms];
        auto simp: store_clock_steps get_spec_def hgetall_spec_def split: option.splits redis_value.splits)+
  show "quiet_handler cmd_get" "quiet_handler cmd_hgetall"
    by (rule quiet_handlerI; auto simp: cmd_get_def cmd_hgetall_def get store_call_snd)+
  show "quiet_handler cmd_ttl" "quiet_handler cmd_dbsize"
    by (rule quiet_handlerI; auto simp: cmd_ttl_def cmd_dbsize_def on_db_def split_beta quiet_ttl quiet_reads)+
qed

lemma pure_quiet:
  "quiet_handler cmd_ping" "quiet_handler cmd_echo" "quiet_handler cmd_select" "quiet_handler cmd_command"
  "quiet_handler cmd_config" "quiet_handler cmd_replconf"
  by (rule quiet_handlerI; auto simp: cmd_ping_def cmd_echo_def cmd_select_def cmd_command_def cmd_config_def
      cmd_replconf_def Let_def split: option.splits)+

lemmas quiet_handlers = info_quiet save_quiet auth_quiet psync_quiet jobs_quiet reads_quiet pure_quiet

lemma default_quiet: "(name, h) \<in> set default_handlers \<Longrightarrow> name \<notin> set WRITE_COMMANDS \<Longrightarrow> quiet_handler h"
  using quiet_handlers by (auto simp: default_handlers_def WRITE_COMMANDS_def)

section \<open>Dispatch keeps the contract\<close>

lemma default_contracts: "(name, h) \<in> set default_handlers \<Longrightarrow> handler_contract h"
  using store_call_handlers total_handlers hset_handler store_handler_contract
    quiet_handlers [THEN quiet_handler.is_contract]
  by (auto simp: default_handlers_def)

lemma default_names: "map (py_upper \<circ> fst) default_handlers = map fst default_handlers"
  "distinct (map fst default_handlers)"
  by (simp_all add: default_handlers_def py_upper_def upper_char_def byte_val_def)

lemma create_default_registry_eq: "create_default_registry = default_handlers"
proof -
  have "fold (\<lambda>(name, h). reg_register name h) hs reg = fold (\<lambda>(name, h). dict_set name h) hs reg"
    if "map (py_upper \<circ> fst) hs = map fst hs" for hs reg
    using that by (induction hs arbitrary: reg) (auto simp: reg_register_def)
  from this [OF default_names(1)] show ?thesis
    using fold_dict_set_self [of default_handlers] default_names(2)
    by (simp add: create_default_registry_def dict_ok_def)
qed

lemma reg_get_contract: "reg_get create_default_registry name = Some h \<Longrightarrow> handler_contract h"
  using default_contracts dict_get_SomeD
  by (fastforce simp: reg_get_def create_default_registry_eq)

interpretation dispatch: handler_contract "dispatch create_default_registry"
proof (unfold_locales, goal_cases)
  case (1 s ctx)
  then show ?case
    using handler_contract.keeps_inv [OF reg_get_contract]
    by (auto simp: dispatch_def split: list.splits option.splits)
next
  case (2 s ctx)
  then show ?case
    using handler_contract.keeps_clock [OF reg_get_contract]
    by (auto simp: dispatch_def split: list.splits option.splits)
next
  case (3 ctx s)
  then show ?case
    using handler_contract.keeps_config [OF reg_get_contract]
    by (auto simp: dispatch_def split: list.splits option.splits)
next
  case (4 ctx s)
  then show ?case
    using handler_contract.keeps_aof [OF reg_get_contract]
    by (auto simp: dispatch_def split: list.splits option.splits)
next
  case (5 s ctx e m)
  then show ?case
    using handler_contract.error_invisible [OF reg_get_contract, of _ _ s ctx e m]
    by (auto simp: dispatch_def split: list.splits option.splits if_splits)
next
  case (6 c ctx s)
  then show ?case
    using handler_contract.auth_only [OF reg_get_contract]
    by (fastforce simp: dispatch_def split: list.splits option.splits if_splits)
qed

text \<open>A command that is not a write changes nothing a client can see.\<close>

lemma dispatch_read_quiet:
  assumes "upper_name (argv ctx) \<notin> set WRITE_COMMANDS"
  shows "quiet (db s) (db (snd (dispatch create_default_registry ctx s)))"
proof (cases "argv ctx")
  case (Cons name args)
  with assms have name: "py_upper name \<notin> set WRITE_COMMANDS" by (simp add: upper_name_def)
  show ?thesis
  proof (cases "reg_get create_default_registry name")
    case (Some h)
    then have "(py_upper name, h) \<in> set default_handlers"
      using dict_get_SomeD by (fastforce simp: reg_get_def create_default_registry_eq)
    from quiet_handler.quiet_db [OF default_quiet [OF this name]] Cons Some name show ?thesis
      by (simp add: dispatch_def)
  qed (simp add: dispatch_def Cons)
qed (simp add: dispatch_def)

end
