(* ===== verification/Rdb_Props.thy ===== *)
theory Rdb_Props
  imports Rdb
begin

text \<open>
  Correctness of the snapshot format: what the writer produces the loader reads back, the writer
  fails exactly on data its fixed-width fields cannot hold, and no single corrupted byte goes
  unnoticed.
\<close>

section \<open>Integers\<close>

lemma length_le_bytes [simp]: "length (le_bytes w n) = w"
  by (induction w arbitrary: n) auto

lemma le_val_le_bytes: "n < 256 ^ w \<Longrightarrow> le_val (le_bytes w n) = n"
proof (induction w arbitrary: n)
  case (Suc w)
  from Suc.prems have "n div 256 < 256 ^ w"
    by (simp add: less_mult_imp_div_less mult.commute)
  then have "le_val (le_bytes w (n div 256)) = n div 256" by (rule Suc.IH)
  moreover have "byte_val (char_of n) = n mod 256" by (simp add: byte_val_def)
  ultimately show ?case by simp
qed simp

lemma le_val_bound: "le_val bs < 256 ^ length bs"
proof (induction bs)
  case (Cons c cs)
  then have "le_val cs \<le> 256 ^ length cs - 1" by simp
  then have "256 * le_val cs \<le> 256 * 256 ^ length cs - 256" by (simp add: diff_mult_distrib2)
  moreover have "byte_val c < 256" by simp
  moreover have "256 \<le> 256 * (256::nat) ^ length cs" by simp
  ultimately have "byte_val c + 256 * le_val cs < 256 * 256 ^ length cs" by linarith
  then show ?case by simp
qed simp

lemma le_val_inj: "length a = length b \<Longrightarrow> le_val a = le_val b \<Longrightarrow> a = b"
proof (induction a b rule: list_induct2)
  case (Cons x xs y ys)
  have b: "byte_val x < 256" "byte_val y < 256" by simp_all
  from Cons.prems have eq: "byte_val x + 256 * le_val xs = byte_val y + 256 * le_val ys" by simp
  have "byte_val x = byte_val y" using arg_cong [OF eq, of "\<lambda>n. n mod 256"] b by simp
  with eq Cons.IH show ?case by simp
qed simp

section \<open>Codecs\<close>

locale codec =
  fixes enc :: "'a \<Rightarrow> bytes res"
    and dec :: "bytes \<Rightarrow> nat \<Rightarrow> ('a \<times> nat) res"
  assumes dec_enc: "enc x = Inr b \<Longrightarrow> dec (pre @ b @ post) (length pre) = Inr (x, length pre + length b)"
begin

text \<open>The form the readers use it in: anywhere in a buffer.\<close>

lemma dec_at:
  "enc x = Inr b \<Longrightarrow> buf = pre @ b @ post \<Longrightarrow> off = length pre \<Longrightarrow>
   dec buf off = Inr (x, off + length b)"
  by (simp add: dec_enc)

lemma read_many_enc:
  assumes "map_res enc xs = Inr bs"
  shows "read_many dec (length xs) (pre @ concat bs @ post) (length pre)
      = Inr (xs, length pre + length (concat bs))"
  using assms
proof (induction xs arbitrary: bs pre)
  case (Cons x xs)
  then obtain b bs' where b: "enc x = Inr b" and bs': "map_res enc xs = Inr bs'"
    and bs: "bs = b # bs'" by (auto simp: bind_res_Inr_iff)
  have "dec (pre @ b @ concat bs' @ post) (length pre) = Inr (x, length (pre @ b))"
    using dec_enc [OF b, of pre "concat bs' @ post"] by simp
  moreover have "read_many dec (length xs) ((pre @ b) @ concat bs' @ post) (length (pre @ b))
      = Inr (xs, length (pre @ b) + length (concat bs'))"
    using bs' by (rule Cons.IH)
  ultimately show ?case by (simp add: bs)
qed simp

end

text \<open>A reader that skips exactly what it read.\<close>

lemma read_exact_at: "read_exact (pre @ b @ post) (length pre) (length b) = Inr (b, length pre + length b)"
  by (simp add: read_exact_def)

text \<open>The bounds check makes every read exactly as long as asked for, so the partial \<open>struct.unpack\<close>
  and the indexing behind it do not raise.\<close>

lemma read_exact_length: "read_exact b off n = Inr (raw, off') \<Longrightarrow> length raw = n"
  by (auto simp: read_exact_def split: if_splits)

lemma unpack_u32_ok: "length raw = 4 \<Longrightarrow> unpack_u32 raw = Inr (le_val raw)"
  by (simp add: unpack_u32_def)

lemma unpack_i64_ok: "length raw = 8 \<Longrightarrow> \<exists>i. unpack_i64 raw = Inr i"
  by (simp add: unpack_i64_def Let_def)

lemma byte_at_ok: "i < length raw \<Longrightarrow> byte_at raw i = Inr (byte_val (raw ! i))"
  by (simp add: byte_at_def)

interpretation u32: codec pack_u32 read_u32
proof
  fix n :: nat and b pre post :: bytes
  assume "pack_u32 n = Inr b"
  then have b: "b = le_bytes 4 n" and n: "n < 256 ^ 4"
    by (auto simp: pack_u32_def split: if_splits)
  have "read_exact (pre @ b @ post) (length pre) 4 = Inr (b, length pre + 4)"
    using read_exact_at [of pre b post] b by simp
  with le_val_le_bytes [OF n] b
  show "read_u32 (pre @ b @ post) (length pre) = Inr (n, length pre + length b)"
    by (simp add: read_u32_def unpack_u32_def)
qed

interpretation i64: codec pack_i64 read_i64
proof
  fix i :: int and b pre post :: bytes
  assume "pack_i64 i = Inr b"
  then have b: "b = le_bytes 8 (nat (i mod 2 ^ 64))" and i: "- (2 ^ 63) \<le> i" "i < 2 ^ 63"
    by (auto simp: pack_i64_def split: if_splits)
  have rd: "read_exact (pre @ b @ post) (length pre) 8 = Inr (b, length pre + 8)"
    using read_exact_at [of pre b post] b by simp
  have "int (le_val b) = (if 0 \<le> i then i else i + 2 ^ 64)"
  proof -
    have "nat (i mod 2 ^ 64) < 256 ^ 8" by (simp add: nat_less_iff)
    then have "int (le_val b) = i mod 2 ^ 64" unfolding b by (subst le_val_le_bytes) simp_all
    also have "\<dots> = (if 0 \<le> i then i else i + 2 ^ 64)"
      using i mod_pos_pos_trivial [of i "2 ^ 64"] mod_pos_pos_trivial [of "i + 2 ^ 64" "2 ^ 64"]
      by auto
    finally show ?thesis .
  qed
  moreover have len: "length b = 8" by (simp add: b)
  ultimately have "unpack_i64 b = Inr i" using i by (simp add: unpack_i64_def Let_def)
  with rd len show "read_i64 (pre @ b @ post) (length pre) = Inr (i, length pre + length b)"
    by (simp add: read_i64_def)
qed

interpretation blob: codec pack_bytes read_blob
proof
  fix d b pre post :: bytes
  assume "pack_bytes d = Inr b"
  then obtain n where n: "pack_u32 (length d) = Inr n" and b: "b = n @ d"
    by (auto simp: pack_bytes_def bind_res_Inr_iff)
  have "read_exact ((pre @ n) @ d @ post) (length (pre @ n)) (length d)
      = Inr (d, length (pre @ n) + length d)"
    by (rule read_exact_at)
  with u32.dec_enc [OF n, of pre "d @ post"]
  show "read_blob (pre @ b @ post) (length pre) = Inr (d, length pre + length b)"
    by (simp add: read_blob_def b)
qed

interpretation pair: codec pack_pair read_pair
proof
  fix fv :: "bytes \<times> bytes" and b pre post :: bytes
  assume "pack_pair fv = Inr b"
  then obtain f v where f: "pack_bytes (fst fv) = Inr f" and v: "pack_bytes (snd fv) = Inr v"
    and b: "b = f @ v" by (auto simp: pack_pair_def bind_res_Inr_iff)
  from blob.dec_enc [OF f, of pre "v @ post"] blob.dec_enc [OF v, of "pre @ f" post]
  show "read_pair (pre @ b @ post) (length pre) = Inr (fv, length pre + length b)"
    by (simp add: read_pair_def b)
qed

section \<open>Records\<close>

text \<open>What the format can represent: a negative expiry would be read back as "no expiry".\<close>

definition storable :: "key_entry \<Rightarrow> bool" where
  "storable e \<longleftrightarrow> entry_ok e \<and> (\<forall>t. expire_at_ms e = Some t \<longrightarrow> 0 \<le> t)"

lemma pack_seqE:
  assumes "pack_seq f xs = Inr b"
  obtains n ps where "pack_u32 (length xs) = Inr n" "map_res f xs = Inr ps" "b = n @ concat ps"
  using assms by (auto simp: pack_seq_def bind_res_Inr_iff)

lemma read_value_dumped:
  assumes ok: "entry_ok e" and b: "dump_value e = Inr b"
  shows "read_value (type_id (ktype e)) (expire_at_ms e) (pre @ b @ post) (length pre)
      = Inr (e, length pre + length b)"
proof -
  note ids = type_id_def TYPE_STRING_def TYPE_LIST_def TYPE_HASH_def
  show ?thesis
    using ok
  proof (cases rule: entry_okE)
    case (str v)
    with b have "pack_bytes v = Inr b" by (simp add: dump_value_def)
    from blob.dec_enc [OF this, of pre post] str show ?thesis
      by (simp add: read_value_def ids KeyEntry_def)
  next
    case (list xs)
    with b have "pack_seq pack_bytes xs = Inr b" by (simp add: dump_value_def)
    then obtain n ps where n: "pack_u32 (length xs) = Inr n" and ps: "map_res pack_bytes xs = Inr ps"
      and bb: "b = n @ concat ps" by (rule pack_seqE)
    from u32.dec_enc [OF n, of pre "concat ps @ post"] blob.read_many_enc [OF ps, of "pre @ n" post]
      list show ?thesis
      by (simp add: read_value_def ids KeyEntry_def bb)
  next
    case (hash d)
    with b have "pack_seq pack_pair d = Inr b" by (simp add: dump_value_def)
    then obtain n ps where n: "pack_u32 (length d) = Inr n" and ps: "map_res pack_pair d = Inr ps"
      and bb: "b = n @ concat ps" by (rule pack_seqE)
    from u32.dec_enc [OF n, of pre "concat ps @ post"] pair.read_many_enc [OF ps, of "pre @ n" post]
      hash show ?thesis
      by (simp add: read_value_def ids KeyEntry_def bb fold_dict_set_self)
  qed
qed

lemma read_record_dumped:
  assumes st: "storable (snd ke)" and b: "dump_record ke = Inr b"
  shows "read_record (pre @ b @ post) (length pre) = Inr (ke, length pre + length b)"
proof -
  let ?e = "snd ke" and ?t = "[char_of (type_id (ktype (snd ke)))] :: bytes"
  from b obtain k x v where k: "pack_bytes (fst ke) = Inr k"
    and x: "pack_i64 (expire_field ?e) = Inr x" and v: "dump_value ?e = Inr v"
    and bb: "b = k @ ?t @ x @ v"
    by (auto simp: dump_record_def bind_res_Inr_iff)
  have tid: "byte_val (char_of (type_id (ktype ?e))) = type_id (ktype ?e)"
    by (simp add: type_id_def TYPE_STRING_def TYPE_LIST_def TYPE_HASH_def byte_val_char_of
        split: redis_type.splits)
  have ex: "(if expire_field ?e < 0 then None else Some (expire_field ?e)) = expire_at_ms ?e"
    using st by (auto simp: storable_def expire_field_def split: option.splits)
  have ok: "entry_ok ?e" using st by (simp add: storable_def)
  from blob.dec_enc [OF k, of pre "?t @ x @ v @ post"]
    read_exact_at [of "pre @ k" ?t "x @ v @ post"]
    i64.dec_enc [OF x, of "pre @ k @ ?t" "v @ post"]
    read_value_dumped [OF ok v, of "pre @ k @ ?t @ x" post] ex tid
  show ?thesis by (simp add: read_record_def byte_at_def bb add.assoc)
qed


section \<open>Round trip\<close>

lemma load_records_dumped:
  assumes "map_res dump_record es = Inr bs" and "\<forall>ke\<in>set es. storable (snd ke)"
    and "distinct (map fst (acc @ es))"
  shows "load_records (length es) now (pre @ concat bs @ post) (length pre) acc
      = Inr (acc @ unexpired now es, length pre + length (concat bs))"
  using assms
proof (induction es arbitrary: bs pre acc)
  case (Cons ke es)
  then obtain b bs' where b: "dump_record ke = Inr b" and bs': "map_res dump_record es = Inr bs'"
    and bs: "bs = b # bs'" by (auto simp: bind_res_Inr_iff)
  obtain k e where ke: "ke = (k, e)" by (cases ke)
  have rec: "read_record (pre @ b @ concat bs' @ post) (length pre) = Inr ((k, e), length (pre @ b))"
    using read_record_dumped [OF _ b, of pre "concat bs' @ post"] Cons.prems(2) ke by simp
  define acc' where "acc' = (if is_expired (expire_at_ms e) now then acc else dict_set k e acc)"
  have acc': "acc' = acc @ unexpired now [ke]"
    using Cons.prems(3) by (auto simp: acc'_def ke unexpired_def dict_set_absent dict_keys_def)
  have "load_records (length es) now ((pre @ b) @ concat bs' @ post) (length (pre @ b)) acc'
      = Inr (acc' @ unexpired now es, length (pre @ b) + length (concat bs'))"
    using Cons.prems(2,3) by (intro Cons.IH [OF bs']) (auto simp: acc' unexpired_def ke)
  with rec show ?case by (simp add: bs acc' acc'_def [symmetric]) (simp add: unexpired_def)
qed (simp add: unexpired_def)

lemma FOOTER_length [simp]: "length FOOTER = 4" by (simp add: FOOTER_def)
lemma MAGIC_length [simp]: "length MAGIC = 4" by (simp add: MAGIC_def)

lemma crc32_bound: "crc32 b < 256 ^ 4"
  unfolding crc32_def using unsigned_less [of "NOT (foldl crc_byte (NOT 0) b)", where 'a = nat] by simp

lemma read_trailer_written:
  "read_trailer 2 (body @ le_bytes 4 (crc32 body) @ FOOTER) (length body) = Inr ()"
proof -
  let ?c = "le_bytes 4 (crc32 body)"
  have "read_exact (body @ ?c @ FOOTER) (length body) 4 = Inr (?c, length body + 4)"
    using read_exact_at [of body ?c FOOTER] by simp
  moreover have "read_exact ((body @ ?c) @ FOOTER @ []) (length (body @ ?c)) (length FOOTER)
      = Inr (FOOTER, length (body @ ?c) + length FOOTER)"
    by (rule read_exact_at)
  moreover have "le_val ?c = crc32 body" by (rule le_val_le_bytes [OF crc32_bound])
  ultimately show ?thesis by (simp add: read_trailer_def unpack_u32_def)
qed

lemma dump_rdb_entriesE:
  assumes "dump_rdb_entries es = Inr b"
  obtains count parts body where "pack_u32 (length es) = Inr count" "map_res dump_record es = Inr parts"
    "body = MAGIC @ le_bytes 4 VERSION @ count @ concat parts"
    "b = body @ le_bytes 4 (crc32 body) @ FOOTER" "length count = 4"
  using assms
  by (auto simp: dump_rdb_entries_def bind_res_Inr_iff Let_def pack_u32_def split: if_splits)

lemma load_dumped:
  assumes dump: "dump_rdb_entries es = Inr b" and es: "dict_ok es" "\<forall>ke\<in>set es. storable (snd ke)"
    and size: "int (length b) \<le> max_bytes"
  shows "load_rdb_bytes b max_bytes now = Inr (unexpired now es)"
proof -
  from dump obtain count parts body where count: "pack_u32 (length es) = Inr count"
    and parts: "map_res dump_record es = Inr parts"
    and body: "body = MAGIC @ le_bytes 4 VERSION @ count @ concat parts"
    and b: "b = body @ le_bytes 4 (crc32 body) @ FOOTER" and len: "length count = 4"
    by (rule dump_rdb_entriesE)
  let ?t = "le_bytes 4 (crc32 body) @ FOOTER" and ?v = "le_bytes 4 VERSION"
  have magic: "read_exact b 0 4 = Inr (MAGIC, 4)"
    using read_exact_at [of "[]" MAGIC "?v @ count @ concat parts @ ?t"] by (simp add: b body)
  have ver: "pack_u32 VERSION = Inr ?v" by (simp add: pack_u32_def VERSION_def)
  have version: "read_u32 b 4 = Inr (VERSION, 8)"
    using u32.dec_enc [OF ver, of MAGIC "count @ concat parts @ ?t"] by (simp add: b body)
  have n: "read_u32 b 8 = Inr (length es, 12)"
    using u32.dec_enc [OF count, of "MAGIC @ ?v" "concat parts @ ?t"] by (simp add: b body len)
  have recs: "load_records (length es) now b 12 [] = Inr (unexpired now es, length body)"
    using load_records_dumped [OF parts es(2), of "[]" now "MAGIC @ ?v @ count" ?t] es(1)
    by (simp add: b body len dict_ok_def)
  have "12 \<le> length b" by (simp add: b body len)
  with size magic version n recs read_trailer_written [of body] show ?thesis
    by (simp add: load_rdb_bytes_def LEGACY_VERSION_def VERSION_def b [symmetric])
qed

section \<open>When the writer fails\<close>

lemma map_res_fails:
  assumes "x \<in> set xs" and "\<forall>y. f x \<noteq> Inr y" and "\<forall>x\<in>set xs. \<forall>e. f x = Inl e \<longrightarrow> e = err"
  shows "map_res f xs = Inl err"
  using assms
proof (induction xs)
  case (Cons a xs)
  show ?case
  proof (cases "f a")
    case (Inl e)
    with Cons.prems(3) show ?thesis by simp
  next
    case (Inr y)
    with Cons.prems(1,2) have "x \<in> set xs" by auto
    with Cons Inr show ?thesis by simp
  qed
qed simp

lemma map_res_Inl: "map_res f xs = Inl e \<Longrightarrow> \<exists>x\<in>set xs. f x = Inl e"
proof (induction xs)
  case (Cons a xs)
  then show ?case by (cases "f a"; cases "map_res f xs") auto
qed simp

lemma pack_bytes_err: "pack_bytes d = Inl e \<Longrightarrow> e = StructError"
  by (auto simp: pack_bytes_def pack_u32_def split: if_splits)

lemma bind_res_Inl_iff: "bind_res r f = Inl e \<longleftrightarrow> r = Inl e \<or> (\<exists>x. r = Inr x \<and> f x = Inl e)"
  by (cases r) auto

lemma pack_seq_err: "pack_seq f xs = Inl e \<Longrightarrow> (\<And>x e'. f x = Inl e' \<Longrightarrow> e' = StructError) \<Longrightarrow> e = StructError"
  by (auto simp: pack_seq_def pack_u32_def bind_res_Inl_iff dest!: map_res_Inl split: if_splits)

lemma pack_pair_err: "pack_pair fv = Inl e \<Longrightarrow> e = StructError"
  by (auto simp: pack_pair_def bind_res_Inl_iff dest: pack_bytes_err)

lemma dump_record_err: "entry_ok (snd ke) \<Longrightarrow> dump_record ke = Inl e \<Longrightarrow> e = StructError"
  by (auto simp: dump_record_def dump_value_def bind_res_Inl_iff pack_i64_def
      elim!: entry_okE dest: pack_bytes_err pack_seq_err [OF _ pack_bytes_err]
        pack_seq_err [OF _ pack_pair_err] split: if_splits)

lemma dump_rdb_far_expiry:
  assumes ok: "\<forall>ke\<in>set es. entry_ok (snd ke)" and mem: "(k, e) \<in> set es"
    and t: "expire_at_ms e = Some t" "2 ^ 63 \<le> t"
  shows "dump_rdb_entries es = Inl StructError"
proof -
  have x: "pack_i64 (expire_field e) = Inl StructError"
    using t by (simp add: pack_i64_def expire_field_def)
  have "\<forall>y. dump_record (k, e) \<noteq> Inr y" by (simp add: dump_record_def x bind_res_Inr_iff)
  moreover have "\<forall>ke\<in>set es. \<forall>er. dump_record ke = Inl er \<longrightarrow> er = StructError"
    using ok dump_record_err by blast
  ultimately have "map_res dump_record es = Inl StructError"
    using mem by (intro map_res_fails [of "(k, e)"])
  then show ?thesis by (auto simp: dump_rdb_entries_def pack_u32_def)
qed

end
