(* ===== verification/Rdb_Integrity.thy ===== *)
theory Rdb_Integrity
  imports Rdb_Props
begin

unbundle bit_operations_syntax

text \<open>
  Integrity of snapshots: the checksum of \<open>zlib.crc32\<close> distinguishes any two equally long bodies
  that differ in one byte, and therefore the loader rejects every snapshot in which one byte has
  changed, wherever that byte stands.
\<close>

section \<open>The checksum separates bodies that differ in one byte\<close>

lemma crc_bit_top: "bit (crc_bit x) 31 = bit x 0"
proof -
  have "\<not> bit (drop_bit 1 x) 31"
    using bit_imp_le_length [of x 32] by (auto simp: bit_drop_bit_eq)
  moreover have "bit (0xEDB88320 :: 32 word) 31" by simp
  ultimately show ?thesis by (simp add: crc_bit_def bit_xor_iff)
qed

lemma crc_bit_inj: "crc_bit x = crc_bit y \<Longrightarrow> x = y"
proof -
  assume eq: "crc_bit x = crc_bit y"
  then have b0: "bit x 0 = bit y 0" using crc_bit_top [of x] crc_bit_top [of y] by simp
  have d: "drop_bit 1 x = drop_bit 1 y"
  proof (cases "bit x 0")
    case True
    with eq b0 have "drop_bit 1 x XOR 0xEDB88320 = drop_bit 1 y XOR (0xEDB88320 :: 32 word)"
      by (simp add: crc_bit_def)
    then have "(drop_bit 1 x XOR 0xEDB88320) XOR 0xEDB88320
        = (drop_bit 1 y XOR (0xEDB88320 :: 32 word)) XOR 0xEDB88320" by simp
    then show ?thesis by (simp only: xor.assoc xor_self_eq xor.right_neutral)
  next
    case False
    with eq b0 show ?thesis by (simp add: crc_bit_def)
  qed
  show "x = y"
  proof (rule bit_word_eqI)
    fix n
    show "bit x n = bit y n"
    proof (cases n)
      case 0
      with b0 show ?thesis by simp
    next
      case (Suc m)
      have "bit (drop_bit 1 x) m = bit (drop_bit 1 y) m" by (simp only: d)
      with Suc show ?thesis by (simp add: bit_drop_bit_eq)
    qed
  qed
qed

lemma crc_bits_inj: "(crc_bit ^^ n) x = (crc_bit ^^ n) y \<Longrightarrow> x = y"
  by (induction n) (auto dest: crc_bit_inj)

lemma xor_cancel: "(x :: 32 word) XOR a = y XOR a \<longleftrightarrow> x = y"
  by (metis xor.assoc xor_self_eq xor.right_neutral)

lemma crc_byte_inj_state: "crc_byte x c = crc_byte y c \<Longrightarrow> x = y"
  unfolding crc_byte_def by (drule crc_bits_inj) (simp add: xor_cancel)

lemma crc_byte_inj_byte:
  assumes "crc_byte x c = crc_byte x d"
  shows "c = d"
proof -
  from assms have "x XOR word_of_nat (byte_val c) = x XOR (word_of_nat (byte_val d) :: 32 word)"
    unfolding crc_byte_def by (rule crc_bits_inj)
  then have eq: "word_of_nat (byte_val c) = (word_of_nat (byte_val d) :: 32 word)"
    by (metis xor.commute xor_cancel)
  have "unat (word_of_nat (byte_val z) :: 32 word) = byte_val z" for z
    using byte_val_less [of z] by (simp add: unat_of_nat del: byte_val_less)
  with eq have "byte_val c = byte_val d" by metis
  then show ?thesis by simp
qed

lemma crc_fold_inj: "foldl crc_byte x bs = foldl crc_byte y bs \<Longrightarrow> x = y"
  by (induction bs arbitrary: x y) (auto dest: crc_byte_inj_state)

lemma crc32_eq_fold: "crc32 a = crc32 b \<Longrightarrow> foldl crc_byte (NOT 0) a = foldl crc_byte (NOT 0) b"
  unfolding crc32_def by (drule unsigned_word_eqI) simp

lemma crc32_one_byte:
  assumes "i < length b" and "c \<noteq> b ! i"
  shows "crc32 (b[i := c]) \<noteq> crc32 b"
proof
  assume "crc32 (b[i := c]) = crc32 b"
  then have eq: "foldl crc_byte (NOT 0) (b[i := c]) = foldl crc_byte (NOT 0) b"
    by (rule crc32_eq_fold)
  have upd: "b[i := c] = take i b @ c # drop (Suc i) b"
    using assms(1) by (simp add: upd_conv_take_nth_drop)
  have whole: "b = take i b @ b ! i # drop (Suc i) b"
    using assms(1) by (rule id_take_nth_drop)
  let ?x = "foldl crc_byte (NOT 0) (take i b)"
  have m1: "foldl crc_byte (NOT 0) (b[i := c]) = foldl crc_byte (crc_byte ?x c) (drop (Suc i) b)"
    unfolding upd by simp
  have m2: "foldl crc_byte (NOT 0) b = foldl crc_byte (crc_byte ?x (b ! i)) (drop (Suc i) b)"
    by (subst whole) simp
  have "crc_byte ?x c = crc_byte ?x (b ! i)"
    by (rule crc_fold_inj [OF trans [OF m1 [symmetric] trans [OF eq m2]]])
  with assms(2) show False by (auto dest: crc_byte_inj_byte)
qed

section \<open>The loader's failures\<close>

text \<open>Every failure of the loader is an \<open>RdbError\<close>.\<close>

definition rdb_fails :: "'a res \<Rightarrow> bool" where
  "rdb_fails r \<longleftrightarrow> (\<forall>e. r = Inl e \<longrightarrow> (\<exists>x. e = RdbError x))"

lemma rdb_fails_simps [simp]: "rdb_fails (Inr y)" "rdb_fails (Inl (RdbError x))"
  by (simp_all add: rdb_fails_def)

lemma rdb_fails_bind:
  "rdb_fails r \<Longrightarrow> (\<And>x. r = Inr x \<Longrightarrow> rdb_fails (f x)) \<Longrightarrow> rdb_fails (bind_res r f)"
  by (cases r) (auto simp: rdb_fails_def)

lemma rdb_fails_exact: "rdb_fails (read_exact b off n)"
  by (simp add: read_exact_def)

text \<open>The conversions of what \<open>read_exact\<close> returned do not fail.\<close>

lemma rdb_fails_read:
  assumes "\<And>raw off'. length raw = n \<Longrightarrow> rdb_fails (f (raw, off'))"
  shows "rdb_fails (bind_res (read_exact b off n) f)"
  using assms by (auto intro!: rdb_fails_bind rdb_fails_exact dest: read_exact_length)

lemma rdb_fails_u32: "rdb_fails (read_u32 b off)"
  unfolding read_u32_def by (rule rdb_fails_read) (simp add: unpack_u32_ok)

lemma rdb_fails_i64: "rdb_fails (read_i64 b off)"
  unfolding read_i64_def by (rule rdb_fails_read) (use unpack_i64_ok in fastforce)

lemma rdb_fails_blob: "rdb_fails (read_blob b off)"
  by (auto simp: read_blob_def intro!: rdb_fails_bind rdb_fails_u32 rdb_fails_exact)

lemma rdb_fails_pair: "rdb_fails (read_pair b off)"
  by (auto simp: read_pair_def intro!: rdb_fails_bind rdb_fails_blob)

lemmas rdb_fails_readers = rdb_fails_exact rdb_fails_u32 rdb_fails_i64 rdb_fails_blob rdb_fails_pair

lemma rdb_fails_many: "(\<And>b off. rdb_fails (rd b off)) \<Longrightarrow> rdb_fails (read_many rd n b off)"
  by (induction n arbitrary: off) (auto intro!: rdb_fails_bind)

lemma rdb_fails_value: "rdb_fails (read_value tid ex b off)"
  by (auto simp: read_value_def intro!: rdb_fails_bind rdb_fails_readers rdb_fails_many)

lemma rdb_fails_record: "rdb_fails (read_record b off)"
  unfolding read_record_def
  by (auto simp: byte_at_ok intro!: rdb_fails_bind [OF rdb_fails_blob] rdb_fails_read
      rdb_fails_bind [OF rdb_fails_i64] rdb_fails_bind [OF rdb_fails_value])

lemma rdb_fails_records: "rdb_fails (load_records n now b off es)"
  by (induction n arbitrary: off es) (auto intro!: rdb_fails_bind rdb_fails_record)

lemma rdb_fails_trailer: "rdb_fails (read_trailer v b off)"
  unfolding read_trailer_def
  by (auto simp: unpack_u32_ok intro!: rdb_fails_bind [OF _ rdb_fails_read] rdb_fails_read)

lemma rdb_fails_load: "rdb_fails (load_rdb_bytes b mx now)"
  by (auto simp: load_rdb_bytes_def
      intro!: rdb_fails_bind rdb_fails_readers rdb_fails_records rdb_fails_trailer)

section \<open>What acceptance implies\<close>

lemma read_exact_Inr: "read_exact b off n = Inr (raw, off') \<longleftrightarrow>
    off + n \<le> length b \<and> raw = take n (drop off b) \<and> off' = off + n"
  by (auto simp: read_exact_def)

lemma read_u32_Inr: "read_u32 b off = Inr (v, off') \<longleftrightarrow>
    off + 4 \<le> length b \<and> v = le_val (take 4 (drop off b)) \<and> off' = off + 4"
  by (auto simp: read_u32_def bind_res_Inr_iff read_exact_Inr unpack_u32_def)

lemma load_accepted:
  assumes "load_rdb_bytes b mx now = Inr es"
  obtains version off where "version = le_val (take 4 (drop 4 b))" "version = 1 \<or> version = 2"
    "load_records (le_val (take 4 (drop 8 b))) now b 12 [] = Inr (es, off)"
    "read_trailer version b off = Inr ()"
  using assms
  by (auto simp: load_rdb_bytes_def bind_res_Inr_iff read_exact_Inr read_u32_Inr VERSION_def
      LEGACY_VERSION_def split: if_splits)

lemma trailer_v2:
  assumes "read_trailer 2 b off = Inr ()"
  shows "length b = off + 8" and "crc32 (take off b) = le_val (take 4 (drop off b))"
    and "drop (off + 4) b = FOOTER"
  using assms by (auto simp: read_trailer_def bind_res_Inr_iff read_exact_Inr unpack_u32_def split: if_splits)

lemma trailer_v1: "read_trailer 1 b off = Inr () \<Longrightarrow> length b = off + 4"
  by (auto simp: read_trailer_def bind_res_Inr_iff read_exact_Inr split: if_splits)


section \<open>A changed byte is always noticed\<close>

lemma changed_v2_rejected:
  assumes b: "b = body @ le_bytes 4 (crc32 body) @ FOOTER" and i: "i < length b" and c: "c \<noteq> b ! i"
  shows "read_trailer 2 (b[i := c]) off \<noteq> Inr ()"
proof
  let ?crc = "le_bytes 4 (crc32 body)"
  assume acc: "read_trailer 2 (b[i := c]) off = Inr ()"
  have len: "length b = length body + 8" by (simp add: b)
  from trailer_v2(1) [OF acc] len have off: "off = length body" by simp
  have crc: "crc32 (take off (b[i := c])) = le_val (take 4 (drop off (b[i := c])))"
    and foot: "drop (off + 4) (b[i := c]) = FOOTER"
    using trailer_v2(2,3) [OF acc] by simp_all
  consider (body) "i < length body" | (crc) "length body \<le> i" "i < length body + 4"
    | (foot) "length body + 4 \<le> i"
    by linarith
  then show False
  proof cases
    case body
    then have "b[i := c] = body[i := c] @ ?crc @ FOOTER" by (simp add: b list_update_append)
    with crc off have "crc32 (body[i := c]) = le_val ?crc" by simp
    moreover have "c \<noteq> body ! i" using c body by (simp add: b nth_append)
    ultimately show False
      using crc32_one_byte [OF body] le_val_le_bytes [OF crc32_bound, of body] by simp
  next
    case crc: crc
    then have pos: "i - length body < 4" by linarith
    have upd: "b[i := c] = body @ ?crc[i - length body := c] @ FOOTER"
      using crc pos by (simp add: b list_update_append)
    with \<open>crc32 (take off (b[i := c])) = le_val (take 4 (drop off (b[i := c])))\<close> off
    have "crc32 body = le_val (?crc[i - length body := c])" by simp
    then have "?crc = ?crc[i - length body := c]"
      using le_val_inj [of ?crc "?crc[i - length body := c]"] le_val_le_bytes [OF crc32_bound, of body]
      by simp
    then have "?crc ! (i - length body) = c"
      using pos by (metis length_le_bytes nth_list_update_eq)
    moreover have "b ! i = ?crc ! (i - length body)" using crc pos by (simp add: b nth_append)
    ultimately show False using c by simp
  next
    case foot: foot
    then have pos: "\<not> i - length body < 4" "i - length body - 4 = i - (length body + 4)"
      by linarith+
    have "b[i := c] = body @ ?crc @ FOOTER[i - (length body + 4) := c]"
      using foot pos by (simp add: b list_update_append)
    with \<open>drop (off + 4) (b[i := c]) = FOOTER\<close> off
    have "FOOTER[i - (length body + 4) := c] = FOOTER" by simp
    moreover have "i - (length body + 4) < length FOOTER" using foot i len by simp
    ultimately have "FOOTER ! (i - (length body + 4)) = c" by (metis nth_list_update_eq)
    moreover have "b ! i = FOOTER ! (i - (length body + 4))" using foot pos by (simp add: b nth_append)
    ultimately show False using c by simp
  qed
qed

lemma single_byte_rejected:
  assumes dump: "dump_rdb_entries es = Inr b" and es: "dict_ok es" "\<forall>ke\<in>set es. storable (snd ke)"
    and i: "i < length b" and c: "c \<noteq> b ! i"
  shows "\<exists>e. load_rdb_bytes (b[i := c]) max_bytes now = Inl (RdbError e)"
proof (cases "load_rdb_bytes (b[i := c]) max_bytes now")
  case (Inl e)
  with rdb_fails_load [of "b[i := c]" max_bytes now] show ?thesis by (auto simp: rdb_fails_def)
next
  case (Inr es')
  let ?d = "b[i := c]"
  from dump obtain count parts body where count: "pack_u32 (length es) = Inr count"
    and parts: "map_res dump_record es = Inr parts"
    and body: "body = MAGIC @ le_bytes 4 VERSION @ count @ concat parts"
    and b: "b = body @ le_bytes 4 (crc32 body) @ FOOTER" and lc: "length count = 4"
    by (rule dump_rdb_entriesE)
  from Inr obtain version off where v: "version = le_val (take 4 (drop 4 ?d))"
    "version = 1 \<or> version = 2"
    and recs: "load_records (le_val (take 4 (drop 8 ?d))) now ?d 12 [] = Inr (es', off)"
    and tr: "read_trailer version ?d off = Inr ()"
    by (rule load_accepted)
  from changed_v2_rejected [OF b i c] tr v(2) have v1: "version = 1" by auto
  have head: "b = MAGIC @ le_bytes 4 VERSION @ count @ concat parts @ le_bytes 4 (crc32 body) @ FOOTER"
    by (simp add: b body)
  have "\<not> (i < 4 \<or> 8 \<le> i)"
  proof
    assume "i < 4 \<or> 8 \<le> i"
    then have "take 4 (drop 4 ?d) = take 4 (drop 4 b)"
      by (auto simp: drop_update_swap drop_update_cancel take_update_cancel)
    moreover have "le_val (le_bytes 4 VERSION) = 2"
      using le_val_le_bytes [of VERSION 4] by (simp add: VERSION_def)
    ultimately show False using v(1) v1 head by simp
  qed
  then have i4: "4 \<le> i" "i < 8" by auto
  then have pos: "i - 4 < 4" by linarith
  have d: "?d = (MAGIC @ (le_bytes 4 VERSION)[i - 4 := c] @ count) @ concat parts
      @ le_bytes 4 (crc32 body) @ FOOTER" (is "?d = ?pre @ concat parts @ ?post")
    using i4 pos by (simp add: head list_update_append)
  have pre: "length ?pre = 12" using lc by simp
  have "le_val count = length es"
    using count le_val_le_bytes [of "length es" 4] by (auto simp: pack_u32_def split: if_splits)
  then have "le_val (take 4 (drop 8 ?d)) = length es" using lc by (simp add: d)
  moreover have "load_records (length es) now (?pre @ concat parts @ ?post) (length ?pre) []
      = Inr ([] @ unexpired now es, length ?pre + length (concat parts))"
    using es by (intro load_records_dumped [OF parts]) (simp_all add: dict_ok_def)
  ultimately have "off = 12 + length (concat parts)"
    using recs unfolding d pre by simp
  moreover have "length ?d = off + 4" using trailer_v1 [of ?d off] tr v1 by simp
  ultimately show ?thesis using lc by (simp add: head)
qed

end
