(* ===== verification/Rdb_Correct.thy ===== *)
theory Rdb_Correct
  imports Rdb_Integrity Store_Machine
begin

text \<open>
  The properties of the snapshot format: writing succeeds on every keyspace the format can
  represent and loading restores it, the loader accepts nothing but well-formed keyspaces and
  fails only with \<open>RdbError\<close>, a damaged byte is always noticed, and the one input on which the
  writer fails although the store accepts it.
\<close>

section \<open>When writing succeeds\<close>

definition short :: "'a list \<Rightarrow> bool" where
  "short xs \<longleftrightarrow> length xs < 2 ^ 32"

fun value_short :: "redis_value \<Rightarrow> bool" where
  "value_short (VStr b) \<longleftrightarrow> short b"
| "value_short (VList xs) \<longleftrightarrow> short xs \<and> (\<forall>x\<in>set xs. short x)"
| "value_short (VHash d) \<longleftrightarrow> short d \<and> (\<forall>fv\<in>set d. short (fst fv) \<and> short (snd fv))"

text \<open>Lengths fit 32 bits and the deadline, which is a time after the epoch, fits 63 bits.\<close>

definition representable :: "bytes \<times> key_entry \<Rightarrow> bool" where
  "representable ke \<longleftrightarrow>
     short (fst ke) \<and> value_short (kvalue (snd ke))
     \<and> (\<forall>t. expire_at_ms (snd ke) = Some t \<longrightarrow> 0 \<le> t \<and> t < 2 ^ 63)"

lemma map_res_ok: "(\<And>x. x \<in> set xs \<Longrightarrow> \<exists>y. f x = Inr y) \<Longrightarrow> \<exists>ys. map_res f xs = Inr ys"
  by (induction xs) fastforce+

lemma pack_bytes_ok: "short b \<Longrightarrow> \<exists>p. pack_bytes b = Inr p"
  by (simp add: pack_bytes_def pack_u32_def short_def)

lemma pack_pair_ok: "short (fst fv) \<Longrightarrow> short (snd fv) \<Longrightarrow> \<exists>p. pack_pair fv = Inr p"
  by (simp add: pack_pair_def pack_bytes_def pack_u32_def short_def)

lemma pack_seq_ok:
  assumes "short xs" and "\<And>x. x \<in> set xs \<Longrightarrow> \<exists>y. f x = Inr y"
  shows "\<exists>p. pack_seq f xs = Inr p"
  using map_res_ok [of xs f, OF assms(2)] assms(1)
  by (auto simp: pack_seq_def pack_u32_def short_def)

lemma dump_record_ok:
  assumes "entry_ok (snd ke)" and "representable ke"
  shows "\<exists>b. dump_record ke = Inr b"
proof -
  have "\<exists>x. pack_i64 (expire_field (snd ke)) = Inr x"
    using assms(2) by (auto simp: pack_i64_def expire_field_def representable_def split: option.splits)
  moreover have "\<exists>k. pack_bytes (fst ke) = Inr k"
    using assms(2) by (intro pack_bytes_ok) (simp add: representable_def)
  moreover have "\<exists>v. dump_value (snd ke) = Inr v"
    using assms(1)
  proof (cases rule: entry_okE)
    case (str b)
    with assms(2) show ?thesis by (simp add: dump_value_def representable_def pack_bytes_ok)
  next
    case (list xs)
    with assms(2) show ?thesis
      by (auto simp: dump_value_def representable_def intro!: pack_seq_ok pack_bytes_ok)
  next
    case (hash d)
    with assms(2) show ?thesis
      by (auto simp: dump_value_def representable_def intro!: pack_seq_ok pack_pair_ok)
  qed
  ultimately show ?thesis by (auto simp: dump_record_def)
qed

lemma dump_rdb_entries_ok:
  assumes "short es" and "\<And>ke. ke \<in> set es \<Longrightarrow> entry_ok (snd ke) \<and> representable ke"
  shows "\<exists>b. dump_rdb_entries es = Inr b"
proof -
  obtain parts where "map_res dump_record es = Inr parts"
    using map_res_ok [of es dump_record] dump_record_ok assms(2) by blast
  with assms(1) show ?thesis by (simp add: dump_rdb_entries_def pack_u32_def short_def Let_def)
qed

lemma store_entry_ok: "store_inv s \<Longrightarrow> ke \<in> set (entries s) \<Longrightarrow> entry_ok (snd ke)"
  using store_invD(2) [of s "fst ke" "snd ke"] dict_get_iff [OF store_invD(1), of s "fst ke" "snd ke"]
  by simp

lemma store_dump:
  assumes inv: "store_inv s" and short: "short (entries s)"
    and rep: "\<And>ke. ke \<in> set (entries s) \<Longrightarrow> representable ke"
  defines "es \<equiv> unexpired (reading s) (entries s)"
  obtains b where "dump_rdb_bytes s = (Inr b, purge_expired s)" and "dump_rdb_entries es = Inr b"
    and "dict_ok es" and "\<forall>ke\<in>set es. storable (snd ke)"
proof -
  have sub: "set es \<subseteq> set (entries s)" by (auto simp: es_def unexpired_def)
  have "length es \<le> length (entries s)" by (simp add: es_def unexpired_def)
  with short have "short es" by (simp add: short_def)
  then obtain b where b: "dump_rdb_entries es = Inr b"
    using dump_rdb_entries_ok [of es] store_entry_ok [OF inv] rep sub by blast
  show thesis
  proof (rule that [of b])
    show "dump_rdb_bytes s = (Inr b, purge_expired s)"
      using b by (simp add: dump_rdb_bytes_def snapshot_eq [OF inv] es_def)
    show "dict_ok es" using store_invD(1) [OF inv] by (simp add: es_def dict_ok_unexpired)
    show "\<forall>ke\<in>set es. storable (snd ke)"
      using store_entry_ok [OF inv] rep sub by (auto simp: storable_def representable_def)
  qed (rule b)
qed

section \<open>Round trip\<close>

text \<open>C10: Saving and loading: on every store whose sizes and deadlines the format can represent,
  \<open>dump_rdb_bytes\<close> succeeds, saving loses no live key, and loading the file at any later time
  into any store makes exactly the same keys visible with the same values and deadlines.\<close>

theorem rdb_save_load:
  assumes "store_inv s" and "short (entries s)" and "\<forall>ke\<in>set (entries s). representable ke"
  shows "\<exists>b. dump_rdb_bytes s = (Inr b, purge_expired s)
    \<and> (int (length b) \<le> max_bytes \<longrightarrow> (\<exists>es. load_rdb_bytes b max_bytes now = Inr es
        \<and> store_inv (load_entries es t)
        \<and> (\<forall>m. now \<le> m \<longrightarrow> reading s \<le> m \<longrightarrow> live m (load_entries es t) = live m s)))"
proof -
  let ?es = "unexpired (reading s) (entries s)"
  obtain b where b: "dump_rdb_bytes s = (Inr b, purge_expired s)" "dump_rdb_entries ?es = Inr b"
    and es: "dict_ok ?es" "\<forall>ke\<in>set ?es. storable (snd ke)"
    using store_dump [of s] assms by blast
  have ok: "dict_ok (unexpired now ?es)" by (rule dict_ok_unexpired [OF es(1)])
  have get: "dict_get (unexpired now ?es) k = alive now (alive (reading s) (dict_get (entries s) k))" for k
    by (simp add: get_unexpired es(1) store_invD(1) [OF assms(1)])
  have "entry_ok e" if "dict_get (unexpired now ?es) k = Some e" for k e
    using that store_invD(2) [OF assms(1), of k] by (auto simp: get alive_def split: option.splits if_splits)
  with ok have inv: "store_inv (load_entries (unexpired now ?es) t)"
    by (intro load_entries_inv) (simp add: entries_ok_def)
  have view: "live m (load_entries (unexpired now ?es) t) = live m s"
    if "now \<le> m" "reading s \<le> m" for m
    using that by (simp add: live_def get alive_alive_later fun_eq_iff)
  have "load_rdb_bytes b max_bytes now = Inr (unexpired now ?es)" if "int (length b) \<le> max_bytes"
    using load_dumped [OF b(2) es that] .
  with b(1) inv view show ?thesis by blast
qed

theorem rdb_save_load_witness:
  "\<exists>b. dump_rdb_bytes (set_string ''k'' ''v'' None (new_store 0 ''noeviction'' (\<lambda>i. 7)))
       = (Inr b, purge_expired (set_string ''k'' ''v'' None (new_store 0 ''noeviction'' (\<lambda>i. 7))))"
proof -
  let ?s = "set_string ''k'' ''v'' None (new_store 0 ''noeviction'' (\<lambda>i. 7))"
  have inv: "store_inv ?s" by (intro inv_intros)
  have es: "entries ?s = [(''k'', KeyEntry STRING (VStr ''v'') None)]"
    by (simp add: new_store_def set_string_def put_entry_def touch_access_def dict_set_def)
  show ?thesis
    using rdb_save_load [OF inv] by (simp add: es short_def representable_def) blast
qed

section \<open>Damaged files\<close>

text \<open>C14: A snapshot file with any single byte changed, whatever the position and the new value, is
  rejected with \<open>RdbError\<close>: the CRC-32, the length fields, the version field and the footer leave
  no such change unnoticed.\<close>

theorem rdb_detects_changed_byte:
  assumes "dump_rdb_entries es = Inr b" and "dict_ok es" and "\<forall>ke\<in>set es. storable (snd ke)"
    and "i < length b" and "c \<noteq> b ! i"
  shows "\<exists>e. load_rdb_bytes (b[i := c]) max_bytes now = Inl (RdbError e)"
  using assms by (rule single_byte_rejected)

lemma empty_dump:
  "dump_rdb_entries [] = Inr (MAGIC @ le_bytes 4 VERSION @ le_bytes 4 0
     @ le_bytes 4 (crc32 (MAGIC @ le_bytes 4 VERSION @ le_bytes 4 0)) @ FOOTER)"
  by (simp add: dump_rdb_entries_def pack_u32_def)

theorem rdb_detects_changed_byte_witness:
  "\<exists>e. load_rdb_bytes ((MAGIC @ le_bytes 4 VERSION @ le_bytes 4 0
     @ le_bytes 4 (crc32 (MAGIC @ le_bytes 4 VERSION @ le_bytes 4 0)) @ FOOTER)[0 := CHR ''X'']) 1000 0
     = Inl (RdbError e)"
  using rdb_detects_changed_byte [OF empty_dump, of 0 "CHR ''X''" 1000 0]
  by (simp add: dict_ok_def MAGIC_def)

lemma read_value_entry_ok: "read_value tid ex b off = Inr (e, off') \<Longrightarrow> entry_ok e"
  by (auto simp: read_value_def bind_res_Inr_iff dict_ok_fold_nil split: if_splits)

lemma load_records_entries_ok:
  "load_records n now b off es = Inr (es', off') \<Longrightarrow> entries_ok es \<Longrightarrow> entries_ok es'"
proof (induction n arbitrary: off es)
  case (Suc n)
  from Suc.prems(1) obtain key entry off1 where
    rec: "read_record b off = Inr ((key, entry), off1)"
    and rest: "load_records n now b off1
        (if is_expired (expire_at_ms entry) now then es else dict_set key entry es) = Inr (es', off')"
    by (auto simp: bind_res_Inr_iff)
  from rec have "entry_ok entry"
    by (auto simp: read_record_def bind_res_Inr_iff intro: read_value_entry_ok)
  with Suc.prems(2) have "entries_ok (dict_set key entry es)"
    by (auto simp: entries_ok_def dict_simps dict_intros split: if_splits)
  with Suc.prems(2) show ?case by (intro Suc.IH [OF rest]) simp
qed simp

lemma load_rdb_entries_ok:
  assumes "load_rdb_bytes b max_bytes now = Inr es"
  shows "entries_ok es"
proof -
  from assms obtain n off where "load_records n now b 12 [] = Inr (es, off)" by (rule load_accepted)
  then show ?thesis
    by (rule load_records_entries_ok) (simp add: entries_ok_def dict_ok_def dict_get_def)
qed

text \<open>C32: The loader is total and safe on arbitrary bytes: it either raises \<open>RdbError\<close> and nothing
  else, or returns entries that are well formed, so that loading them leaves the store in its
  invariant.\<close>

theorem rdb_loader_safe:
  "(\<exists>e. load_rdb_bytes b max_bytes now = Inl (RdbError e))
   \<or> (\<exists>es. load_rdb_bytes b max_bytes now = Inr es \<and> store_inv (load_entries es s))"
proof (cases "load_rdb_bytes b max_bytes now")
  case (Inl e)
  with rdb_fails_load [of b max_bytes now] show ?thesis by (auto simp: rdb_fails_def)
next
  case (Inr es)
  with load_rdb_entries_ok [OF Inr] show ?thesis by (blast intro: load_entries_inv)
qed

section \<open>A deadline the format cannot hold\<close>

text \<open>C40: The store accepts any number of seconds, but a deadline of \<open>2 ^ 63\<close> ms or more makes
  every later save raise \<open>struct.error\<close>: after \<open>SET k v EX 9223372036854775\<close> at a clock value
  past 807 ms, \<open>dump_rdb_bytes\<close> fails until the key is overwritten or deleted.\<close>

theorem far_deadline_breaks_save:
  assumes "store_inv s" and "9223372036854775 \<le> secs" and "808 \<le> reading s"
    and "reading (set_string k v (Some secs) s) < 2 ^ 63"
  shows "fst (dump_rdb_bytes (set_string k v (Some secs) s)) = Inl StructError"
proof -
  let ?t = "set_string k v (Some secs) s"
  let ?e = "KeyEntry STRING (VStr v) (Some (reading s + secs * 1000))"
  have inv: "store_inv ?t" using assms(1) by (rule set_string_inv)
  have far: "2 ^ 63 \<le> reading s + secs * 1000" using assms(2,3) by simp
  have "entries ?t = dict_set k ?e (entries s)"
    using assms(2) by (simp add: set_string_def now_ms_def Let_def)
  then have "dict_get (entries ?t) k = Some ?e" by (simp add: dict_simps)
  then have "(k, ?e) \<in> set (entries ?t)" by (rule dict_get_SomeD)
  moreover have "\<not> is_expired (Some (reading s + secs * 1000)) (reading ?t)"
    using far assms(4) by (simp add: is_expired_def)
  ultimately have "(k, ?e) \<in> set (unexpired (reading ?t) (entries ?t))" by (simp add: unexpired_def)
  moreover have "\<forall>ke\<in>set (unexpired (reading ?t) (entries ?t)). entry_ok (snd ke)"
    using store_entry_ok [OF inv] by (auto simp: unexpired_def)
  ultimately have "dump_rdb_entries (unexpired (reading ?t) (entries ?t)) = Inl StructError"
    using far by (intro dump_rdb_far_expiry [where t = "reading s + secs * 1000"]) auto
  then show ?thesis by (simp add: dump_rdb_bytes_def snapshot_eq [OF inv])
qed

theorem far_deadline_breaks_save_witness:
  "fst (dump_rdb_bytes (set_string ''k'' ''v'' (Some 9223372036854775) (new_store 0 ''noeviction'' (\<lambda>i. 1000))))
     = Inl StructError"
  by (rule far_deadline_breaks_save [OF new_store_inv])
    (simp_all add: reading_def new_store_def set_string_def now_ms_def put_entry_def touch_access_def)

end
