(* ===== verification/Server_Machine.thy ===== *)
theory Server_Machine
  imports Server_Inv Rdb_Correct
begin

text \<open>
  The server as a state machine: every way its state changes, commands of clients, of the master
  and of the log, connections, background jobs and recovery, and the lemmas on the parts of
  \<open>_execute_inner\<close> that its properties rest on.
\<close>

section \<open>Frames of the execution steps\<close>

lemma log_command_frame [simp]:
  "db (snd (log_command c s)) = db s" "config (snd (log_command c s)) = config s"
  "authenticated (snd (log_command c s)) = authenticated s" "master (snd (log_command c s)) = master s"
  by (simp_all add: log_command_def split_beta Let_def)

lemma propagate_command_frame [simp]:
  "db (propagate_command c s) = db s" "config (propagate_command c s) = config s"
  "authenticated (propagate_command c s) = authenticated s" "aof (propagate_command c s) = aof s"
  by (simp_all add: propagate_command_def)

lemma log_and_propagate_frame [simp]:
  "db (snd (log_and_propagate c s)) = db s" "config (snd (log_and_propagate c s)) = config s"
  "authenticated (snd (log_and_propagate c s)) = authenticated s"
  by (cases "log_command c s"; cases "fst (log_command c s)";
      insert log_command_frame [of c s]; simp add: log_and_propagate_def)+

lemma log_all_frame [simp]:
  "db (snd (log_all cs s)) = db s" "config (snd (log_all cs s)) = config s"
  "authenticated (snd (log_all cs s)) = authenticated s"
proof (induction cs arbitrary: s)
  case (Cons c cs)
  { case 1 then show ?case using Cons(1) log_and_propagate_frame(1) [of c s]
      by (cases "log_and_propagate c s") (auto split: sum.splits) }
  { case 2 then show ?case using Cons(2) log_and_propagate_frame(2) [of c s]
      by (cases "log_and_propagate c s") (auto split: sum.splits) }
  { case 3 then show ?case using Cons(3) log_and_propagate_frame(3) [of c s]
      by (cases "log_and_propagate c s") (auto split: sum.splits) }
qed simp_all

lemma persist_frame [simp]:
  "db (snd (persist ctx w ev s)) = db s" "config (snd (persist ctx w ev s)) = config s"
  "authenticated (snd (persist ctx w ev s)) = authenticated s"
  by (simp_all add: persist_def del: log_all.simps)

lemma count_failed_frame [simp]:
  "db (count_failed s) = db s" "config (count_failed s) = config s" "aof (count_failed s) = aof s"
  "authenticated (count_failed s) = authenticated s" "master (count_failed s) = master s"
  by (simp_all add: count_failed_def)

text \<open>The memory limit after a handler, as the server applies it.\<close>

definition limit :: "bool \<Rightarrow> server \<Rightarrow> bytes list res \<times> server" where
  "limit is_write s = (if is_write then on_db enforce_memory_limit s else (Inr [], s))"

lemma limit_frame [simp]:
  "config (snd (limit w s)) = config s" "aof (snd (limit w s)) = aof s"
  "authenticated (snd (limit w s)) = authenticated s" "master (snd (limit w s)) = master s"
  "store_inv (db s) \<Longrightarrow> store_inv (db (snd (limit w s)))"
  "clock_step (db s) (db (snd (limit w s)))"
  by (simp_all add: limit_def on_db_simps enforce_inv store_clock_steps)

lemma after_dispatch_cases:
  obtains (oom) s1 where "limit w s = (Inl MemoryLimitError, s1)"
    "after_dispatch ctx w before v s =
       (error_reply (lit ''OOM command not allowed when used memory > maxmemory''),
        count_failed (s1\<lparr>db := load_entries before (db s1)\<rparr>))"
  | (crash) e s1 where "limit w s = (Inl e, s1)" "e \<noteq> MemoryLimitError" "after_dispatch ctx w before v s = (Inl e, s1)"
  | (silent) ev s1 where "limit w s = (Inr ev, s1)" "v = PNoReply" "after_dispatch ctx w before v s = (Inr None, s1)"
  | (misconf) ev s1 m s2 where "limit w s = (Inr ev, s1)" "v \<noteq> PNoReply" "persist ctx w ev s1 = (Inl (OSError m), s2)"
    "after_dispatch ctx w before v s = (misconf m, count_failed s2)"
  | (broken) ev s1 e s2 where "limit w s = (Inr ev, s1)" "v \<noteq> PNoReply" "persist ctx w ev s1 = (Inl e, s2)"
    "\<And>m. e \<noteq> OSError m" "after_dispatch ctx w before v s = (Inl e, s2)"
  | (ok) ev s1 s2 where "limit w s = (Inr ev, s1)" "v \<noteq> PNoReply" "persist ctx w ev s1 = (Inr (), s2)"
    "after_dispatch ctx w before v s = (encode_reply v, s2)"
proof -
  obtain r s1 where l: "limit w s = (r, s1)" by fastforce
  have ad: "after_dispatch ctx w before v s =
     (case (r, s1) of
        (Inl MemoryLimitError, s1) \<Rightarrow>
          (error_reply (lit ''OOM command not allowed when used memory > maxmemory''),
           count_failed (s1\<lparr>db := load_entries before (db s1)\<rparr>))
      | (Inl e, s1) \<Rightarrow> (Inl e, s1)
      | (Inr evicted, s1) \<Rightarrow>
          if v = PNoReply then (Inr None, s1)
          else
            (case persist ctx w evicted s1 of
               (Inl (OSError m), s2) \<Rightarrow> (misconf m, count_failed s2)
             | (Inl e, s2) \<Rightarrow> (Inl e, s2)
             | (Inr _, s2) \<Rightarrow> (encode_reply v, s2)))"
    using l by (simp only: after_dispatch_def limit_def)
  show thesis
  proof (cases r)
    case (Inl e)
    then show ?thesis
      using l ad oom [of s1] crash [of e s1] by (cases e) auto
  next
    case (Inr ev)
    obtain p s2 where p: "persist ctx w ev s1 = (p, s2)" by fastforce
    show ?thesis
    proof (cases "v = PNoReply")
      case True
      then show ?thesis using l ad Inr silent by simp
    next
      case False
      show ?thesis
      proof (cases p)
        case (Inl e)
        then show ?thesis
          using l ad Inr \<open>r = Inr ev\<close> False p misconf [of ev s1 _ s2] broken [of ev s1 e s2] by (cases e) auto
      next
        case (Inr u)
        then show ?thesis using l ad \<open>r = Inr ev\<close> False p ok [of ev s1 s2] by simp
      qed
    qed
  qed
qed

text \<open>The copy of the keyspace a write command takes before it runs.\<close>

definition prep :: "bool \<Rightarrow> server \<Rightarrow> (bytes, key_entry) dict \<times> server" where
  "prep is_write s = (if is_write then on_db snapshot s else ([], s))"

lemma prep_frame [simp]:
  "config (snd (prep w s)) = config s" "aof (snd (prep w s)) = aof s"
  "authenticated (snd (prep w s)) = authenticated s" "master (snd (prep w s)) = master s"
  "quiet (db s) (db (snd (prep w s)))"
  by (simp_all add: prep_def on_db_simps quiet_reads)

lemma prep_entries:
  assumes "store_inv (db s)"
  shows "entries_ok (fst (prep True s))"
    and "reading (db s) \<le> m \<Longrightarrow> live m (load_entries (fst (prep True s)) t) = live m (db s)"
  using snap.snap_good [OF assms] snap.restore_view [OF assms] by (simp_all add: prep_def on_db_simps)

abbreviation is_write :: "command_context \<Rightarrow> bool" where
  "is_write ctx \<equiv> upper_name (argv ctx) \<in> set WRITE_COMMANDS"

abbreviation trusted :: "command_context \<Rightarrow> bool" where
  "trusted ctx \<equiv> is_loading ctx \<or> is_replica_client ctx"

lemma execute_inner_cases:
  obtains (noauth) "cfg_requirepass (config s) \<noteq> None" "connection_id ctx \<notin> authenticated s"
      "upper_name (argv ctx) \<noteq> ''AUTH''" "\<not> trusted ctx"
      "execute_inner reg ctx s = (error_reply (lit ''NOAUTH Authentication required.''), count_failed s)"
  | (unhealthy) "is_write ctx" "\<not> healthy (aof s)"
      "execute_inner reg ctx s = (error_reply (lit ''MISCONF AOF persistence is unhealthy''), count_failed s)"
  | (raised) e s2 msg where "dispatch reg ctx (snd (prep (is_write ctx) s)) = (Inl e, s2)"
      "execute_inner reg ctx s = (error_reply msg, count_failed s2)" "\<And>m. e = RespError m \<Longrightarrow> msg = m"
  | (ran) v s2 where "dispatch reg ctx (snd (prep (is_write ctx) s)) = (Inr v, s2)"
      "execute_inner reg ctx s = after_dispatch ctx (is_write ctx) (fst (prep (is_write ctx) s)) v s2"
proof -
  let ?w = "is_write ctx"
  obtain r s2 where d: "dispatch reg ctx (snd (prep ?w s)) = (r, s2)" by fastforce
  consider "cfg_requirepass (config s) \<noteq> None \<and> connection_id ctx \<notin> authenticated s
      \<and> upper_name (argv ctx) \<noteq> ''AUTH'' \<and> \<not> trusted ctx"
    | "\<not> (cfg_requirepass (config s) \<noteq> None \<and> connection_id ctx \<notin> authenticated s
      \<and> upper_name (argv ctx) \<noteq> ''AUTH'' \<and> \<not> trusted ctx)"
      "?w \<and> cfg_aof_enabled (config s) \<and> \<not> healthy (aof s) \<and> \<not> trusted ctx"
    | "execute_inner reg ctx s =
        (case (r, s2) of
           (Inl (RespError m), s2) \<Rightarrow> (error_reply m, count_failed s2)
         | (Inl e, s2) \<Rightarrow> (error_reply (lit ''ERR internal error''), count_failed s2)
         | (Inr result, s2) \<Rightarrow> after_dispatch ctx ?w (fst (prep ?w s)) result s2)"
    using d unfolding execute_inner_def Let_def prep_def [symmetric] split_beta by (simp only: if_False) metis
  then show thesis
  proof cases
    case 1
    then show ?thesis by (intro noauth) (simp_all add: execute_inner_def Let_def)
  next
    case 2
    then show ?thesis by (intro unhealthy) (auto simp: execute_inner_def Let_def)
  next
    case 3
    show ?thesis
    proof (cases r)
      case (Inl e)
      then show ?thesis using 3 d raised [of e s2] by (cases e) auto
    next
      case (Inr v)
      then show ?thesis using 3 d ran [of v s2] by simp
    qed
  qed
qed

section \<open>Every step keeps the keyspace invariant\<close>

lemma after_dispatch_inv:
  assumes "store_inv (db s)" and "w \<Longrightarrow> entries_ok before"
  shows "store_inv (db (snd (after_dispatch ctx w before v s)))"
proof -
  have l: "store_inv (db (snd (limit w s)))" using assms(1) by simp
  show ?thesis
  proof (cases rule: after_dispatch_cases [of w s ctx before v])
    case (oom s1)
    then have w: w by (auto simp: limit_def split: if_splits)
    then show ?thesis using oom load_entries_inv [OF assms(2)] by simp
  next
    case (misconf ev s1 m s2)
    then show ?thesis using l persist_frame(1) [of ctx w ev s1] by simp
  next
    case (broken ev s1 e s2)
    then show ?thesis using l persist_frame(1) [of ctx w ev s1] by simp
  next
    case (ok ev s1 s2)
    then show ?thesis using l persist_frame(1) [of ctx w ev s1] by simp
  qed (use l in simp_all)
qed

lemma execute_inner_inv:
  assumes "store_inv (db s)"
  shows "store_inv (db (snd (execute_inner create_default_registry ctx s)))"
proof (cases rule: execute_inner_cases [of s ctx create_default_registry])
  case (raised e s2 msg)
  have "store_inv (db (snd (prep (is_write ctx) s)))" using prep_frame(5) assms by (auto simp: quiet_def)
  from dispatch.keeps_inv [OF this, of ctx] raised show ?thesis by simp
next
  case (ran v s2)
  have "store_inv (db (snd (prep (is_write ctx) s)))" using prep_frame(5) assms by (auto simp: quiet_def)
  from dispatch.keeps_inv [OF this, of ctx] ran(1) have "store_inv (db s2)" by simp
  then show ?thesis
    using ran(2) prep_entries(1) [OF assms] by (auto intro!: after_dispatch_inv)
qed (use assms in simp_all)

lemma apply_inv:
  "store_inv (db s) \<Longrightarrow> store_inv (db (snd (apply_replicated_command c s)))"
  "store_inv (db s) \<Longrightarrow> store_inv (db (snd (apply_logged_command c s)))"
  using execute_inner_inv by (simp_all add: apply_replicated_command_def apply_logged_command_def split_beta Let_def)

lemma apply_all_induct:
  assumes "\<And>c s. P s \<Longrightarrow> P (snd (f c s))" and "P s"
  shows "P (snd (apply_all f cs s))"
  using assms(2)
proof (induction cs arbitrary: s)
  case (Cons c cs)
  then show ?case using assms(1) [of s c] by (cases "f c s") (auto split: sum.splits)
qed simp

lemma load_persistence_inv:
  assumes "store_inv (db s)"
  shows "store_inv (db (snd (load_persistence s)))"
proof -
  have replay: "store_inv (db (snd (replay_aof apply_logged_command f mb mx s)))" for f mb mx
  proof (cases "read_commands f mb mx")
    case (Inr cs)
    have "store_inv (db (snd (apply_all apply_logged_command cs s)))"
      by (rule apply_all_induct [where P = "\<lambda>s. store_inv (db s)"]) (simp_all add: apply_inv assms)
    then show ?thesis using Inr
      by (cases "apply_all apply_logged_command cs s") (auto simp: replay_aof_def split: sum.splits)
  qed (use assms in \<open>simp add: replay_aof_def\<close>)
  have now: "store_inv (db (snd (server_now s)))"
    using assms quiet_reads(1) [of "db s"] by (simp add: server_now_def on_db_simps quiet_def)
  have rdb: "store_inv (db (snd (load_rdb_into data mx s)))" for data mx
    using now load_rdb_entries_ok
    by (auto simp: load_rdb_into_def split_beta Let_def intro!: load_entries_inv split: sum.splits)
  show ?thesis
    using replay rdb assms by (auto simp: load_persistence_def Let_def split_beta split: option.splits)
qed

lemma full_resync_store: "fst (snd (full_resync conn d m)) = snd (snapshot d)"
  by (auto simp: full_resync_def register_syncing_def Let_def split_beta split: sum.splits)

lemma serve_psync_db: "db (snd (snd (serve_psync conn s))) = snd (snapshot (db s))"
  using full_resync_store [of conn "db s" "master s"]
  by (cases "full_resync conn (db s) (master s)") (auto simp: serve_psync_def split: sum.splits)

lemma serve_command_inv: "store_inv (db s) \<Longrightarrow> store_inv (db (snd (snd (serve_command conn c s))))"
  using execute_inner_inv [of s "client_context conn c"] serve_psync_db [of conn s] quiet_reads(2) [of "db s"]
  by (cases "execute conn c s")
    (auto simp: serve_command_def execute_def Let_def quiet_def split: sum.splits)

lemma serve_message_inv: "store_inv (db s) \<Longrightarrow> store_inv (db (snd (snd (serve_message conn msg s))))"
  using serve_command_inv [of "s\<lparr>total_commands_processed := Suc (total_commands_processed s)\<rparr>" conn]
  by (auto simp: serve_message_def Let_def split: sum.splits py_exn.splits)

lemma serve_messages_inv: "store_inv (db s) \<Longrightarrow> store_inv (db (snd (snd (serve_messages conn msgs s))))"
proof (induction msgs arbitrary: s)
  case (Cons msg msgs)
  obtain out v s1 where m: "serve_message conn msg s = (out, v, s1)" using prod_cases3 by blast
  with serve_message_inv [OF Cons.prems, of conn msg] have "store_inv (db s1)" by simp
  from Cons.IH [OF this] m this show ?case by (cases v) (auto simp: split_beta Let_def)
qed simp

text \<open>A step of a background save changes nothing a client sees; only the last one touches the file.\<close>

lemma bgsave_step_frame:
  "quiet (db s) (db (bgsave_step s))" "config (bgsave_step s) = config s" "aof (bgsave_step s) = aof s"
  "rewrite_running (bgsave_step s) = rewrite_running s" "open_writers (bgsave_step s) = open_writers s"
proof -
  show "quiet (db s) (db (bgsave_step s))"
    using quiet_reads
    by (auto simp: bgsave_step_def write_rdb_def server_now_def on_db_def Let_def split_beta
        split: save_phase.splits sum.splits)
  show "config (bgsave_step s) = config s" "aof (bgsave_step s) = aof s"
    "rewrite_running (bgsave_step s) = rewrite_running s" "open_writers (bgsave_step s) = open_writers s"
    by (auto simp: bgsave_step_def write_rdb_def server_now_def on_db_def Let_def split_beta
        split: save_phase.splits sum.splits)
qed

text \<open>Whatever clients write meanwhile, a background save writes the keyspace of its snapshot.\<close>

lemma bgsave_writes_snapshot:
  assumes "bgsave_phase s = SaveWaiting" and "bgsave_phase t = bgsave_phase (bgsave_step s)"
    and "bgsave_phase u = bgsave_phase (bgsave_step t)" and "dump_rdb_bytes (db s) = (Inr payload, d)"
  shows "rdb_file (bgsave_step u) = (case disk_result u (disk_calls u) of Inl m \<Rightarrow> rdb_file u | Inr _ \<Rightarrow> Some payload)"
proof -
  obtain es d' where sn: "snapshot (db s) = (es, d')" by fastforce
  with assms(4) have pay: "dump_rdb_entries es = Inr payload" by (simp add: dump_rdb_bytes_def)
  have "bgsave_phase t = SaveEncoding es" using assms(1,2) sn by (simp add: bgsave_step_def on_db_def)
  with assms(3) pay have "bgsave_phase u = SaveWriting payload" by (simp add: bgsave_step_def)
  then show ?thesis
    by (auto simp: bgsave_step_def write_rdb_def server_now_def on_db_def Let_def split_beta split: sum.splits)
qed

lemma job_inv:
  assumes "store_inv (db s)"
  shows "store_inv (db (bgsave_step s))" and "store_inv (db (aof_rewrite_worker out s))"
proof -
  show "store_inv (db (bgsave_step s))" using bgsave_step_frame(1) [of s] assms by (simp add: quiet_def)
  have "quiet (db s) (db (aof_rewrite_worker out s))"
    using quiet_trans [OF quiet_reads(2) quiet_reads(1)]
    by (simp add: aof_rewrite_worker_def server_now_def on_db_def split_beta Let_def)
  then show "store_inv (db (aof_rewrite_worker out s))" using assms by (simp add: quiet_def)
qed

section \<open>The machine\<close>

inductive server_step :: "server \<Rightarrow> server \<Rightarrow> bool" where
  step_accept: "server_step s (snd (accept_client s))"
| step_serve: "server_step s (snd (snd (serve_messages conn msgs s)))"
| step_close: "server_step s (close_client conn s)"
| step_replicated: "server_step s (snd (apply_replicated_command c s))"
| step_full_sync: "load_rdb_bytes b mx now = Inr es \<Longrightarrow> server_step s (s\<lparr>db := load_entries es (db s)\<rparr>)"
| step_recover: "server_step s (snd (load_persistence s))"
| step_active_expiry: "server_step s (s\<lparr>db := snd (active_expire_cycle 20 sample (db s))\<rparr>)"
| step_bgsave: "server_step s (bgsave_step s)"
| step_rewrite: "server_step s (aof_rewrite_worker out s)"
| step_open_log: "server_step s (s\<lparr>aof := start_background_fsync (aof_open (aof s))\<rparr>)"
| step_fsync: "server_step s (s\<lparr>aof := fsync_round (aof s)\<rparr>)"
| step_drain: "server_step s (s\<lparr>master := drain_round conn a failed (master s)\<rparr>)"
| step_unregister: "server_step s (s\<lparr>master := unregister conn (master s)\<rparr>)"

inductive server_reachable :: "server \<Rightarrow> bool" where
  reach_start: "server_reachable (RedisServer cfg ver rid clk log rdb disk)"
| reach_next: "server_reachable s \<Longrightarrow> server_step s t \<Longrightarrow> server_reachable t"

lemma server_step_inv: "server_step s t \<Longrightarrow> store_inv (db s) \<Longrightarrow> store_inv (db t)"
proof (induction rule: server_step.induct)
  case (step_full_sync b mx now es s)
  then show ?case using load_entries_inv [OF load_rdb_entries_ok] by simp
qed (auto simp: accept_client_def close_client_def Let_def
    intro: serve_messages_inv apply_inv load_persistence_inv job_inv inv_intros)

lemma server_reachable_inv: "server_reachable s \<Longrightarrow> store_inv (db s)"
proof (induction rule: server_reachable.induct)
  case (reach_start cfg ver rid clk log rdb disk)
  then show ?case by (simp add: RedisServer_def new_store_inv)
next
  case (reach_next s t)
  then show ?case using server_step_inv by blast
qed

end
