(* ===== verification/Aof_Correct.thy ===== *)
theory Aof_Correct
  imports Aof
begin

text \<open>
  What the append-only log guarantees: an acknowledged command is in the file and can be read
  back, under \<open>always\<close> it is on disk, a file cut anywhere by a crash still yields the commands
  before the cut, a failed log never acknowledges again; and what it does not: a short write is
  acknowledged, and files the server itself wrote can exceed the limits of the reader's parser.
\<close>

section \<open>Reading what was written\<close>

lemma aof_parser_simps [simp]:
  "buf (aof_parser mb) = []" "max_bulk_len (aof_parser mb) = mb"
  "max_buffer_bytes (aof_parser mb) = 32000000" "max_array_len (aof_parser mb) = 1024"
  "max_array_depth (aof_parser mb) = 64"
  by (simp_all add: aof_parser_def default_parser_def RespParser_def)

definition loadable :: "int \<Rightarrow> bytes list \<Rightarrow> bool" where
  "loadable mb argv \<longleftrightarrow> argv \<noteq> [] \<and> command_fits (aof_parser mb) argv"

lemma aof_message_command: "argv \<noteq> [] \<Longrightarrow> aof_message (command_msg argv) = Inr (Some argv)"
proof -
  assume "argv \<noteq> []"
  moreover have "list_all is_bulk (map PBytes argv)" by (simp add: list_all_iff is_bulk_def)
  moreover have "map bulk_arg (map PBytes argv) = argv" by (induction argv) (simp_all add: bulk_arg_def)
  ultimately show ?thesis by (simp add: aof_message_def command_msg_def)
qed

lemma map_res_messages:
  "(\<And>argv. argv \<in> set cmds \<Longrightarrow> argv \<noteq> []) \<Longrightarrow>
   map_res aof_message (map command_msg cmds) = Inr (map Some cmds)"
  by (induction cmds) (simp_all add: aof_message_command)

lemma map_filter_Some [simp]: "List.map_filter id (map Some xs) = xs"
  by (induction xs) (simp_all add: List.map_filter_simps)

lemma read_drained:
  assumes d: "data \<noteq> []" "int (length data) \<le> max_file" "length data \<le> 32000000"
    and drain: "drain_at (aof_parser mb) data [] = (Inr (map command_msg cmds), rest)"
    and ne: "\<And>argv. argv \<in> set cmds \<Longrightarrow> argv \<noteq> []"
  shows "read_commands (Some data) mb max_file = Inr cmds"
proof -
  have "feed (aof_parser mb) data = (Inr (map command_msg cmds), (aof_parser mb)\<lparr>buf := rest\<rparr>)"
    using d drain by (simp add: feed_within_limit)
  then show ?thesis using d map_res_messages [OF ne] by (simp add: read_commands_def)
qed

lemma prefix_of_pipeline:
  assumes "b @ c = concat (map encode_command cmds)"
  obtains k torn where "k \<le> length cmds" "b = concat (map encode_command (take k cmds)) @ torn"
    and "k = length cmds \<and> torn = [] \<or> k < length cmds \<and> length torn < length (encode_command (cmds ! k))
      \<and> (\<exists>more. torn @ more = encode_command (cmds ! k))"
  using assms
proof (induction cmds arbitrary: b thesis)
  case Nil
  then show ?case by (auto intro: Nil.prems(1) [of 0 "[]"])
next
  case (Cons cmd cmds)
  show ?case
  proof (cases "length b < length (encode_command cmd)")
    case True
    from Cons.prems(2) have "take (length b) (b @ c) = take (length b) (encode_command cmd @ concat (map encode_command cmds))"
      by simp
    with True have "b = take (length b) (encode_command cmd)" by simp
    then have "\<exists>more. b @ more = encode_command cmd" by (metis append_take_drop_id)
    with True show ?thesis by (intro Cons.prems(1) [of 0 b]) auto
  next
    case False
    let ?e = "encode_command cmd"
    from Cons.prems(2) have "take (length ?e) (b @ c) = take (length ?e) (?e @ concat (map encode_command cmds))"
      by simp
    with False have "take (length ?e) b = ?e" by simp
    then obtain b' where b: "b = ?e @ b'" by (metis append_take_drop_id)
    with Cons.prems(2) have "b' @ c = concat (map encode_command cmds)" by simp
    from Cons.IH [OF _ this] obtain k torn where kt: "k \<le> length cmds"
      "b' = concat (map encode_command (take k cmds)) @ torn"
      "k = length cmds \<and> torn = [] \<or> k < length cmds \<and> length torn < length (encode_command (cmds ! k))
        \<and> (\<exists>more. torn @ more = encode_command (cmds ! k))" by blast
    then show ?thesis by (intro Cons.prems(1) [of "Suc k" torn]) (auto simp: b)
  qed
qed

lemma drain_torn:
  assumes "\<forall>argv\<in>set cmds. loadable mb argv" and "b @ c = concat (map encode_command cmds)"
  shows "\<exists>k rest. drain_at (aof_parser mb) b [] = (Inr (map command_msg (take k cmds)), rest)
    \<and> b = concat (map encode_command (take k cmds)) @ rest \<and> k \<le> length cmds
    \<and> length (concat (map encode_command (take k cmds))) \<le> length b
    \<and> (k < length cmds \<longrightarrow> length b < length (concat (map encode_command (take (Suc k) cmds))))"
proof -
  obtain k torn where k: "k \<le> length cmds" and b: "b = concat (map encode_command (take k cmds)) @ torn"
    and torn: "k = length cmds \<and> torn = [] \<or> k < length cmds \<and> length torn < length (encode_command (cmds ! k))
      \<and> (\<exists>more. torn @ more = encode_command (cmds ! k))"
    using assms(2) by (rule prefix_of_pipeline)
  let ?p = "aof_parser mb"
  have fits: "\<forall>argv\<in>set (take k cmds). command_fits ?p argv"
    using assms(1) by (auto simp: loadable_def dest: in_set_takeD)
  have "drain_at ?p torn ms = (Inr ms, torn)" for ms
    using torn
  proof (elim disjE conjE exE)
    fix more assume lt: "k < length cmds" and t: "length torn < length (encode_command (cmds ! k))"
      "torn @ more = encode_command (cmds ! k)"
    have "command_fits ?p (cmds ! k)" using assms(1) lt by (auto simp: loadable_def)
    from parse_at_command [OF this, of "[]"] t(2)
    have "parse_at ?p (torn @ more) = Inr (command_msg (cmds ! k), length (encode_command (cmds ! k)))"
      by simp
    from resp.proper_prefix_incomplete [OF this t(1)] obtain w where "parse_at ?p torn = Inr (w, 0)" ..
    then show ?thesis by (rule resp.drain_incomplete)
  qed simp
  then have "drain_at ?p b [] = (Inr (map command_msg (take k cmds)), torn)"
    using drain_commands [OF fits, of torn "[]"] by (simp add: b)
  moreover have "length b < length (concat (map encode_command (take (Suc k) cmds)))" if "k < length cmds"
    using that torn by (auto simp: b take_Suc_conv_app_nth)
  moreover have "length (concat (map encode_command (take k cmds))) \<le> length b" by (simp add: b)
  ultimately show ?thesis using k b by blast
qed

lemma read_torn:
  assumes "\<forall>argv\<in>set cmds. loadable mb argv" and "data = take n (concat (map encode_command cmds))"
    and "int (length data) \<le> max_file" and "length data \<le> 32000000"
  shows "\<exists>k. read_commands (Some data) mb max_file = Inr (take k cmds)
    \<and> length (concat (map encode_command (take k cmds))) \<le> length data
    \<and> (k < length cmds \<longrightarrow> length data < length (concat (map encode_command (take (Suc k) cmds))))"
proof -
  have "data @ drop n (concat (map encode_command cmds)) = concat (map encode_command cmds)"
    by (simp add: assms(2))
  from drain_torn [OF assms(1) this] obtain k rest where
    d: "drain_at (aof_parser mb) data [] = (Inr (map command_msg (take k cmds)), rest)"
    and k: "length (concat (map encode_command (take k cmds))) \<le> length data"
      "k < length cmds \<longrightarrow> length data < length (concat (map encode_command (take (Suc k) cmds)))"
    by blast
  show ?thesis
  proof (cases "data = []")
    case True
    with d have "take k cmds = []" by auto
    with True k show ?thesis by (intro exI [of _ k]) (simp add: read_commands_def)
  next
    case False
    have "argv \<noteq> []" if "argv \<in> set (take k cmds)" for argv
      using that assms(1) by (auto simp: loadable_def dest: in_set_takeD)
    from read_drained [OF False assms(3,4) d this] k show ?thesis by blast
  qed
qed

text \<open>C18: Crash recovery: of a log file holding any loadable commands and cut at any byte, \<open>read_commands\<close>
  recovers exactly the commands that are complete before the cut, in order; the torn tail is
  ignored and never reported as an error.\<close>

theorem aof_torn_tail:
  assumes "\<forall>argv\<in>set cmds. loadable mb argv" and "data = take n (concat (map encode_command cmds))"
    and "int (length data) \<le> max_file" and "length data \<le> 32000000"
  shows "\<exists>k. read_commands (Some data) mb max_file = Inr (take k cmds)
    \<and> length (concat (map encode_command (take k cmds))) \<le> length data
    \<and> (k < length cmds \<longrightarrow> length data < length (concat (map encode_command (take (Suc k) cmds))))"
  using assms by (rule read_torn)

lemma loadable_small:
  "argv \<noteq> [] \<Longrightarrow> length argv \<le> 1024 \<Longrightarrow> (\<And>a. a \<in> set argv \<Longrightarrow> int (length a) \<le> mb \<and> length a \<le> 32000000) \<Longrightarrow>
   loadable mb argv"
  by (auto simp: loadable_def command_fits_iff intro!: size_ok_parser)

theorem aof_torn_tail_witness:
  "\<exists>k. read_commands (Some (take 20 (concat (map encode_command [[''PING''], [''PING'']])))) 1024 1000
     = Inr (take k [[''PING''], [''PING'']])"
proof -
  let ?cs = "[[''PING''], [''PING'']]"
  have "loadable 1024 [''PING'']" by (rule loadable_small) auto
  then have "\<forall>argv\<in>set ?cs. loadable 1024 argv" by simp
  moreover have "length (take 20 (concat (map encode_command ?cs))) \<le> 20" by simp
  ultimately show ?thesis
    using aof_torn_tail [of ?cs 1024 "take 20 (concat (map encode_command ?cs))" 20 1000] by auto
qed

section \<open>Acknowledgements\<close>

text \<open>The log as the running server has it, between two appends.\<close>

definition log_ready :: "aof_log \<Rightarrow> bool" where
  "log_ready l \<longleftrightarrow> aof_enabled l \<and> fh_open l \<and> writer_task l \<and> aof_queue l = []"

text \<open>The file system never writes less than asked for.\<close>

definition full_writes :: "aof_log \<Rightarrow> bool" where
  "full_writes l \<longleftrightarrow> (\<forall>i n. write_result l i \<noteq> Inr (Some n))"

lemma aof_append_failed:
  "log_ready l \<Longrightarrow> failure l \<noteq> None \<Longrightarrow> \<exists>e. aof_append argv l = (Inl e, l)"
  by (auto simp: aof_append_def log_ready_def split: option.splits)

lemmas append_defs = aof_append_def writer_round_def write_item_def write_sync_def fsync_sync_def Let_def

lemma aof_append_frame:
  assumes "log_ready l" and "aof_append argv l = (r, l')"
  shows "log_ready l' \<and> fsync_policy l' = fsync_policy l \<and> write_result l' = write_result l"
  using assms
  by (auto simp: append_defs log_ready_def split: option.splits sum.splits if_splits)

lemma aof_append_ok:
  assumes "log_ready l" and "aof_append argv l = (Inr (), l')" and "full_writes l"
  shows "failure l = None" and "failure l' = None" and "aof_file l' = aof_file l @ encode_command argv"
    and "fsync_policy l = Always \<Longrightarrow> aof_synced l' = length (aof_file l')"
  using assms
  by (auto simp: append_defs log_ready_def full_writes_def split: option.splits sum.splits if_splits)

lemma aof_append_error:
  assumes "log_ready l" and "aof_append argv l = (Inl e, l')" and "full_writes l"
  shows "failure l' \<noteq> None" and "aof_synced l' = aof_synced l"
    and "aof_file l' = aof_file l \<or> aof_file l' = aof_file l @ encode_command argv"
    and "failure l \<noteq> None \<Longrightarrow> aof_file l' = aof_file l"
  using assms
  by (auto simp: append_defs log_ready_def full_writes_def split: option.splits sum.splits if_splits)

text \<open>A run of appends, one after the other, with the result each caller sees.\<close>

fun append_each :: "bytes list list \<Rightarrow> aof_log \<Rightarrow> unit res list \<times> aof_log" where
  "append_each [] l = ([], l)"
| "append_each (c # cs) l =
     (let (r, l1) = aof_append c l; (rs, l2) = append_each cs l1 in (r # rs, l2))"

lemma append_each_failed:
  "log_ready l \<Longrightarrow> failure l \<noteq> None \<Longrightarrow>
   snd (append_each cmds l) = l \<and> (\<forall>r\<in>set (fst (append_each cmds l)). r \<noteq> Inr ())"
proof (induction cmds)
  case (Cons c cs)
  from aof_append_failed [OF Cons.prems, of c] obtain e where "aof_append c l = (Inl e, l)" ..
  with Cons show ?case by (simp add: split_beta Let_def)
qed simp

text \<open>
  Up to the first error every append is acknowledged and in the file; from it on none is, and at
  most the failing command's bytes stand behind the acknowledged ones.
\<close>

lemma append_each_spec:
  assumes "log_ready l" and "append_each cmds l = (rs, l')"
    and "full_writes l"
  shows "\<exists>k m. k \<le> m \<and> m \<le> Suc k \<and> m \<le> length cmds
    \<and> aof_file l' = aof_file l @ concat (map encode_command (take m cmds))
    \<and> (\<forall>i<length cmds. rs ! i = Inr () \<longrightarrow> i < k)
    \<and> (fsync_policy l = Always \<longrightarrow> aof_synced l = length (aof_file l) \<longrightarrow>
         aof_synced l' = length (aof_file l @ concat (map encode_command (take k cmds))))"
  using assms
proof (induction cmds arbitrary: l rs)
  case Nil
  then show ?case by (intro exI [of _ 0]) simp
next
  case (Cons c cs)
  obtain r l1 where ap: "aof_append c l = (r, l1)" by (cases "aof_append c l")
  obtain rs' where rest: "append_each cs l1 = (rs', l')" and rs: "rs = r # rs'"
    using Cons.prems(2) ap by (auto simp: Let_def split: prod.splits)
  note fwc = Cons.prems(3)
  have fr: "log_ready l1" "fsync_policy l1 = fsync_policy l" "write_result l1 = write_result l"
    using aof_append_frame [OF Cons.prems(1) ap] by simp_all
  show ?case
  proof (cases r)
    case (Inr u)
    then have ok: "aof_append c l = (Inr (), l1)" using ap by simp
    have fw1: "full_writes l1" using fwc fr(3) by (simp add: full_writes_def)
    from Cons.IH [OF fr(1) rest fw1] obtain k m where km: "k \<le> m" "m \<le> Suc k" "m \<le> length cs"
      "aof_file l' = aof_file l1 @ concat (map encode_command (take m cs))"
      "\<forall>i<length cs. rs' ! i = Inr () \<longrightarrow> i < k"
      "fsync_policy l1 = Always \<longrightarrow> aof_synced l1 = length (aof_file l1) \<longrightarrow>
         aof_synced l' = length (aof_file l1 @ concat (map encode_command (take k cs)))" by blast
    note ack = aof_append_ok [OF Cons.prems(1) ok fwc]
    have "rs ! i = Inr () \<longrightarrow> i < Suc k" if "i < length (c # cs)" for i
      using that km(5) rs by (cases i) auto
    then show ?thesis
      using km ack fr by (intro exI [of _ "Suc k"] exI [of _ "Suc m"]) auto
  next
    case (Inl e)
    then have err: "aof_append c l = (Inl e, l1)" using ap by simp
    note bad = aof_append_error [OF Cons.prems(1) err fwc]
    have "snd (append_each cs l1) = l1" and none: "\<forall>r\<in>set (fst (append_each cs l1)). r \<noteq> Inr ()"
      using append_each_failed [OF fr(1) bad(1), of cs] by blast+
    with rest have l': "l' = l1" by simp
    have len: "length rs' = length cs" using rest
    proof (induction cs arbitrary: l1 rs')
      case (Cons c cs) then show ?case by (auto simp: Let_def split: prod.splits)
    qed simp
    have "rs ! i \<noteq> Inr ()" if "i < length (c # cs)" for i
      using that none rest rs Inl len by (cases i) (auto simp: all_set_conv_all_nth)
    then show ?thesis
      using bad l'
      by (intro exI [of _ 0] exI [of _ "if aof_file l1 = aof_file l then 0 else Suc 0"]) auto
  qed
qed

lemma take_pipeline_length:
  "i \<le> j \<Longrightarrow> length (concat (map encode_command (take i cmds))) \<le> length (concat (map encode_command (take j cmds)))"
proof -
  assume "i \<le> j"
  then have "take j cmds = take i cmds @ take (j - i) (drop i cmds)" by (metis le_add_diff_inverse take_add)
  then show ?thesis by simp
qed

text \<open>C4: Durability, for every fsync policy: append any commands to a running log whose file holds
  commands \<open>old\<close>, some calls possibly failing, and let the machine crash so that only the first \<open>n\<close>
  bytes of the file survive. Reading the file afterwards gives a prefix of \<open>old @ cmds\<close>. It contains
  every acknowledged command whose bytes are among those \<open>n\<close>, and under \<open>always\<close>, where the file was
  synced before, it contains every acknowledged command as soon as the crash kept what an fsync has
  confirmed.\<close>

theorem acknowledged_commands_survive:
  assumes "log_ready l" and "aof_file l = concat (map encode_command old)"
    and "\<forall>argv\<in>set (old @ cmds). loadable mb argv"
    and "full_writes l"
    and "append_each cmds l = (rs, l')"
    and "length (aof_file l') \<le> 32000000" and "int (length (aof_file l')) \<le> max_file"
  shows "\<exists>j. read_commands (Some (take n (aof_file l'))) mb max_file = Inr (take j (old @ cmds))
    \<and> (\<forall>i<length cmds. rs ! i = Inr () \<longrightarrow>
         length (concat (map encode_command (old @ take (Suc i) cmds))) \<le> n
         \<or> fsync_policy l = Always \<and> aof_synced l = length (aof_file l) \<and> aof_synced l' \<le> n \<longrightarrow>
         length old + i < j)"
proof -
  from append_each_spec [OF assms(1,5,4)] obtain k m where
    km: "k \<le> m" "m \<le> length cmds"
    and fl: "aof_file l' = aof_file l @ concat (map encode_command (take m cmds))"
    and acks: "\<forall>i<length cmds. rs ! i = Inr () \<longrightarrow> i < k"
    and sync: "fsync_policy l = Always \<longrightarrow> aof_synced l = length (aof_file l) \<longrightarrow>
         aof_synced l' = length (aof_file l @ concat (map encode_command (take k cmds)))"
    by blast
  let ?all = "old @ take m cmds" and ?data = "take n (aof_file l')"
  have all: "aof_file l' = concat (map encode_command ?all)" by (simp add: fl assms(2))
  have load: "\<forall>argv\<in>set ?all. loadable mb argv" using assms(3) by (auto dest: in_set_takeD)
  have lim: "int (length ?data) \<le> max_file" "length ?data \<le> 32000000" using assms(6,7) by auto
  from read_torn [OF load _ lim, of n] all obtain j where
    rd: "read_commands (Some ?data) mb max_file = Inr (take j ?all)"
    and low: "j < length ?all \<longrightarrow> length ?data < length (concat (map encode_command (take (Suc j) ?all)))"
    by auto
  have "length old + i < j"
    if i: "i < length cmds" "rs ! i = Inr ()"
      and n: "length (concat (map encode_command (old @ take (Suc i) cmds))) \<le> n
        \<or> fsync_policy l = Always \<and> aof_synced l = length (aof_file l) \<and> aof_synced l' \<le> n" for i
  proof (rule ccontr)
    assume "\<not> length old + i < j"
    have ik: "i < k" using acks i by blast
    have upto: "old @ take (Suc i) cmds = take (length old + Suc i) ?all" using ik km by (simp add: min_absorb1)
    have "length (concat (map encode_command (take (Suc i) cmds)))
        \<le> length (concat (map encode_command (take k cmds)))"
      using ik by (intro take_pipeline_length) simp
    then have "length (concat (map encode_command (old @ take (Suc i) cmds))) \<le> n"
      using n sync by (auto simp: assms(2))
    moreover have "length (concat (map encode_command (old @ take (Suc i) cmds))) \<le> length (aof_file l')"
      using take_pipeline_length [of "length old + Suc i" "length ?all" ?all] ik km
      unfolding upto by (simp add: all)
    ultimately have "length (concat (map encode_command (take (length old + Suc i) ?all))) \<le> length ?data"
      unfolding upto by simp
    moreover have "length (concat (map encode_command (take (Suc j) ?all)))
        \<le> length (concat (map encode_command (take (length old + Suc i) ?all)))"
      using \<open>\<not> length old + i < j\<close> by (intro take_pipeline_length) simp
    moreover have "j < length ?all" using \<open>\<not> length old + i < j\<close> ik km by auto
    ultimately show False using low by linarith
  qed
  moreover have "take j ?all = take (min j (length ?all)) (old @ cmds)"
    using km by (auto simp: min_def take_append)
  moreover have "length old + i < length ?all" if "i < length cmds" "rs ! i = Inr ()" for i
    using acks that km by auto
  ultimately show ?thesis using rd by (intro exI [of _ "min j (length ?all)"]) auto
qed

definition running_log :: "fsync_policy \<Rightarrow> aof_log" where
  "running_log pol = start_background_fsync (aof_open (AOFLog pol True [] (\<lambda>i. Inr None) (\<lambda>i. Inr 1)))"

lemma running_log_ready: "log_ready (running_log pol)"
  by (simp add: running_log_def start_background_fsync_def aof_open_def AOFLog_def log_ready_def)

lemma running_log_simps [simp]:
  "fsync_policy (running_log pol) = pol" "aof_file (running_log pol) = []"
  "aof_synced (running_log pol) = 0" "full_writes (running_log pol)"
  by (simp_all add: running_log_def start_background_fsync_def aof_open_def AOFLog_def full_writes_def)

theorem acknowledged_commands_survive_witness:
  "read_commands (Some (take 14 (aof_file (snd (append_each [[''PING'']] (running_log Everysec)))))) 1024 1000
     = Inr [[''PING'']]"
proof -
  let ?l = "running_log Everysec"
  have len: "length (encode_command [''PING'']) = 14" by code_simp
  have run: "fst (append_each [[''PING'']] ?l) = [Inr ()]"
    "aof_file (snd (append_each [[''PING'']] ?l)) = encode_command [''PING'']"
    by code_simp+
  then have pair: "append_each [[''PING'']] ?l = ([Inr ()], snd (append_each [[''PING'']] ?l))"
    by (metis prod.collapse)
  have "loadable 1024 [''PING'']" by (rule loadable_small) auto
  then show ?thesis
    using acknowledged_commands_survive [of ?l "[]" "[[''PING'']]" 1024 "[Inr ()]"
        "snd (append_each [[''PING'']] ?l)" 1000 14] running_log_ready pair run(2) len
    by (auto simp: take_Cons')
qed

text \<open>Fail-stop: after a persistence error the log acknowledges no append and changes no byte of
  the file until it is reopened.\<close>

lemma failed_log_refuses:
  assumes "log_ready l" and "failure l \<noteq> None"
  shows "snd (append_each cmds l) = l \<and> (\<forall>r\<in>set (fst (append_each cmds l)). r \<noteq> Inr ())"
  using append_each_failed [OF assms] .

lemma failed_log_refuses_witness:
  "Inr () \<notin> set (fst (append_each [[''PING''], [''PING'']] ((running_log Everysec)\<lparr>failure := Some []\<rparr>)))"
  using failed_log_refuses [of "(running_log Everysec)\<lparr>failure := Some []\<rparr>" "[[''PING''], [''PING'']]"]
    running_log_ready [of Everysec]
  by (auto simp: log_ready_def)

section \<open>Limits\<close>

text \<open>A short write is acknowledged: when the unbuffered \<open>write\<close> stores only \<open>n\<close> of the payload's
  bytes, which a file opened with \<open>buffering=0\<close> may do, \<open>append\<close> still reports success and the
  file holds a torn command in the middle of the log.\<close>

lemma short_write_acknowledged:
  assumes "log_ready l" and "failure l = None" and "write_result l (os_calls l) = Inr (Some n)"
    and "fsync_policy l \<noteq> Always"
  shows "fst (aof_append argv l) = Inr ()
    \<and> aof_file (snd (aof_append argv l)) = aof_file l @ take n (encode_command argv)"
  using assms by (simp add: append_defs log_ready_def)

lemma short_write_acknowledged_witness:
  "fst (aof_append [''PING''] ((running_log NoFsync)\<lparr>write_result := \<lambda>i. Inr (Some 3)\<rparr>)) = Inr ()
   \<and> aof_file (snd (aof_append [''PING''] ((running_log NoFsync)\<lparr>write_result := \<lambda>i. Inr (Some 3)\<rparr>)))
       = take 3 (encode_command [''PING''])"
  using short_write_acknowledged [of "(running_log NoFsync)\<lparr>write_result := \<lambda>i. Inr (Some 3)\<rparr>" 3 "[''PING'']"]
    running_log_ready [of NoFsync]
  by (simp add: log_ready_def running_log_def start_background_fsync_def aof_open_def AOFLog_def)

text \<open>The reader's parser keeps its default buffer limit, so a log of more than 32,000,000 bytes is
  refused although the configured load limit (1 GiB by default) allows it.\<close>

lemma aof_over_32MB_refused:
  assumes "32000000 < length data" and "int (length data) \<le> max_file"
  shows "read_commands (Some data) mb max_file = Inl (AofError (AofProtocol (BufferLimit 32000000)))"
  using assms by (auto simp: read_commands_def feed_def)

lemma aof_over_32MB_refused_witness:
  "read_commands (Some (replicate 32000001 CHR ''x'')) 16777216 (1024 * 1024 * 1024)
     = Inl (AofError (AofProtocol (BufferLimit 32000000)))"
  using aof_over_32MB_refused [of "replicate 32000001 CHR ''x''" "1024 * 1024 * 1024" 16777216]
  by (simp only: length_replicate)

lemma parse_long_array:
  assumes "1024 < length argv" and "size_ok (length argv)"
  shows "parse_at (aof_parser mb) (encode_command argv @ rest)
      = Inl (ProtocolError (ArrayTooLong (int (length argv))))"
proof -
  let ?p = "(aof_parser mb)\<lparr>buf := encode_command argv @ rest\<rparr>"
  have b: "buf ?p = [] @ CHR ''*'' # dec_nat (length argv) @ crlf @ concat (map bulk_of argv) @ rest"
    by (simp add: encode_command_def array_header_def)
  from read_line_at [OF b] nth_at [OF b] show ?thesis
    using assms py_int_size [OF assms(2)]
    by (simp add: parse_at_def try_parse.simps parse_array_def)
qed

text \<open>A command with more than 1024 arguments, such as the \<open>LPUSH\<close> or \<open>HSET\<close> the rewrite emits for
  a list of 1023 elements or more, makes the whole log unreadable.\<close>

lemma long_command_unloadable:
  assumes "1024 < length argv" and "length (encode_command argv @ rest) \<le> 32000000"
    and "int (length (encode_command argv @ rest)) \<le> max_file"
  shows "read_commands (Some (encode_command argv @ rest)) mb max_file
      = Inl (AofError (AofProtocol (ArrayTooLong (int (length argv)))))"
proof -
  have "length argv \<le> length (concat (map bulk_of argv))"
    by (induction argv) (auto simp: bulk_of_def)
  then have "length argv \<le> 32000000" using assms(2) by (simp add: encode_command_def)
  then have "drain_at (aof_parser mb) (encode_command argv @ rest) []
      = (Inl (ProtocolError (ArrayTooLong (int (length argv)))), encode_command argv @ rest)"
    by (subst resp.drain_unfold) (simp add: parse_long_array [OF assms(1)] size_ok_parser)
  then have "fst (feed (aof_parser mb) (encode_command argv @ rest))
      = Inl (ProtocolError (ArrayTooLong (int (length argv))))"
    using assms(2) by (simp add: feed_within_limit)
  then show ?thesis using assms(3) by (simp add: read_commands_def)
qed

lemma long_command_unloadable_witness:
  "read_commands (Some (encode_command (''LPUSH'' # ''k'' # replicate 1023 [])))  1024 100000
     = Inl (AofError (AofProtocol (ArrayTooLong 1025)))"
proof -
  let ?argv = "''LPUSH'' # ''k'' # replicate 1023 []"
  have n: "length ?argv = 1025" by simp
  have h: "length (array_header 1025) = 7" "length (bulk_of ''LPUSH'') = 11" "length (bulk_of ''k'') = 7"
    "length (bulk_of []) = 6"
    by code_simp+
  have "length (concat (map bulk_of ?argv)) = 18 + 1023 * 6"
    by (simp add: h length_concat map_replicate_const sum_list_replicate comp_def)
  then have "length (encode_command ?argv) = 6163" unfolding encode_command_def n by (simp add: h)
  then show ?thesis using long_command_unloadable [of ?argv "[]" 100000 1024] n by simp
qed

section \<open>Shutting down\<close>

text \<open>
  Closing the log after any run of appends leaves every byte of the file on disk when the last
  fsync succeeds; the invariant is that a file with bytes not yet synced is marked dirty.
\<close>

definition sync_marked :: "aof_log \<Rightarrow> bool" where
  "sync_marked l \<longleftrightarrow> dirty l \<or> aof_synced l = length (aof_file l)"

lemma append_sync_marked: "sync_marked l \<Longrightarrow> sync_marked (snd (aof_append argv l))"
  by (auto simp: sync_marked_def append_defs split: option.splits sum.splits list.splits)

lemma append_each_sync_marked: "sync_marked l \<Longrightarrow> sync_marked (snd (append_each cmds l))"
  by (induction cmds arbitrary: l) (auto simp: split_beta Let_def append_sync_marked)

lemma close_syncs:
  assumes "log_ready l" and "sync_marked l" and "dirty l \<Longrightarrow> \<exists>t. fsync_result l (os_calls l) = Inr t"
  shows "aof_synced (aof_close l) = length (aof_file (aof_close l))" and "aof_file (aof_close l) = aof_file l"
  using assms
  by (auto simp: aof_close_def log_ready_def drain_queue.simps [of l] fsync_sync_def sync_marked_def Let_def)

end
