(* ===== verification/Master_Machine.thy ===== *)
theory Master_Machine
  imports Master
begin

text \<open>
  Replication as the interleaving of its coroutines: clients' writes, the full resynchronisations
  in progress, the drain tasks and disconnections. Two ghost fields record what the theorems speak
  about: \<open>history\<close>, the commands handed to \<open>propagate\<close> so far, and for every link the \<open>session\<close> it
  belongs to: the length of the history and the replication offset when it was registered (the
  moment of its snapshot, since both happen under the write lock), and the bytes that transfer the
  snapshot. The invariant says that every link has been sent its snapshot followed by the encoded
  commands since then, without gap, repetition or reordering.
\<close>

section \<open>Steps\<close>

record session =
  since :: nat
  start_offset :: nat
  snapshot_data :: bytes
  snapshot_sent :: bool
  went_live :: bool

record replication =
  rmaster :: master
  history :: "bytes list list"
  sessions :: "session list"

definition new_session :: "bytes \<Rightarrow> replication \<Rightarrow> session" where
  "new_session data r =
     \<lparr>since = length (history r), start_offset = repl_offset (rmaster r), snapshot_data = data,
      snapshot_sent = False, went_live = False\<rparr>"

definition begin_resync :: "nat \<Rightarrow> bytes \<Rightarrow> replication \<Rightarrow> replication" where
  "begin_resync conn data r =
     r\<lparr>rmaster := snd (register_syncing conn (rmaster r)), sessions := sessions r @ [new_session data r]\<rparr>"

definition send_snapshot :: "nat \<Rightarrow> replication \<Rightarrow> replication" where
  "send_snapshot a r =
     r\<lparr>rmaster := resync_write a (snapshot_data (sessions r ! a)) (rmaster r),
       sessions := (sessions r)[a := (sessions r ! a)\<lparr>snapshot_sent := True\<rparr>]\<rparr>"

definition flush_backlog :: "nat \<Rightarrow> replication \<Rightarrow> replication" where
  "flush_backlog a r =
     (let (live, m) = flush_round a (rmaster r)
      in if live
         then r\<lparr>rmaster := start_drain_task a m, sessions := (sessions r)[a := (sessions r ! a)\<lparr>went_live := True\<rparr>]\<rparr>
         else r\<lparr>rmaster := m\<rparr>)"

definition write_command :: "(nat \<Rightarrow> bool) \<Rightarrow> bytes list \<Rightarrow> replication \<Rightarrow> replication" where
  "write_command raises cmd r = r\<lparr>rmaster := propagate raises cmd (rmaster r), history := history r @ [cmd]\<rparr>"

text \<open>
  A connection id is used once (\<open>_conn_seq\<close> only grows), so a resynchronisation starts on an id that
  is not registered. Its failure at any point is a disconnection.
\<close>

inductive repl_step :: "replication \<Rightarrow> replication \<Rightarrow> bool" where
  step_begin:
    "conn \<notin> set (dict_keys (replicas (rmaster r))) \<Longrightarrow>
     resync_payload (replid (rmaster r)) (repl_offset (rmaster r)) es = Inr data \<Longrightarrow>
     repl_step r (begin_resync conn data r)"
| step_send:
    "a < length (sessions r) \<Longrightarrow> \<not> snapshot_sent (sessions r ! a) \<Longrightarrow> repl_step r (send_snapshot a r)"
| step_flush:
    "a < length (sessions r) \<Longrightarrow> snapshot_sent (sessions r ! a) \<Longrightarrow> \<not> went_live (sessions r ! a) \<Longrightarrow>
     repl_step r (flush_backlog a r)"
| step_write: "repl_step r (write_command raises cmd r)"
| step_drain:
    "a < length (sessions r) \<Longrightarrow> repl_step r (r\<lparr>rmaster := drain_round conn a failed (rmaster r)\<rparr>)"
| step_disconnect: "repl_step r (r\<lparr>rmaster := unregister conn (rmaster r)\<rparr>)"

inductive repl_reachable :: "replication \<Rightarrow> bool" where
  repl_start: "repl_reachable \<lparr>rmaster = MasterReplication bmax pmax rid, history = [], sessions = []\<rparr>"
| repl_next: "repl_reachable r \<Longrightarrow> repl_step r r' \<Longrightarrow> repl_reachable r'"

section \<open>The invariant\<close>

text \<open>The commands executed since a session's snapshot, and a link's position among them.\<close>

definition commands_since :: "replication \<Rightarrow> nat \<Rightarrow> bytes list list" where
  "commands_since r a = drop (since (sessions r ! a)) (history r)"

definition stream :: "bytes list list \<Rightarrow> bytes" where
  "stream cmds = concat (map encode_command cmds)"

lemma stream_append [simp]: "stream (a @ b) = stream a @ stream b" "stream [] = []" "stream [c] = encode_command c"
  by (simp_all add: stream_def)

text \<open>
  \<open>j\<close> commands have been written and those up to \<open>k\<close> wait in the backlog; a link that is alive has
  missed none.
\<close>

definition position :: "session \<Rightarrow> bytes list list \<Rightarrow> replica_link \<Rightarrow> nat \<Rightarrow> nat \<Rightarrow> bool" where
  "position s cmds l j k \<longleftrightarrow>
     j \<le> k \<and> k \<le> length cmds
     \<and> backlog l = map encode_command (drop j (take k cmds))
     \<and> written l = (if snapshot_sent s then snapshot_data s @ stream (take j cmds) else [])
     \<and> (\<not> snapshot_sent s \<longrightarrow> j = 0 \<and> link_state l = Syncing)
     \<and> (link_state l = Live \<longrightarrow> j = k)
     \<and> (link_alive l \<longrightarrow> k = length cmds)"

definition link_ok :: "int \<Rightarrow> int \<Rightarrow> nat \<Rightarrow> session \<Rightarrow> bytes list list \<Rightarrow> replica_link \<Rightarrow> bool" where
  "link_ok bmax pmax off s cmds l \<longleftrightarrow>
     (\<exists>j k. position s cmds l j k)
     \<and> backlog_bytes l = length (concat (backlog l)) \<and> int (backlog_bytes l) \<le> max 0 bmax
     \<and> int (pending_drains l) \<le> max 0 pmax
     \<and> (link_alive l \<longrightarrow> link_offset l = off \<and> off = start_offset s + length (stream cmds))"

definition table_ok :: "master \<Rightarrow> bool" where
  "table_ok m \<longleftrightarrow>
     distinct (map snd (replicas m)) \<and> dict_ok (replicas m)
     \<and> (\<forall>a\<in>snd ` set (replicas m). a < length (links m))
     \<and> (\<forall>a<length (links m). link_alive (links m ! a) \<longrightarrow> a \<in> snd ` set (replicas m))"

definition repl_inv :: "replication \<Rightarrow> bool" where
  "repl_inv r \<longleftrightarrow>
     table_ok (rmaster r) \<and> length (sessions r) = length (links (rmaster r))
     \<and> (\<forall>a<length (links (rmaster r)).
          since (sessions r ! a) \<le> length (history r)
          \<and> link_ok (backlog_max_bytes (rmaster r)) (pending_max_commands (rmaster r)) (repl_offset (rmaster r))
              (sessions r ! a) (commands_since r a) (links (rmaster r) ! a))"

section \<open>What each operation does to one link\<close>

lemma link_ok_irrelevant [simp]:
  "link_ok bmax pmax off s cmds (l\<lparr>drain_task := b\<rparr>) = link_ok bmax pmax off s cmds l"
  "link_ok bmax pmax off (s\<lparr>went_live := b\<rparr>) cmds l = link_ok bmax pmax off s cmds l"
  by (simp_all add: link_ok_def position_def)

lemma link_ok_pending:
  "link_ok bmax pmax off s cmds l \<Longrightarrow> link_ok bmax pmax off s cmds (l\<lparr>pending_drains := pending_drains l - 1\<rparr>)"
  by (auto simp: link_ok_def position_def)

lemma link_ok_new:
  "link_ok bmax pmax off (\<lparr>since = n, start_offset = off, snapshot_data = d, snapshot_sent = False, went_live = False\<rparr>) []
     (new_link off Syncing)"
  by (auto simp: link_ok_def position_def new_link_def)

lemma link_ok_send:
  assumes "link_ok bmax pmax off s cmds l" and "\<not> snapshot_sent s"
  shows "link_ok bmax pmax off (s\<lparr>snapshot_sent := True\<rparr>) cmds (l\<lparr>written := written l @ snapshot_data s\<rparr>)"
  using assms by (fastforce simp: link_ok_def position_def)

lemma link_ok_flush:
  assumes "link_ok bmax pmax off s cmds l" and "snapshot_sent s"
  shows "backlog l = [] \<Longrightarrow>
      link_ok bmax pmax off s cmds (l\<lparr>backlog := [], backlog_bytes := 0, link_state := Live, link_offset := off\<rparr>)"
    and "link_ok bmax pmax off s cmds (l\<lparr>backlog := [], backlog_bytes := 0, written := written l @ concat (backlog l)\<rparr>)"
proof -
  obtain j k where p: "position s cmds l j k" using assms(1) by (auto simp: link_ok_def)
  have "stream (take k cmds) = stream (take j (take k cmds)) @ stream (drop j (take k cmds))"
    by (metis append_take_drop_id stream_append(1))
  moreover have "take j (take k cmds) = take j cmds" using p by (simp add: position_def min_absorb1)
  ultimately have split: "stream (take k cmds) = stream (take j cmds) @ concat (backlog l)"
    using p by (simp add: position_def stream_def)
  have "position s cmds (l\<lparr>backlog := [], backlog_bytes := 0, written := written l @ concat (backlog l)\<rparr>) k k"
    using p split assms(2) by (auto simp: position_def)
  then show "link_ok bmax pmax off s cmds (l\<lparr>backlog := [], backlog_bytes := 0, written := written l @ concat (backlog l)\<rparr>)"
    using assms(1) by (auto simp: link_ok_def)
  assume empty: "backlog l = []"
  have "position s cmds (l\<lparr>backlog := [], backlog_bytes := 0, link_state := Live, link_offset := off\<rparr>) k k"
    using p split assms(2) empty by (auto simp: position_def)
  then show "link_ok bmax pmax off s cmds (l\<lparr>backlog := [], backlog_bytes := 0, link_state := Live, link_offset := off\<rparr>)"
    using assms(1) by (auto simp: link_ok_def)
qed

lemma link_ok_dead:
  "link_ok bmax pmax off s cmds l \<Longrightarrow> link_ok bmax pmax off' s (cmds @ cs) (l\<lparr>link_alive := False\<rparr>)"
proof -
  assume ok: "link_ok bmax pmax off s cmds l"
  then obtain j k where "position s cmds l j k" by (auto simp: link_ok_def)
  then have "position s (cmds @ cs) (l\<lparr>link_alive := False\<rparr>) j k" by (simp add: position_def)
  with ok show ?thesis by (auto simp: link_ok_def)
qed

lemma link_ok_propagate:
  assumes ok: "link_ok bmax pmax off s cmds l" and off: "off' = off + length (encode_command c)"
  shows "link_ok bmax pmax off' s (cmds @ [c]) (snd (propagate_link bmax pmax off' (encode_command c) raises l))"
proof (cases "link_alive l")
  case False
  then show ?thesis
    using link_ok_dead [OF ok, of off' "[c]"] by (cases l) (simp add: propagate_link_def)
next
  case True
  obtain j k where p: "position s cmds l j k" using ok by (auto simp: link_ok_def)
  note dead = link_ok_dead [OF ok, of off' "[c]"]
  show ?thesis
  proof (cases "link_state l")
    case Syncing
    let ?l = "l\<lparr>backlog := backlog l @ [encode_command c], backlog_bytes := backlog_bytes l + length (encode_command c),
      link_offset := off'\<rparr>"
    have "position s (cmds @ [c]) ?l j (Suc k)" using p True Syncing by (auto simp: position_def)
    then have "int (backlog_bytes l + length (encode_command c)) \<le> bmax \<Longrightarrow> link_ok bmax pmax off' s (cmds @ [c]) ?l"
      using ok True off by (auto simp: link_ok_def)
    with True Syncing dead show ?thesis by (simp add: propagate_link_def)
  next
    case Live
    let ?l = "l\<lparr>written := written l @ encode_command c, link_offset := off', pending_drains := Suc (pending_drains l)\<rparr>"
    have "snapshot_sent s" using p Live by (auto simp: position_def)
    then have "position s (cmds @ [c]) ?l (Suc k) (Suc k)" using p True Live by (auto simp: position_def)
    then have "int (pending_drains l) < pmax \<Longrightarrow> link_ok bmax pmax off' s (cmds @ [c]) ?l"
      using ok True off by (auto simp: link_ok_def)
    with True Live dead show ?thesis by (simp add: propagate_link_def)
  qed
qed

lemma propagate_link_dies: "\<not> link_alive l \<Longrightarrow> \<not> link_alive (snd (propagate_link bmax pmax off payload raises l))"
  by (simp add: propagate_link_def)

section \<open>What each operation does to the table of links\<close>

lemma table_okD:
  assumes "table_ok m"
  shows "distinct (map snd (replicas m))" and "dict_ok (replicas m)"
    and "\<And>conn a. (conn, a) \<in> set (replicas m) \<Longrightarrow> a < length (links m)"
    and "\<And>a. a < length (links m) \<Longrightarrow> link_alive (links m ! a) \<Longrightarrow> a \<in> snd ` set (replicas m)"
  using assms by (force simp: table_ok_def)+

lemma update_link_simps [simp]:
  "length (links (update_link a f m)) = length (links m)" "replicas (update_link a f m) = replicas m"
  "repl_offset (update_link a f m) = repl_offset m" "backlog_max_bytes (update_link a f m) = backlog_max_bytes m"
  "pending_max_commands (update_link a f m) = pending_max_commands m"
  "a < length (links m) \<Longrightarrow> links (update_link a f m) ! b = (if b = a then f (links m ! a) else links m ! b)"
  by (auto simp: update_link_def nth_list_update)

lemma table_ok_update:
  assumes "table_ok m" and "a < length (links m)" and "link_alive (f (links m ! a)) \<Longrightarrow> link_alive (links m ! a)"
  shows "table_ok (update_link a f m)"
  using assms unfolding table_ok_def by auto

lemma table_ok_register:
  assumes "table_ok m" and "conn \<notin> set (dict_keys (replicas m))"
  shows "table_ok (snd (register_syncing conn m))"
proof -
  have "replicas (snd (register_syncing conn m)) = replicas m @ [(conn, length (links m))]"
    using assms(2) by (simp add: register_syncing_def dict_set_absent Let_def)
  with assms show ?thesis
    by (fastforce simp: table_ok_def register_syncing_def Let_def nth_append dict_ok_def dict_keys_def less_Suc_eq)
qed

lemma unregister_Some:
  assumes "table_ok m" and "dict_get (replicas m) conn = Some a"
  shows "snd ` set (dict_del conn (replicas m)) = snd ` set (replicas m) - {a}"
proof -
  have ok: "distinct (map snd (replicas m))" "dict_ok (replicas m)" using table_okD(1,2) [OF assms(1)] .
  have a: "(conn, a) \<in> set (replicas m)" using dict_get_SomeD [OF assms(2)] .
  have addr: "x = conn" if "(x, a) \<in> set (replicas m)" for x
    using that ok(1) a by (metis distinct_map inj_onD prod.inject snd_conv)
  have name: "b = a" if "(conn, b) \<in> set (replicas m)" for b
    using that dict_get_iff [OF ok(2), of conn b] assms(2) by simp
  have del: "set (dict_del conn (replicas m)) = {p \<in> set (replicas m). fst p \<noteq> conn}"
    by (auto simp: dict_del_def AList.delete_eq)
  show ?thesis
  proof (intro equalityI subsetI)
    fix b assume "b \<in> snd ` set (dict_del conn (replicas m))"
    then obtain x where "(x, b) \<in> set (replicas m)" "x \<noteq> conn" unfolding del by auto
    then show "b \<in> snd ` set (replicas m) - {a}" using addr by force
  next
    fix b assume "b \<in> snd ` set (replicas m) - {a}"
    then obtain x where x: "(x, b) \<in> set (replicas m)" and "b \<noteq> a" by auto
    with name have "x \<noteq> conn" by blast
    with x have "\<exists>x. (x, b) \<in> set (replicas m) \<and> x \<noteq> conn" by blast
    then show "b \<in> snd ` set (dict_del conn (replicas m))" unfolding del by force
  qed
qed

lemma table_ok_unregister: "table_ok m \<Longrightarrow> table_ok (unregister conn m)"
proof (cases "dict_get (replicas m) conn")
  case (Some a)
  assume ok: "table_ok m"
  have a: "a < length (links m)" using table_okD(3) [OF ok] dict_get_SomeD [OF Some] by blast
  let ?m = "m\<lparr>replicas := dict_del conn (replicas m)\<rparr>"
  have sub: "snd ` set (dict_del conn (replicas m)) = snd ` set (replicas m) - {a}" by (rule unregister_Some [OF ok Some])
  have "distinct (map snd (dict_del conn (replicas m)))"
    using table_okD(1) [OF ok] by (simp add: dict_del_def AList.delete_eq distinct_map_filter)
  moreover have "dict_ok (dict_del conn (replicas m))" using table_okD(2) [OF ok] by (rule pydict.ok_rem)
  ultimately show ?thesis
    using Some a sub ok by (auto simp: unregister_def table_ok_def nth_list_update update_link_def)
qed (simp add: unregister_def)

text \<open>\<open>propagate\<close> gives every registered link the new command, and changes no other link.\<close>

lemma propagate_items_frame:
  "length (links (snd (propagate_items payload raises items m))) = length (links m)
   \<and> replicas (snd (propagate_items payload raises items m)) = replicas m
   \<and> repl_offset (snd (propagate_items payload raises items m)) = repl_offset m
   \<and> backlog_max_bytes (snd (propagate_items payload raises items m)) = backlog_max_bytes m
   \<and> pending_max_commands (snd (propagate_items payload raises items m)) = pending_max_commands m"
  by (induction items arbitrary: m) (auto simp: split_beta Let_def)

lemma propagate_items_links:
  assumes "distinct (map snd items)" and "\<forall>a\<in>snd ` set items. a < length (links m)"
  shows "if a \<in> snd ` set items
     then \<exists>x. links (snd (propagate_items payload raises items m)) ! a =
        snd (propagate_link (backlog_max_bytes m) (pending_max_commands m) (repl_offset m) payload x (links m ! a))
     else links (snd (propagate_items payload raises items m)) ! a = links m ! a"
  using assms
proof (induction payload raises items m rule: propagate_items.induct)
  case (2 payload raises conn b items m)
  obtain dead l where l: "propagate_link (backlog_max_bytes m) (pending_max_commands m) (repl_offset m)
      payload (raises conn) (links m ! b) = (dead, l)" by fastforce
  let ?m = "m\<lparr>links := (links m)[b := l]\<rparr>"
  have res: "links (snd (propagate_items payload raises ((conn, b) # items) m))
      = links (snd (propagate_items payload raises items ?m))"
    by (simp add: l split_beta)
  have b: "b < length (links m)" and nb: "b \<notin> snd ` set items" using 2(2,3) by auto
  have IH: "if a \<in> snd ` set items
     then \<exists>x. links (snd (propagate_items payload raises items ?m)) ! a =
        snd (propagate_link (backlog_max_bytes m) (pending_max_commands m) (repl_offset m) payload x (links ?m ! a))
     else links (snd (propagate_items payload raises items ?m)) ! a = links ?m ! a"
    using 2(1) [OF l [symmetric] refl] 2(2,3) by (simp split: if_splits)
  show ?case
  proof (cases "a = b")
    case True
    have "\<exists>x. l = snd (propagate_link (backlog_max_bytes m) (pending_max_commands m) (repl_offset m) payload x (links m ! b))"
      using l by (metis snd_conv)
    with IH nb b show ?thesis unfolding res by (simp add: True)
  next
    case False
    then have "links ?m ! a = links m ! a" by simp
    with IH False show ?thesis unfolding res by (simp split: if_splits)
  qed
qed simp

lemma propagate_frame:
  "length (links (propagate raises c m)) = length (links m)" "replicas (propagate raises c m) = replicas m"
  "backlog_max_bytes (propagate raises c m) = backlog_max_bytes m"
  "pending_max_commands (propagate raises c m) = pending_max_commands m"
  "repl_offset (propagate raises c m) = (if replicas m = [] then repl_offset m else repl_offset m + length (encode_command c))"
  using propagate_items_frame [of "encode_command c" raises "replicas m"
      "m\<lparr>repl_offset := repl_offset m + length (encode_command c)\<rparr>"]
  by (simp_all add: propagate_def split_beta Let_def)

lemma propagate_links:
  assumes "table_ok m"
  shows "if a \<in> snd ` set (replicas m)
     then \<exists>x. links (propagate raises c m) ! a =
        snd (propagate_link (backlog_max_bytes m) (pending_max_commands m) (repl_offset m + length (encode_command c))
           (encode_command c) x (links m ! a))
     else links (propagate raises c m) ! a = links m ! a"
  using propagate_items_links [of "replicas m" "m\<lparr>repl_offset := repl_offset m + length (encode_command c)\<rparr>" a
      "encode_command c" raises] assms
  by (simp add: propagate_def split_beta Let_def table_ok_def split: if_splits)

lemma table_ok_propagate: "table_ok m \<Longrightarrow> table_ok (propagate raises c m)"
proof -
  assume ok: "table_ok m"
  have "a \<in> snd ` set (replicas m)" if "a < length (links m)" "link_alive (links (propagate raises c m) ! a)" for a
    using propagate_links [OF ok, of a raises c] table_okD(4) [OF ok that(1)] that(2) by (auto split: if_splits)
  with ok show ?thesis by (simp add: table_ok_def propagate_frame)
qed

section \<open>Preservation\<close>

lemma repl_invD:
  assumes "repl_inv r"
  shows "table_ok (rmaster r)" and "length (sessions r) = length (links (rmaster r))"
    and "\<And>a. a < length (links (rmaster r)) \<Longrightarrow> since (sessions r ! a) \<le> length (history r)"
    and "\<And>a. a < length (links (rmaster r)) \<Longrightarrow>
      link_ok (backlog_max_bytes (rmaster r)) (pending_max_commands (rmaster r)) (repl_offset (rmaster r))
        (sessions r ! a) (commands_since r a) (links (rmaster r) ! a)"
  using assms by (simp_all add: repl_inv_def)

lemma inv_begin:
  assumes "repl_inv r" and "conn \<notin> set (dict_keys (replicas (rmaster r)))"
  shows "repl_inv (begin_resync conn data r)"
proof -
  note d = repl_invD [OF assms(1)]
  have "table_ok (snd (register_syncing conn (rmaster r)))" using table_ok_register [OF d(1) assms(2)] .
  with d show ?thesis
    by (auto simp: repl_inv_def begin_resync_def new_session_def register_syncing_def commands_since_def Let_def
        nth_append less_Suc_eq link_ok_new)
qed

text \<open>Steps that change one link and its session.\<close>

lemma inv_update:
  assumes r: "repl_inv r" and a: "a < length (links (rmaster r))"
    and f: "link_alive (f (links (rmaster r) ! a)) \<Longrightarrow> link_alive (links (rmaster r) ! a)"
    and s: "since s = since (sessions r ! a)"
    and ok: "link_ok (backlog_max_bytes (rmaster r)) (pending_max_commands (rmaster r)) (repl_offset (rmaster r))
      s (commands_since r a) (f (links (rmaster r) ! a))"
  shows "repl_inv (r\<lparr>rmaster := update_link a f (rmaster r), sessions := (sessions r)[a := s]\<rparr>)"
proof -
  note d = repl_invD [OF r]
  have "table_ok (update_link a f (rmaster r))" by (rule table_ok_update [OF d(1) a f])
  with d a s ok show ?thesis
    by (auto simp: repl_inv_def commands_since_def nth_list_update)
qed

lemma inv_update_link:
  assumes "repl_inv r" and "a < length (links (rmaster r))"
    and "link_alive (f (links (rmaster r) ! a)) \<Longrightarrow> link_alive (links (rmaster r) ! a)"
    and "link_ok (backlog_max_bytes (rmaster r)) (pending_max_commands (rmaster r)) (repl_offset (rmaster r))
      (sessions r ! a) (commands_since r a) (f (links (rmaster r) ! a))"
  shows "repl_inv (r\<lparr>rmaster := update_link a f (rmaster r)\<rparr>)"
proof -
  have "repl_inv (r\<lparr>rmaster := update_link a f (rmaster r), sessions := (sessions r)[a := sessions r ! a]\<rparr>)"
    using assms by (intro inv_update) simp_all
  then show ?thesis by simp
qed

lemma inv_send:
  assumes "repl_inv r" and "a < length (sessions r)" and "\<not> snapshot_sent (sessions r ! a)"
  shows "repl_inv (send_snapshot a r)"
  unfolding send_snapshot_def resync_write_def
  using repl_invD [OF assms(1)] assms(2,3) by (intro inv_update [OF assms(1)] link_ok_send) simp_all

lemma inv_flush:
  assumes "repl_inv r" and "a < length (sessions r)" and "snapshot_sent (sessions r ! a)"
  shows "repl_inv (flush_backlog a r)"
proof -
  note d = repl_invD [OF assms(1)]
  let ?m = "rmaster r" and ?l = "links (rmaster r) ! a" and ?s = "sessions r ! a"
  have a: "a < length (links ?m)" using assms(2) d(2) by simp
  note ok = link_ok_flush [OF d(4) [OF a] assms(3)]
  show ?thesis
  proof (cases "backlog ?l = []")
    case True
    let ?f = "\<lambda>l. l\<lparr>backlog := [], backlog_bytes := 0, link_state := Live, link_offset := repl_offset ?m, drain_task := True\<rparr>"
    have "flush_backlog a r = r\<lparr>rmaster := update_link a ?f ?m, sessions := (sessions r)[a := ?s\<lparr>went_live := True\<rparr>]\<rparr>"
      using True a by (simp add: flush_backlog_def flush_round_def start_drain_task_def update_link_def Let_def)
    moreover have "link_ok (backlog_max_bytes ?m) (pending_max_commands ?m) (repl_offset ?m) (?s\<lparr>went_live := True\<rparr>)
        (commands_since r a) (?f ?l)"
      using ok(1) [OF True] by simp
    ultimately show ?thesis using a by (auto intro!: inv_update [OF assms(1)])
  next
    case False
    let ?f = "\<lambda>l. l\<lparr>backlog := [], backlog_bytes := 0, written := written l @ concat (backlog l)\<rparr>"
    have "flush_backlog a r = r\<lparr>rmaster := update_link a ?f ?m\<rparr>"
      using False a by (simp add: flush_backlog_def flush_round_def update_link_def Let_def)
    then show ?thesis using a ok(2) by (auto intro!: inv_update_link [OF assms(1)])
  qed
qed

lemma inv_write:
  assumes "repl_inv r"
  shows "repl_inv (write_command raises c r)"
proof -
  note d = repl_invD [OF assms]
  let ?m = "rmaster r" and ?r = "write_command raises c r"
  have "link_ok (backlog_max_bytes ?m) (pending_max_commands ?m) (repl_offset (propagate raises c ?m))
      (sessions r ! a) (commands_since r a @ [c]) (links (propagate raises c ?m) ! a)" if a: "a < length (links ?m)" for a
  proof (cases "a \<in> snd ` set (replicas ?m)")
    case True
    then have "replicas ?m \<noteq> []" by auto
    with True propagate_links [OF d(1), of a raises c] link_ok_propagate [OF d(4) [OF a] refl, of c]
    show ?thesis by (auto simp: propagate_frame)
  next
    case False
    then have "\<not> link_alive (links ?m ! a)" using table_okD(4) [OF d(1) a] by blast
    then have "(links ?m ! a)\<lparr>link_alive := False\<rparr> = links ?m ! a" by simp
    with False propagate_links [OF d(1), of a raises c] link_ok_dead [OF d(4) [OF a]] show ?thesis by (metis (full_types))
  qed
  with d show ?thesis
    by (auto simp: repl_inv_def write_command_def commands_since_def propagate_frame table_ok_propagate le_SucI)
qed

lemma repl_inv_tasks: "repl_inv (r\<lparr>rmaster := m\<rparr>) \<Longrightarrow> repl_inv (r\<lparr>rmaster := m\<lparr>unregister_tasks := ts\<rparr>\<rparr>)"
  by (simp add: repl_inv_def table_ok_def commands_since_def)

lemma inv_drain:
  assumes "repl_inv r" and "a < length (sessions r)"
  shows "repl_inv (r\<lparr>rmaster := drain_round conn a failed (rmaster r)\<rparr>)"
proof -
  note d = repl_invD [OF assms(1)]
  let ?m = "rmaster r" and ?l = "links (rmaster r) ! a"
  let ?f = "\<lambda>l. l\<lparr>pending_drains := pending_drains l - 1\<rparr>" and ?g = "\<lambda>l. l\<lparr>link_alive := False, drain_task := False\<rparr>"
  have a: "a < length (links ?m)" using assms(2) d(2) by simp
  have f: "repl_inv (r\<lparr>rmaster := update_link a ?f ?m\<rparr>)"
    using link_ok_pending [OF d(4) [OF a]] by (intro inv_update_link [OF assms(1) a]) simp_all
  let ?r = "r\<lparr>rmaster := update_link a ?f ?m\<rparr>"
  have a': "a < length (links (rmaster ?r))" using a by simp
  have "repl_inv (?r\<lparr>rmaster := update_link a ?g (rmaster ?r)\<rparr>)"
    using link_ok_dead [where cs = "[]", OF repl_invD(4) [OF f a']]
    by (intro inv_update_link [OF f a']) simp_all
  then have "repl_inv (r\<lparr>rmaster := (update_link a ?g (update_link a ?f ?m))\<lparr>unregister_tasks := ts\<rparr>\<rparr>)" for ts
    by (intro repl_inv_tasks) simp
  with f assms(1) show ?thesis by (auto simp: drain_round_def Let_def)
qed

lemma inv_disconnect:
  assumes "repl_inv r"
  shows "repl_inv (r\<lparr>rmaster := unregister conn (rmaster r)\<rparr>)"
proof (cases "dict_get (replicas (rmaster r)) conn")
  case None
  with assms show ?thesis by (simp add: unregister_def)
next
  case (Some a)
  note d = repl_invD [OF assms]
  have "table_ok (unregister conn (rmaster r))" by (rule table_ok_unregister [OF d(1)])
  moreover have a: "a < length (links (rmaster r))" using table_okD(3) [OF d(1)] dict_get_SomeD [OF Some] by blast
  moreover have "link_ok (backlog_max_bytes (rmaster r)) (pending_max_commands (rmaster r)) (repl_offset (rmaster r))
      (sessions r ! a) (commands_since r a) ((links (rmaster r) ! a)\<lparr>link_alive := False, drain_task := False\<rparr>)"
    using link_ok_dead [where cs = "[]", OF d(4) [OF a]] by simp
  ultimately show ?thesis
    using d Some by (auto simp: repl_inv_def unregister_def update_link_def nth_list_update commands_since_def)
qed

lemma repl_step_inv: "repl_step r r' \<Longrightarrow> repl_inv r \<Longrightarrow> repl_inv r'"
  by (induction rule: repl_step.induct) (simp_all add: inv_begin inv_send inv_flush inv_write inv_drain inv_disconnect)

lemma repl_reachable_inv: "repl_reachable r \<Longrightarrow> repl_inv r"
proof (induction rule: repl_reachable.induct)
  case (repl_start bmax pmax rid)
  show ?case by (simp add: repl_inv_def MasterReplication_def table_ok_def dict_ok_def)
qed (rule repl_step_inv)

text \<open>
  The server model runs \<open>full_resync\<close> in one go; this is the run of the machine in which nothing
  comes between its steps.
\<close>

lemma full_resync_run:
  assumes "full_resync conn s (rmaster r) = (Inr (), s1, m)" and "length (sessions r) = length (links (rmaster r))"
  defines "a \<equiv> length (links (rmaster r))"
  shows "\<exists>data. resync_payload (replid (rmaster r)) (repl_offset (rmaster r)) (fst (snapshot s)) = Inr data
    \<and> m = rmaster (flush_backlog a (send_snapshot a (begin_resync conn data r)))"
proof -
  from assms(1) obtain data where "resync_payload (replid (rmaster r)) (repl_offset (rmaster r)) (fst (snapshot s)) = Inr data"
    by (auto simp: full_resync_def register_syncing_def Let_def split_beta split: sum.splits)
  moreover from this assms have "m = rmaster (flush_backlog a (send_snapshot a (begin_resync conn data r)))"
    by (simp add: full_resync_def register_syncing_def Let_def split_beta flush_backlog_def send_snapshot_def
        begin_resync_def new_session_def flush_round_def resync_write_def update_link_def new_link_def nth_append)
  ultimately show ?thesis by blast
qed

section \<open>A concrete replication\<close>

lemma empty_payload: "\<exists>data. resync_payload (lit ''abc'') 0 [] = Inr data \<and> data \<noteq> [] \<and> length data \<le> 100"
proof -
  have "py_format_int (int 0) = Inr ''0''" by code_simp
  moreover have "utf8_encode (lit (''FULLRESYNC abc 0'')) = Inr ''FULLRESYNC abc 0''"
    by (rule utf8_encode_lit) code_simp
  moreover have "lit ''FULLRESYNC '' @ lit ''abc'' @ lit '' '' @ lit ''0'' = lit ''FULLRESYNC abc 0''"
    by (simp add: lit_def)
  moreover have "length MAGIC = 4" "length FOOTER = 4" by code_simp+
  moreover have "length (dec_nat 20) = 2" by code_simp
  moreover have "length (le_bytes w x) = w" for w x by (induction w arbitrary: x) simp_all
  ultimately show ?thesis
    by (simp add: resync_payload_def dump_rdb_entries_def pack_u32_def encode_simple_string_def as_bytes_def cr_def lf_def crlf_def)
qed

text \<open>A replica asks for the snapshot of an empty keyspace; a write arrives before the snapshot is sent.\<close>

definition sample_replication :: "bytes \<Rightarrow> replication" where
  "sample_replication data =
     send_snapshot 0 (write_command (\<lambda>conn. False) [''SET'', ''k'', ''v''] (begin_resync 1 data
       \<lparr>rmaster = MasterReplication 1024 10 (lit ''abc''), history = [], sessions = []\<rparr>))"

lemma sample_replication_simps:
  "sessions (sample_replication data) =
     [\<lparr>since = 0, start_offset = 0, snapshot_data = data, snapshot_sent = True, went_live = False\<rparr>]"
  "history (sample_replication data) = [[''SET'', ''k'', ''v'']]"
  "backlog_max_bytes (rmaster (sample_replication data)) = 1024"
  "pending_max_commands (rmaster (sample_replication data)) = 10"
  by (simp_all add: sample_replication_def send_snapshot_def write_command_def begin_resync_def new_session_def
      register_syncing_def MasterReplication_def Let_def propagate_frame resync_write_def)

lemma sample_replication_reachable:
  assumes "resync_payload (lit ''abc'') 0 [] = Inr data"
  shows "repl_reachable (sample_replication data)"
proof -
  let ?r0 = "\<lparr>rmaster = MasterReplication 1024 10 (lit ''abc''), history = [], sessions = []\<rparr>"
  let ?r2 = "write_command (\<lambda>conn. False) [''SET'', ''k'', ''v''] (begin_resync 1 data ?r0)"
  have "repl_step ?r0 (begin_resync 1 data ?r0)"
    by (rule step_begin [where es = "[]"]) (simp_all add: MasterReplication_def dict_keys_def assms)
  with repl_start have "repl_reachable (begin_resync 1 data ?r0)" by (rule repl_next)
  then have "repl_reachable ?r2" by (rule repl_next) (rule step_write)
  moreover have "repl_step ?r2 (send_snapshot 0 ?r2)"
    by (rule step_send) (simp_all add: write_command_def begin_resync_def new_session_def)
  ultimately show ?thesis unfolding sample_replication_def by (rule repl_next)
qed

section \<open>What replicas receive\<close>

lemma link_position:
  assumes "repl_reachable r" and "a < length (sessions r)"
  obtains j k where "position (sessions r ! a) (commands_since r a) (links (rmaster r) ! a) j k"
proof -
  note d = repl_invD(2,4) [OF repl_reachable_inv [OF assms(1)]]
  have "a < length (links (rmaster r))" using assms(2) d(1) by simp
  from d(2) [OF this] show thesis unfolding link_ok_def using that by blast
qed

lemma live_link_written:
  assumes "repl_reachable r" and "a < length (sessions r)" and "snapshot_sent (sessions r ! a)"
    and "link_alive (links (rmaster r) ! a)" and "link_state (links (rmaster r) ! a) = Live"
  shows "written (links (rmaster r) ! a) = snapshot_data (sessions r ! a) @ stream (commands_since r a)"
  using link_position [OF assms(1,2)] assms(3-5) by (auto simp: position_def)

text \<open>C11: Replication loses, repeats and reorders nothing: at every point of every interleaving of
  writes, resynchronisations, drains, failures and disconnections, what has been written to a
  replica after its snapshot is the encoding of a prefix of the commands executed since that
  snapshot; and as long as the link is alive, what is written and what waits in its backlog are all
  of them, so that a live replica has been sent every command.\<close>

theorem replica_stream_exact:
  assumes "repl_reachable r" and "a < length (sessions r)" and "snapshot_sent (sessions r ! a)"
  shows "\<exists>j\<le>length (commands_since r a).
      written (links (rmaster r) ! a) = snapshot_data (sessions r ! a) @ stream (take j (commands_since r a))
      \<and> (link_alive (links (rmaster r) ! a) \<longrightarrow>
           written (links (rmaster r) ! a) @ concat (backlog (links (rmaster r) ! a))
             = snapshot_data (sessions r ! a) @ stream (commands_since r a))
      \<and> (link_alive (links (rmaster r) ! a) \<and> link_state (links (rmaster r) ! a) = Live \<longrightarrow>
           j = length (commands_since r a))"
proof -
  let ?l = "links (rmaster r) ! a" and ?cmds = "commands_since r a"
  obtain j k where p: "position (sessions r ! a) ?cmds ?l j k" using link_position [OF assms(1,2)] .
  have "stream (take j ?cmds) @ concat (backlog ?l) = stream ?cmds" if "link_alive ?l"
    using p that by (auto simp: position_def stream_def simp flip: map_append concat_append)
  then show ?thesis using p assms(3) by (intro exI [of _ j]) (auto simp: position_def)
qed

theorem replica_stream_exact_witness:
  "\<exists>data j. written (links (rmaster (sample_replication data)) ! 0)
     = data @ stream (take j [[''SET'', ''k'', ''v'']])"
proof -
  obtain data where data: "resync_payload (lit ''abc'') 0 [] = Inr data" using empty_payload by blast
  from replica_stream_exact [OF sample_replication_reachable [OF data], of 0] show ?thesis
    by (auto simp: sample_replication_simps commands_since_def)
qed

text \<open>C26: Replication holds a bounded amount of memory per replica: the backlog counter is the size of
  the backlog and never exceeds \<open>backlog_max_bytes\<close>, no link has more than \<open>pending_max_commands\<close>
  drain markers, and the offset recorded for a link that is alive is the master's, ahead of its
  snapshot's by exactly the bytes of the commands since.\<close>

theorem replication_bounded:
  assumes "repl_reachable r" and "a < length (sessions r)" and "0 \<le> backlog_max_bytes (rmaster r)"
    and "0 \<le> pending_max_commands (rmaster r)"
  shows "length (concat (backlog (links (rmaster r) ! a))) = backlog_bytes (links (rmaster r) ! a)
    \<and> int (backlog_bytes (links (rmaster r) ! a)) \<le> backlog_max_bytes (rmaster r)
    \<and> int (pending_drains (links (rmaster r) ! a)) \<le> pending_max_commands (rmaster r)
    \<and> (link_alive (links (rmaster r) ! a) \<longrightarrow>
         link_offset (links (rmaster r) ! a) = repl_offset (rmaster r)
         \<and> repl_offset (rmaster r) = start_offset (sessions r ! a) + length (stream (commands_since r a)))"
proof -
  note d = repl_invD(2,4) [OF repl_reachable_inv [OF assms(1)]]
  have "a < length (links (rmaster r))" using assms(2) d(1) by simp
  from d(2) [OF this] assms(3,4) show ?thesis unfolding link_ok_def by simp
qed

theorem replication_bounded_witness:
  "\<exists>data. int (backlog_bytes (links (rmaster (sample_replication data)) ! 0)) \<le> 1024"
proof -
  obtain data where data: "resync_payload (lit ''abc'') 0 [] = Inr data" using empty_payload by blast
  from replication_bounded [OF sample_replication_reachable [OF data], of 0] show ?thesis
    by (auto simp: sample_replication_simps)
qed

section \<open>The flush loop ends\<close>

text \<open>
  The flush loop against an adversary: before each later round the given batch of commands has been
  propagated while the coroutine waited in \<open>drain\<close>. The flag says whether the loop has been left.
\<close>

fun flush_until_live ::
  "nat \<Rightarrow> ((nat \<Rightarrow> bool) \<times> bytes list) list list \<Rightarrow> replication \<Rightarrow> bool \<times> replication" where
  "flush_until_live a [] r = (False, r)"
| "flush_until_live a (b # bs) r =
     (let r1 = flush_backlog a r
      in if went_live (sessions r1 ! a) then (True, r1)
         else flush_until_live a bs (fold (\<lambda>(raises, c). write_command raises c) b r1))"

lemma flush_went_live:
  assumes "a < length (sessions r)" and "\<not> went_live (sessions r ! a)"
  shows "went_live (sessions (flush_backlog a r) ! a) \<longleftrightarrow> backlog (links (rmaster r) ! a) = []"
    and "length (sessions (flush_backlog a r)) = length (sessions r)"
    and "length (links (rmaster (flush_backlog a r))) = length (links (rmaster r))"
    and "a < length (links (rmaster r)) \<Longrightarrow> backlog (links (rmaster (flush_backlog a r)) ! a) = []"
    and "snapshot_sent (sessions (flush_backlog a r) ! a) = snapshot_sent (sessions r ! a)"
    and "a < length (links (rmaster r)) \<Longrightarrow> backlog (links (rmaster r) ! a) = [] \<Longrightarrow>
      link_state (links (rmaster (flush_backlog a r)) ! a) = Live"
  using assms by (simp_all add: flush_backlog_def flush_round_def start_drain_task_def update_link_def Let_def)

lemma fold_writes_sessions:
  "sessions (fold (\<lambda>(raises, c). write_command raises c) b r) = sessions r"
  by (induction b arbitrary: r) (auto simp: write_command_def split_beta)

lemma fold_writes_reachable:
  "repl_reachable r \<Longrightarrow> repl_reachable (fold (\<lambda>(raises, c). write_command raises c) b r)"
proof (induction b arbitrary: r)
  case (Cons x b)
  have "repl_reachable (write_command (fst x) (snd x) r)" using repl_next [OF Cons.prems step_write] .
  then show ?case using Cons.IH by (simp add: split_beta)
qed simp

lemma flush_reachable:
  assumes "repl_reachable r" and "a < length (sessions r)" and "snapshot_sent (sessions r ! a)" and "\<not> went_live (sessions r ! a)"
  shows "repl_reachable (flush_backlog a r)"
  using assms by (blast intro: repl_next step_flush)

lemma flush_until_live_ends:
  assumes "repl_reachable r" and "a < length (sessions r)" and "snapshot_sent (sessions r ! a)" and "\<not> went_live (sessions r ! a)"
  shows "\<exists>r'. flush_until_live a (pre @ [] # b # post) r = (True, r') \<and> repl_reachable r'
    \<and> a < length (sessions r') \<and> snapshot_sent (sessions r' ! a) \<and> link_state (links (rmaster r') ! a) = Live"
  using assms
proof (induction pre arbitrary: r)
  case Nil
  let ?r1 = "flush_backlog a r"
  have links: "a < length (links (rmaster r))" using Nil.prems(2) repl_invD(2) [OF repl_reachable_inv [OF Nil.prems(1)]] by simp
  note f = flush_went_live [OF Nil.prems(2,4)] and r1 = flush_reachable [OF Nil.prems]
  show ?case
  proof (cases "went_live (sessions ?r1 ! a)")
    case True
    with f r1 links Nil.prems show ?thesis by (intro exI [of _ ?r1]) simp
  next
    case False
    have s1: "a < length (sessions ?r1)" "snapshot_sent (sessions ?r1 ! a)" using f Nil.prems by simp_all
    note f2 = flush_went_live [OF s1(1) False] and r2 = flush_reachable [OF r1 s1 False]
    have "went_live (sessions (flush_backlog a ?r1) ! a)" using f(4) [OF links] f2(1) by simp
    moreover have "link_state (links (rmaster (flush_backlog a ?r1)) ! a) = Live"
      using f2(6) f(3) f(4) [OF links] links by simp
    ultimately show ?thesis using False f2 r2 s1 by (intro exI [of _ "flush_backlog a ?r1"]) simp
  qed
next
  case (Cons x pre)
  let ?r1 = "flush_backlog a r"
  have links: "a < length (links (rmaster r))" using Cons.prems(2) repl_invD(2) [OF repl_reachable_inv [OF Cons.prems(1)]] by simp
  note f = flush_went_live [OF Cons.prems(2,4)] and r1 = flush_reachable [OF Cons.prems]
  show ?case
  proof (cases "went_live (sessions ?r1 ! a)")
    case True
    with f r1 links Cons.prems show ?thesis by (intro exI [of _ ?r1]) simp
  next
    case False
    let ?r2 = "fold (\<lambda>(raises, c). write_command raises c) x ?r1"
    have "repl_reachable ?r2" by (rule fold_writes_reachable [OF r1])
    then show ?thesis using Cons.IH [of ?r2] False f Cons.prems(2,3) by (simp add: fold_writes_sessions)
  qed
qed

text \<open>C25: The flush loop of a full resynchronisation ends as soon as no write arrives during one of its
  waits, whatever was written during the earlier ones, and the replica is then live; if its link has
  survived, it has been sent its snapshot and every command executed since.\<close>

theorem flush_loop_goes_live:
  assumes "repl_reachable r" and "a < length (sessions r)" and "snapshot_sent (sessions r ! a)" and "\<not> went_live (sessions r ! a)"
  shows "\<exists>r'. flush_until_live a (pre @ [] # b # post) r = (True, r')
    \<and> link_state (links (rmaster r') ! a) = Live
    \<and> (link_alive (links (rmaster r') ! a) \<longrightarrow>
         written (links (rmaster r') ! a) = snapshot_data (sessions r' ! a) @ stream (commands_since r' a))"
proof -
  from flush_until_live_ends [OF assms] obtain r' where
    r': "flush_until_live a (pre @ [] # b # post) r = (True, r')" "repl_reachable r'" "a < length (sessions r')"
    "snapshot_sent (sessions r' ! a)" "link_state (links (rmaster r') ! a) = Live" by blast
  with live_link_written [OF r'(2-4)] show ?thesis by blast
qed

theorem flush_loop_goes_live_witness:
  "\<exists>data r'. flush_until_live 0 [[(\<lambda>conn. False, [''DEL'', ''k''])], [], []] (sample_replication data) = (True, r')
     \<and> link_state (links (rmaster r') ! 0) = Live"
proof -
  obtain data where data: "resync_payload (lit ''abc'') 0 [] = Inr data" using empty_payload by blast
  from flush_loop_goes_live [OF sample_replication_reachable [OF data], of 0 "[[(\<lambda>conn. False, [''DEL'', ''k''])]]" "[]" "[]"]
  show ?thesis by (auto simp: sample_replication_simps)
qed

end
