(* ===== verification/Server_Correct.thy ===== *)
theory Server_Correct
  imports Server_Machine Aof_Correct Master_Machine
begin

text \<open>
  The properties of command execution: the keyspace invariant of the running server, atomicity of
  failing commands, authentication, read-only replicas and the log.
\<close>

section \<open>Replies\<close>

text \<open>The results of the handlers, all of which have a RESP encoding.\<close>

fun plain :: "pyobj \<Rightarrow> bool" where
  "plain (PErrorMsg m) \<longleftrightarrow> False"
| "plain (PList xs) \<longleftrightarrow> (\<forall>x\<in>set xs. \<exists>b. x = PBytes b)"
| "plain _ \<longleftrightarrow> True"

lemma encode_bulks: "\<forall>x\<in>set xs. \<exists>b. x = PBytes b \<Longrightarrow> \<exists>ps. map_res encode_value xs = Inr ps"
  by (induction xs) (auto simp: enc_simps)

lemma as_bytes_no_TypeError: "as_bytes a \<noteq> Inl TypeError"
  by (auto simp: as_bytes_def utf8_encode_def split: text_arg.splits)

lemma plain_encode:
  assumes "plain v" and "v \<noteq> PNoReply"
  shows "encode_value v \<noteq> Inl TypeError"
proof (cases v)
  case (PList xs)
  with assms encode_bulks [of xs] show ?thesis by (auto simp: enc_simps)
next
  case (PSimple s)
  with as_bytes_no_TypeError [of "AStr s"] show ?thesis
    by (cases "as_bytes (AStr s)") (auto simp: enc_simps encode_simple_string_def)
next
  case (PStr s)
  then show ?thesis by (cases "utf8_encode s") (auto simp: enc_simps utf8_encode_def split: if_splits)
qed (use assms in \<open>auto simp: enc_simps encode_integer_def py_format_int_def encode_null_bulk_def\<close>)

lemma encode_first_byte:
  assumes "encode_value v = Inr (c # line)"
  shows "c \<noteq> CHR ''-''"
  using assms
  by (cases v) (auto simp: enc_simps encode_integer_def bind_res_Inr_iff encode_null_bulk_def bulk_of_def
      array_header_def encode_simple_string_def split: if_splits)

lemma store_call_plain:
  "store_call f wrap s = (Inr v, s') \<Longrightarrow> (\<And>r. plain (wrap r)) \<Longrightarrow> plain v"
  by (auto simp: store_call_def split: prod.splits sum.splits py_exn.splits)

lemma bulk_or_nil_plain [simp]: "plain (bulk_or_nil r)"
  by (simp add: bulk_or_nil_def split: option.splits)

lemma handler_results_plain:
  assumes "(name, h) \<in> set default_handlers" and "h ctx s = (Inr v, s')"
  shows "plain v"
proof -
  consider "h \<in> {cmd_ping, cmd_echo, cmd_select, cmd_command, cmd_auth, cmd_replconf}"
    | "h \<in> {cmd_set, cmd_expire, cmd_ttl, cmd_del, cmd_dbsize}"
    | "h \<in> {cmd_get, cmd_lpush, cmd_rpop, cmd_hset, cmd_hgetall}"
    | "h = cmd_info" | "h = cmd_save" | "h \<in> {cmd_bgsave, cmd_bgrewriteaof}" | "h = cmd_config" | "h = cmd_psync"
    using assms(1) by (auto simp: default_handlers_def)
  then show ?thesis
  proof cases
    case 1
    with assms(2) show ?thesis
      by (auto simp: cmd_ping_def cmd_echo_def cmd_select_def cmd_command_def cmd_auth_def cmd_replconf_def
          simple_def Let_def split: if_splits option.splits prod.splits sum.splits)
  next
    case 2
    with assms(2) show ?thesis
      by (auto simp: cmd_set_def cmd_expire_def cmd_ttl_def cmd_del_def cmd_dbsize_def simple_def Let_def
          split: if_splits option.splits prod.splits sum.splits)
  next
    case 3
    with assms(2) show ?thesis
      by (auto simp: cmd_get_def cmd_lpush_def cmd_rpop_def cmd_hset_def cmd_hgetall_def Let_def
          dest!: store_call_plain split: if_splits)
  next
    case 4
    with assms(2) show ?thesis
      by (auto simp: cmd_info_def Let_def bind_res_Inr_iff split: if_splits prod.splits sum.splits)
  next
    case 5
    with assms(2) show ?thesis
      by (auto simp: cmd_save_def simple_def split: if_splits prod.splits sum.splits py_exn.splits)
  next
    case 6
    with assms(2) show ?thesis
      by (auto simp: cmd_bgsave_def cmd_bgrewriteaof_def simple_def Let_def split: if_splits prod.splits)
  next
    case 7
    with assms(2) show ?thesis
      by (auto simp: cmd_config_def config_get_def Let_def bind_res_Inr_iff split: if_splits)
  next
    case 8
    with assms(2) show ?thesis
      by (auto simp: cmd_psync_def handle_psync_def split: if_splits prod.splits sum.splits)
  qed
qed

lemma dispatch_plain:
  assumes "dispatch create_default_registry ctx s = (Inr v, s')"
  shows "plain v"
proof -
  from assms obtain name h where "reg_get create_default_registry name = Some h" "h ctx s = (Inr v, s')"
    by (auto simp: dispatch_def split: list.splits option.splits if_splits)
  then show ?thesis
    using handler_results_plain dict_get_SomeD by (fastforce simp: reg_get_def create_default_registry_eq)
qed

lemma encode_reply_first_byte:
  "plain v \<Longrightarrow> v \<noteq> PNoReply \<Longrightarrow> encode_reply v \<noteq> Inr (Some (CHR ''-'' # line))"
  using plain_encode [of v] encode_first_byte [of v "CHR ''-''" line]
  by (auto simp: encode_reply_def split: sum.splits py_exn.splits)

lemma error_reply_dash: "error_reply m = Inr r \<Longrightarrow> \<exists>line. r = Some (CHR ''-'' # line)"
  by (auto simp: error_reply_def bind_res_Inr_iff encode_error_def)

section \<open>The invariant of the running server\<close>

text \<open>C15: Whatever sequence of connections, client commands (malformed ones included), replicated
  commands, full syncs, recoveries, active expiry, saves and rewrites the server goes through, its
  keyspace satisfies the store invariant.\<close>

theorem server_keyspace_invariant:
  assumes "server_reachable s"
  shows "store_inv (db s)"
  using assms by (rule server_reachable_inv)

definition default_config :: config where
  "default_config =
     \<lparr>cfg_host = lit ''127.0.0.1'', cfg_port = 6379, cfg_dir = lit ''/data'', cfg_dbfilename = lit ''dump.rdb'',
      cfg_aof_enabled = True, cfg_aof_filename = lit ''appendonly.aof'', cfg_aof_fsync = Everysec,
      cfg_role = Master, cfg_replicaof_host = None, cfg_replicaof_port = None, cfg_log_level = LogInfo, cfg_rdb_save_seconds = 0,
      cfg_proto_max_bulk_len = 16777216, cfg_proto_max_array_len = 1024, cfg_max_array_depth = 16,
      cfg_max_buffer_bytes = 32000000, cfg_partial_timeout_sec = Finite 30 0,
      cfg_client_idle_timeout_sec = Finite 300 0, cfg_max_clients = 1000, cfg_max_auth_failures = 5,
      cfg_aof_queue_max_commands = 10000, cfg_aof_enqueue_timeout_sec = Finite 5 0,
      cfg_replica_backlog_max_bytes = 67108864, cfg_replica_pending_max_commands = 10000,
      cfg_persistence_max_load_bytes = 1073741824, cfg_maxmemory_bytes = 0,
      cfg_maxmemory_policy = ''noeviction'', cfg_requirepass = None, cfg_masterauth = None,
      cfg_allow_unprotected = False\<rparr>"

text \<open>A freshly started server used as the concrete input of the witnesses.\<close>

definition sample_server :: "config \<Rightarrow> server" where
  "sample_server c =
     RedisServer c (lit ''0.2.2'') (lit ''abc'') (\<lambda>i. 1000 + int i) (running_log Everysec) None (\<lambda>i. Inr ())"

lemma sample_server_reachable: "server_reachable (sample_server c)"
  unfolding sample_server_def by (rule reach_start)

theorem server_keyspace_invariant_witness:
  "store_inv (db (snd (snd (serve_messages 1 [PList [PBytes ''SET'', PBytes ''k'', PBytes ''v''], PInt 3]
      (sample_server default_config)))))"
  by (rule server_keyspace_invariant [OF reach_next [OF sample_server_reachable step_serve]])

section \<open>Failing commands\<close>

lemma clock_chain:
  assumes "mono (clock (db s))" and "clock_step (db s) d" and "reading d \<le> m"
  shows "reading (db s) \<le> m"
  using reading_mono [OF assms(1,2)] assms(3) by linarith

lemma reading_load_entries [simp]: "reading (load_entries es d) = reading d" "clock (load_entries es d) = clock d"
  by (simp_all add: load_entries_def reading_def Let_def)

lemma raised_invisible:
  assumes "store_inv (db s)" and "mono (clock (db s))"
    and d: "dispatch create_default_registry ctx (snd (prep w s)) = (Inl e, s2)" and "reading (db s2) \<le> m"
  shows "live m (db s2) = live m (db s)" and "aof s2 = aof s"
proof -
  let ?s1 = "snd (prep w s)"
  have q: "quiet (db s) (db ?s1)" by simp
  then have s1: "store_inv (db ?s1)" "clock (db ?s1) = clock (db s)"
    using assms(1) by (auto simp: quiet_def clock_step_def)
  have "clock_step (db ?s1) (db s2)" using dispatch.keeps_clock [of ?s1 ctx] d by simp
  then have r1: "reading (db ?s1) \<le> m" using clock_chain [of ?s1 "db s2" m] assms s1 by simp
  have "live m (db s2) = live m (db ?s1)"
    using dispatch.error_invisible [of ?s1 ctx e m] assms s1 d by simp
  also have "\<dots> = live m (db s)" using q r1 assms by (auto simp: quiet_def)
  finally show "live m (db s2) = live m (db s)" .
  show "aof s2 = aof s" using dispatch.keeps_aof [of ctx ?s1] d by simp
qed

lemma oom_invisible:
  assumes "store_inv (db s)" and "mono (clock (db s))"
    and d: "dispatch create_default_registry ctx (snd (prep w s)) = (Inr v, s2)"
    and l: "limit w s2 = (Inl MemoryLimitError, s3)" and r: "reading (db s3) \<le> m"
  shows "live m (load_entries (fst (prep w s)) (db s3)) = live m (db s)" and "aof s3 = aof s"
proof -
  have w: w using l by (auto simp: limit_def split: if_splits)
  let ?s1 = "snd (prep w s)"
  have "clock_step (db s) (db ?s1)" using prep_frame(5) [of s w] by (simp add: quiet_def)
  moreover have "clock_step (db ?s1) (db s2)" using dispatch.keeps_clock [of ?s1 ctx] d by simp
  moreover have "clock_step (db s2) (db s3)" using limit_frame(6) [of s2 w] l by simp
  ultimately have "clock_step (db s) (db s3)" using clock_step_trans by blast
  from clock_chain [OF assms(2) this r]
  show "live m (load_entries (fst (prep w s)) (db s3)) = live m (db s)"
    using prep_entries(2) [OF assms(1)] w by simp
  show "aof s3 = aof s"
    using dispatch.keeps_aof [of ctx ?s1] d limit_frame(2) [of w s2] l by simp
qed

text \<open>The texts of two error replies differ when their first word does.\<close>

lemma misconf_text:
  assumes "misconf m = Inr (Some b)"
  shows "take 8 b = ''-MISCONF''"
proof -
  let ?p = "''MISCONF AOF persistence failed: ''"
  have "utf8_encode (lit ?p) = Inr ?p" by (rule utf8_encode_lit) code_simp
  then have p: "concat (map utf8_encode_cp (lit ?p)) = ?p" by (simp add: utf8_encode_def split: if_splits)
  from assms obtain x where "utf8_encode (lit ?p @ m) = Inr x"
    and b: "b = CHR ''-'' # replace_byte lf (CHR '' '') (replace_byte cr (CHR '' '') x) @ crlf"
    by (auto simp: misconf_def error_reply_def encode_error_def as_bytes_def bind_res_Inr_iff)
  then have "x = ?p @ concat (map utf8_encode_cp m)" by (simp add: utf8_encode_def p split: if_splits)
  then show ?thesis by (simp add: b replace_byte_def cr_def lf_def)
qed

text \<open>An append that raises leaves the log failed, so that \<open>_execute_inner\<close> refuses later writes.\<close>

lemma log_all_raises:
  "log_ready (aof s) \<Longrightarrow> log_all cs s = (Inl e, s') \<Longrightarrow> \<not> healthy (aof s')"
proof (induction cs arbitrary: s)
  case (Cons c cs)
  obtain r l where ap: "aof_append c (aof s) = (r, l)" by fastforce
  have ready: "log_ready l" using aof_append_frame [OF Cons.prems(1) ap] by simp
  show ?case
  proof (cases r)
    case (Inl x)
    then have "\<not> healthy l"
      using ap Cons.prems(1)
      by (auto simp: append_defs log_ready_def healthy_def split: option.splits sum.splits if_splits)
    then show ?thesis using Cons.prems(2) ap Inl by (auto simp: log_and_propagate_def log_command_def)
  next
    case (Inr u)
    have st: "log_and_propagate c s = (Inr (), propagate_command c (s\<lparr>aof := l\<rparr>))"
      using ap Inr by (simp add: log_and_propagate_def log_command_def)
    have "log_ready (aof (propagate_command c (s\<lparr>aof := l\<rparr>)))" using ready by (simp add: propagate_command_def)
    from Cons.IH [OF this] Cons.prems(2) st show ?thesis by simp
  qed
qed simp

text \<open>C16: What a command that is answered with an error has done. Unless appending to the log
  failed it has no effect: whether it was refused (not authenticated, log unhealthy, read-only
  replica), had wrong arity, syntax or type, raised an internal error, or exceeded the memory limit
  after it had already changed the keyspace, every client sees the same keys, values and deadlines as
  before, and nothing was logged. The other case is a write of a master whose append raised: the reply
  is then a \<open>MISCONF\<close> error, but the keyspace keeps what the handler and the evictions made of it,
  and the log is failed.\<close>

theorem error_reply_no_effect:
  assumes "store_inv (db s)" and "mono (clock (db s))"
    and ex: "execute conn cmd s = (Inr (Some (CHR ''-'' # line)), s')" and m: "reading (db s') \<le> m"
  shows "live m (db s') = live m (db s) \<and> aof s' = aof s
    \<or> take 7 line = ''MISCONF'' \<and> upper_name cmd \<in> set WRITE_COMMANDS
      \<and> (\<exists>v s2 evicted s3 s4 msg.
           dispatch create_default_registry (client_context conn cmd) (snd (on_db snapshot s)) = (Inr v, s2)
           \<and> on_db enforce_memory_limit s2 = (Inr evicted, s3)
           \<and> log_all (cmd # map (\<lambda>k. [''DEL'', k]) evicted) s3 = (Inl (OSError msg), s4)
           \<and> misconf msg = Inr (Some (CHR ''-'' # line))
           \<and> s' = count_failed s4 \<and> db s' = db s3)
      \<and> (log_ready (aof s) \<longrightarrow> \<not> healthy (aof s'))"
proof -
  let ?ctx = "client_context conn cmd"
  let ?w = "is_write ?ctx"
  show ?thesis
  proof (cases rule: execute_inner_cases [of s ?ctx create_default_registry])
    case (raised e s2 msg)
    with ex have "s' = count_failed s2" by (simp add: execute_def)
    with raised_invisible [OF assms(1,2) raised(1)] m show ?thesis by simp
  next
    case (ran v s2)
    have v: "plain v" using ran(1) by (rule dispatch_plain)
    have ad: "after_dispatch ?ctx ?w (fst (prep ?w s)) v s2 = (Inr (Some (CHR ''-'' # line)), s')"
      using ran(2) ex by (simp add: execute_def)
    show ?thesis
    proof (cases rule: after_dispatch_cases [of ?w s2 ?ctx "fst (prep ?w s)" v])
      case (oom s3)
      with ad have s': "s' = count_failed (s3\<lparr>db := load_entries (fst (prep ?w s)) (db s3)\<rparr>)" by simp
      with oom_invisible [OF assms(1,2) ran(1) oom(1)] m show ?thesis by simp
    next
      case (misconf ev s3 msg s4)
      have w: ?w and rep: "misconf msg = Inr (Some (CHR ''-'' # line))" and s': "s' = count_failed s4"
        using misconf ad by (auto simp: persist_def client_context_def split: if_splits)
      have run: "on_db enforce_memory_limit s2 = (Inr ev, s3)" using misconf(1) w by (simp add: limit_def)
      have logged: "log_all (cmd # map (\<lambda>k. [''DEL'', k]) ev) s3 = (Inl (OSError msg), s4)"
        using misconf(3) by (auto simp: persist_def client_context_def simp del: log_all.simps split: if_splits)
      have "aof s3 = aof s"
        using dispatch.keeps_aof [of ?ctx "snd (prep ?w s)"] ran(1) limit_frame(2) [of ?w s2] misconf(1) by simp
      then have "log_ready (aof s) \<longrightarrow> \<not> healthy (aof s')"
        using log_all_raises [OF _ logged] s' by auto
      moreover have "dispatch create_default_registry ?ctx (snd (on_db snapshot s)) = (Inr v, s2)"
        using ran(1) w by (simp add: prep_def)
      moreover have "db s' = db s3" using persist_frame(1) [of ?ctx ?w ev s3] misconf(3) s' by simp
      moreover have "take 7 line = ''MISCONF''" using misconf_text [OF rep] by simp
      moreover have "upper_name cmd \<in> set WRITE_COMMANDS" using w by (simp add: client_context_def)
      ultimately show ?thesis using run logged rep s' by blast
    next
      case (ok ev s1 s2)
      with ad encode_reply_first_byte [OF v] show ?thesis by auto
    qed (use ad in auto)
  qed (use ex in \<open>auto simp: execute_def\<close>)
qed

lemma after_dispatch_clock: "clock_step (db s) (db (snd (after_dispatch ctx w before v s)))"
proof -
  have l: "clock_step (db s) (db (snd (limit w s)))" by simp
  show ?thesis
  proof (cases rule: after_dispatch_cases [of w s ctx before v])
    case (misconf ev s1 m s2)
    then show ?thesis using l persist_frame(1) [of ctx w ev s1] by simp
  next
    case (broken ev s1 e s2)
    then show ?thesis using l persist_frame(1) [of ctx w ev s1] by simp
  next
    case (ok ev s1 s2)
    then show ?thesis using l persist_frame(1) [of ctx w ev s1] by simp
  qed (use l in simp_all)
qed

lemma execute_inner_clock: "clock_step (db s) (db (snd (execute_inner create_default_registry ctx s)))"
proof -
  have p: "clock_step (db s) (db (snd (prep (is_write ctx) s)))"
    using prep_frame(5) [of s "is_write ctx"] by (simp add: quiet_def)
  have d: "clock_step (db s) (db (snd (dispatch create_default_registry ctx (snd (prep (is_write ctx) s)))))"
    using clock_step_trans [OF p dispatch.keeps_clock] .
  show ?thesis
  proof (cases rule: execute_inner_cases [of s ctx create_default_registry])
    case (raised e s2 msg)
    with d show ?thesis by simp
  next
    case (ran v s2)
    then have "clock_step (db s) (db s2)" using d by simp
    from clock_step_trans [OF this after_dispatch_clock] ran(2) show ?thesis by simp
  qed simp_all
qed

lemma error_reply_lit:
  assumes "is_ascii msg" and "cr \<notin> set msg" and "lf \<notin> set msg"
  shows "error_reply (lit msg) = Inr (Some (CHR ''-'' # msg @ crlf))"
proof -
  have "replace_byte lf (CHR '' '') (replace_byte cr (CHR '' '') msg) = msg"
    using assms(2,3) by (induction msg) (auto simp: replace_byte_def)
  then show ?thesis
    using utf8_encode_lit [OF assms(1)] by (simp add: error_reply_def encode_error_def as_bytes_def)
qed

lemma lit_append: "lit a @ lit b = lit (a @ b)"
  by (simp add: lit_def)

lemma quote_lit: "quote = lit [CHR 0x27]"
  by (simp add: lit_def)

lemma reg_get_default: "reg_get create_default_registry name = dict_get default_handlers (py_upper name)"
  by (simp add: reg_get_def create_default_registry_eq)

lemma default_lookup:
  "dict_get default_handlers ''AUTH'' = Some cmd_auth" "dict_get default_handlers ''GET'' = Some cmd_get"
  "dict_get default_handlers ''SET'' = Some cmd_set" "dict_get default_handlers ''LPUSH'' = Some cmd_lpush"
  "dict_get default_handlers ''HSET'' = Some cmd_hset" "dict_get default_handlers ''EXPIRE'' = Some cmd_expire"
  "dict_get default_handlers ''RPOP'' = Some cmd_rpop" "dict_get default_handlers ''DEL'' = Some cmd_del"
  "dict_get default_handlers ''PING'' = Some cmd_ping"
  by (simp_all add: default_handlers_def dict_get_def)

lemma upper_names:
  "py_upper ''AUTH'' = ''AUTH''" "py_upper ''GET'' = ''GET''" "py_upper ''SET'' = ''SET''"
  "py_upper ''LPUSH'' = ''LPUSH''" "py_upper ''HSET'' = ''HSET''" "py_upper ''EXPIRE'' = ''EXPIRE''"
  "py_upper ''RPOP'' = ''RPOP''" "py_upper ''DEL'' = ''DEL''" "py_upper ''PSYNC'' = ''PSYNC''"
  "py_upper ''PING'' = ''PING''"
  by code_simp+

lemma sample_server_simps [simp]:
  "config (sample_server c) = c" "clock (db (sample_server c)) = (\<lambda>i. 1000 + int i)"
  "authenticated (sample_server c) = {}" "aof (sample_server c) = running_log Everysec"
  "master (sample_server c) = MasterReplication (cfg_replica_backlog_max_bytes c) (cfg_replica_pending_max_commands c) (lit ''abc'')"
  "db (sample_server c) = new_store (cfg_maxmemory_bytes c) (cfg_maxmemory_policy c) (\<lambda>i. 1000 + int i)"
  by (simp_all add: sample_server_def RedisServer_def new_store_def)

lemma get_arity_reply:
  "execute 1 [''GET''] (sample_server default_config)
     = (Inr (Some (CHR ''-'' # ''ERR wrong number of arguments for '' @ [CHR 0x27] @ ''get'' @ [CHR 0x27]
          @ '' command'' @ crlf)), count_failed (sample_server default_config))"
proof -
  let ?m = "''ERR wrong number of arguments for '' @ [CHR 0x27] @ ''get'' @ [CHR 0x27] @ '' command''"
  have "error_reply (lit ?m) = Inr (Some (CHR ''-'' # ?m @ crlf))" by (rule error_reply_lit) code_simp+
  moreover have "lit ''ERR wrong number of arguments for '' @ quote @ lit ''get'' @ quote @ lit '' command'' = lit ?m"
    by (simp add: lit_def)
  ultimately show ?thesis
    by (simp add: execute_def execute_inner_def client_context_def upper_name_def upper_names WRITE_COMMANDS_def
        dispatch_def reg_get_default default_lookup cmd_get_def wrong_arity_def default_config_def is_replica_def)
qed

theorem error_reply_no_effect_witness:
  "live 2000 (db (snd (execute 1 [''GET''] (sample_server default_config))))
     = live 2000 (db (sample_server default_config))"
proof -
  let ?s = "sample_server default_config"
  have inv: "store_inv (db ?s)" by (rule server_reachable_inv [OF sample_server_reachable])
  show ?thesis
    using error_reply_no_effect [OF inv _ get_arity_reply, of 2000] get_arity_reply
    by (simp add: mono_def reading_def new_store_def)
qed

section \<open>Authentication\<close>

text \<open>The password a command would present to a server that requires \<open>pw\<close>.\<close>

definition presents :: "pystr \<Rightarrow> bytes list \<Rightarrow> bool" where
  "presents pw cmd \<longleftrightarrow> (\<exists>name given. cmd = [name, given] \<and> utf8_encode pw = Inr given)"

lemma wrong_auth:
  assumes "cfg_requirepass (config s) = Some pw" and "upper_name cmd = ''AUTH''" and "\<not> presents pw cmd"
    and "execute conn cmd s = (r, s')"
  shows "db s' = db s" and "aof s' = aof s" and "config s' = config s" and "authenticated s' = authenticated s"
proof -
  obtain name rest where cmd: "cmd = name # rest" "py_upper name = ''AUTH''"
    using assms(2) by (auto simp: upper_name_def split: list.splits)
  let ?ctx = "client_context conn cmd"
  have nw: "\<not> is_write ?ctx" by (simp add: client_context_def assms(2) WRITE_COMMANDS_def)
  obtain a s1 where a: "cmd_auth ?ctx s = (a, s1)" by fastforce
  have disp: "dispatch create_default_registry ?ctx s = (a, s1)"
    using a cmd by (simp add: dispatch_def client_context_def reg_get_default default_lookup WRITE_COMMANDS_def)
  have s1: "db s1 = db s" "aof s1 = aof s" "config s1 = config s" "authenticated s1 = authenticated s"
    using a assms(1,3)
    by (auto simp: cmd_auth_def authenticate_def client_context_def presents_def numeral_2_eq_2 length_Suc_conv
        split: if_splits prod.splits sum.splits option.splits)
  have "\<exists>e. a = Inl e"
    using a assms(1,3)
    by (auto simp: cmd_auth_def authenticate_def client_context_def presents_def numeral_2_eq_2 length_Suc_conv
        split: if_splits prod.splits sum.splits option.splits)
  then obtain e where e: "a = Inl e" ..
  have "s' = count_failed s1"
    using assms(2,4) disp nw e
    by (auto simp: execute_def execute_inner_def Let_def client_context_def split: py_exn.splits)
  then show "db s' = db s" "aof s' = aof s" "config s' = config s" "authenticated s' = authenticated s"
    using s1 by simp_all
qed

lemma unauthenticated_message:
  assumes "cfg_requirepass (config s) = Some pw" and "conn \<notin> authenticated s"
    and "\<And>cmd. normalize_argv msg = Inr cmd \<Longrightarrow> upper_name cmd \<noteq> ''PSYNC'' \<and> (upper_name cmd = ''AUTH'' \<longrightarrow> \<not> presents pw cmd)"
    and "serve_message conn msg s = (out, v, s')"
  shows "db s' = db s \<and> aof s' = aof s \<and> config s' = config s \<and> conn \<notin> authenticated s'"
proof (cases "normalize_argv msg")
  case (Inl e)
  then show ?thesis using assms by (cases e) (auto simp: serve_message_def Let_def split: sum.splits)
next
  case (Inr cmd)
  let ?s = "s\<lparr>total_commands_processed := Suc (total_commands_processed s)\<rparr>"
  show ?thesis
  proof (cases "cmd = []")
    case True
    then show ?thesis using Inr assms by (auto simp: serve_message_def)
  next
    case False
    obtain r s1 where ex: "execute conn cmd ?s = (r, s1)" by fastforce
    have np: "upper_name cmd \<noteq> ''PSYNC''" using assms(3) Inr by blast
    then have s': "s' = s1"
      using assms(4) Inr False ex by (auto simp: serve_message_def serve_command_def Let_def split: sum.splits)
    show ?thesis
    proof (cases "upper_name cmd = ''AUTH''")
      case True
      have "\<not> presents pw cmd" using assms(3) Inr True by blast
      from wrong_auth [of ?s pw cmd conn r s1, OF _ True this ex] assms s' show ?thesis by simp
    next
      case False
      then have "s1 = count_failed ?s"
        using assms(1,2) ex by (simp add: execute_def execute_inner_def client_context_def)
      then show ?thesis using assms s' by simp
    qed
  qed
qed

lemma unauthenticated_messages:
  assumes "cfg_requirepass (config s) = Some pw" and "conn \<notin> authenticated s"
    and "\<forall>msg\<in>set msgs. \<forall>cmd. normalize_argv msg = Inr cmd \<longrightarrow>
      upper_name cmd \<noteq> ''PSYNC'' \<and> (upper_name cmd = ''AUTH'' \<longrightarrow> \<not> presents pw cmd)"
  shows "db (snd (snd (serve_messages conn msgs s))) = db s
    \<and> aof (snd (snd (serve_messages conn msgs s))) = aof s
    \<and> conn \<notin> authenticated (snd (snd (serve_messages conn msgs s)))"
  using assms
proof (induction msgs arbitrary: s)
  case (Cons msg msgs)
  obtain out v s1 where m: "serve_message conn msg s = (out, v, s1)" using prod_cases3 by blast
  have s1: "db s1 = db s" "aof s1 = aof s" "config s1 = config s" "conn \<notin> authenticated s1"
    using unauthenticated_message [OF Cons.prems(1,2) _ m] Cons.prems(3) by auto
  then have "db (snd (snd (serve_messages conn msgs s1))) = db s \<and> aof (snd (snd (serve_messages conn msgs s1))) = aof s
    \<and> conn \<notin> authenticated (snd (snd (serve_messages conn msgs s1)))"
    using Cons.IH [of s1] Cons.prems by simp
  then show ?case using m s1 by (cases v) (auto simp: split_beta Let_def)
qed simp

text \<open>C19: With a password configured, a connection that has not authenticated can send whatever
  messages it likes, malformed ones and wrong passwords included: as long as none of them is the
  right \<open>AUTH\<close> or a \<open>PSYNC\<close>, the keyspace and the log do not change at all (not even an expired key
  is collected on its behalf) and the connection stays unauthenticated.\<close>

theorem unauthenticated_cannot_touch_data:
  assumes "cfg_requirepass (config s) = Some pw" and "conn \<notin> authenticated s"
    and "\<forall>msg\<in>set msgs. \<forall>cmd. normalize_argv msg = Inr cmd \<longrightarrow>
      upper_name cmd \<noteq> ''PSYNC'' \<and> (upper_name cmd = ''AUTH'' \<longrightarrow> \<not> presents pw cmd)"
  shows "db (snd (snd (serve_messages conn msgs s))) = db s
    \<and> aof (snd (snd (serve_messages conn msgs s))) = aof s
    \<and> conn \<notin> authenticated (snd (snd (serve_messages conn msgs s)))"
  using assms by (rule unauthenticated_messages)

definition locked_config :: config where
  "locked_config = default_config\<lparr>cfg_requirepass := Some (lit ''pw'')\<rparr>"

theorem unauthenticated_cannot_touch_data_witness:
  "db (snd (snd (serve_messages 1 [PList [PBytes ''SET'', PBytes ''k'', PBytes ''v''], PInt 3]
      (sample_server locked_config)))) = db (sample_server locked_config)"
  by (rule conjunct1 [OF unauthenticated_cannot_touch_data [of _ "lit ''pw''"]])
    (auto simp: locked_config_def normalize_argv_def normalize_item_def upper_name_def upper_names)

text \<open>C37: \<open>PSYNC\<close> bypasses authentication: on a master with a password configured, a connection that
  never authenticated and sends \<open>PSYNC\<close> (with any arguments) is sent a snapshot of the whole live
  keyspace and is registered as a replica.\<close>

theorem psync_bypasses_auth:
  assumes "cfg_requirepass (config s) = Some pw" and "conn \<notin> authenticated s" and "\<not> is_replica (config s)"
    and "upper_name cmd = ''PSYNC''"
    and "resync_payload (replid (master s)) (repl_offset (master s)) (fst (snapshot (db s))) = Inr data"
  shows "fst (snd (serve_command conn cmd s)) = HoldReplica
    \<and> dict_get (replicas (master (snd (snd (serve_command conn cmd s))))) conn = Some (length (links (master s)))
    \<and> written (last (links (master (snd (snd (serve_command conn cmd s)))))) = data"
  using assms
  by (simp add: serve_command_def serve_psync_def full_resync_def register_syncing_def Let_def split_beta
      resync_write_def update_link_def flush_round_def start_drain_task_def new_link_def dict_simps
      list_update_append)

lemma sample_resync:
  "\<exists>data. resync_payload (lit ''abc'') 0 (fst (snapshot (db (sample_server locked_config)))) = Inr data"
proof -
  have "fst (snapshot (new_store mx pol clk)) = []" for mx pol clk
    by (simp add: snapshot_def iter_entries_def now_ms_def new_store_def)
  with empty_payload show ?thesis by auto
qed

theorem psync_bypasses_auth_witness:
  "fst (snd (serve_command 1 [''PSYNC''] (sample_server locked_config))) = HoldReplica"
proof -
  obtain data where "resync_payload (lit ''abc'') 0 (fst (snapshot (db (sample_server locked_config)))) = Inr data"
    using sample_resync by blast
  then show ?thesis
    using psync_bypasses_auth [of "sample_server locked_config" "lit ''pw''" 1 "[''PSYNC'']" data]
    by (simp add: locked_config_def default_config_def is_replica_def upper_name_def upper_names MasterReplication_def)
qed

end
