(* ===== verification/Network.thy ===== *)
theory Network
  imports Server_Correct
begin

text \<open>
  What the program checks before it listens or connects: \<open>_validate_network_security\<close> of
  \<open>byo_redis/server.py\<close> (plain file names, and no bind to a reachable address without a password) and
  \<open>_parse_replicaof\<close> of \<open>byo_redis/config.py\<close>. The parts of the standard library these use are written
  out: \<open>str.strip\<close>, \<open>str.lower\<close>, \<open>str.split\<close>, \<open>str.rpartition\<close>, \<open>int\<close> on a string, \<open>os.path\<close> on POSIX, and
  \<open>ipaddress.ip_address\<close>.
\<close>

section \<open>Strings\<close>

text \<open>\<open>str.isspace\<close> for one character.\<close>

definition py_space :: "nat \<Rightarrow> bool" where
  "py_space c \<longleftrightarrow>
     9 \<le> c \<and> c \<le> 13 \<or> 28 \<le> c \<and> c \<le> 32 \<or> 0x2000 \<le> c \<and> c \<le> 0x200A
     \<or> c \<in> {0x85, 0xA0, 0x1680, 0x2028, 0x2029, 0x202F, 0x205F, 0x3000}"

definition py_strip :: "pystr \<Rightarrow> pystr" where
  "py_strip s = rev (dropWhile py_space (rev (dropWhile py_space s)))"

fun py_split :: "nat \<Rightarrow> pystr \<Rightarrow> pystr list" where
  "py_split sep [] = [[]]"
| "py_split sep (c # cs) =
     (if c = sep then [] # py_split sep cs
      else (case py_split sep cs of [] \<Rightarrow> [[c]] | p # ps \<Rightarrow> (c # p) # ps))"

lemma py_split_nonempty [simp]: "py_split sep s \<noteq> []"
  by (induction s) (auto split: list.splits)

lemma py_split_none: "sep \<notin> set s \<Longrightarrow> py_split sep s = [s]"
  by (induction s) auto

lemma py_split_append: "sep \<notin> set a \<Longrightarrow> py_split sep (a @ sep # b) = a # py_split sep b"
  by (induction a) auto

text \<open>\<open>s.rpartition(sep)\<close> when \<open>sep\<close> occurs in \<open>s\<close>: what stands before and after its last occurrence.\<close>

definition rpartition :: "nat \<Rightarrow> pystr \<Rightarrow> pystr \<times> pystr" where
  "rpartition sep s =
     (let r = rev s in (rev (drop 1 (dropWhile (\<lambda>c. c \<noteq> sep) r)), rev (takeWhile (\<lambda>c. c \<noteq> sep) r)))"

lemma rpartition_append: "sep \<notin> set b \<Longrightarrow> rpartition sep (a @ sep # b) = (a, b)"
proof -
  assume b: "sep \<notin> set b"
  then have "takeWhile (\<lambda>c. c \<noteq> sep) (rev b @ sep # rev a) = rev b"
    "dropWhile (\<lambda>c. c \<noteq> sep) (rev b @ sep # rev a) = sep # rev a"
    by (subst takeWhile_append2 dropWhile_append2; auto)+
  then show ?thesis by (simp add: rpartition_def)
qed

text \<open>
  \<open>int(s)\<close> for a string. In a string with a character beyond ASCII, decimal digits of any script
  become ASCII digits and other spaces become blanks first; the characters of value zero are those
  of Unicode 14, which Python 3.11 uses.
\<close>

definition decimal_zeros :: "nat list" where
  "decimal_zeros =
     [48, 1632, 1776, 1984, 2406, 2534, 2662, 2790, 2918, 3046, 3174, 3302, 3430, 3558, 3664, 3792, 3872, 4160, 4240,
      6112, 6160, 6470, 6608, 6784, 6800, 6992, 7088, 7232, 7248, 42528, 43216, 43264, 43472, 43504, 43600, 44016,
      65296, 66720, 68912, 69734, 69872, 69942, 70096, 70384, 70736, 70864, 71248, 71360, 71472, 71904, 72016, 72784,
      73040, 73120, 92768, 92864, 93008, 120782, 120792, 120802, 120812, 120822, 123200, 123632, 125264, 130032]"

fun transform_decimal :: "pystr \<Rightarrow> bytes" where
  "transform_decimal [] = []"
| "transform_decimal (c # cs) =
     (if c < 127 then char_of c # transform_decimal cs
      else if py_space c then CHR '' '' # transform_decimal cs
      else
        (case List.find (\<lambda>z. z \<le> c \<and> c < z + 10) decimal_zeros of
           Some z \<Rightarrow> digit_char (c - z) # transform_decimal cs
         | None \<Rightarrow> ''?''))"

definition py_int_str :: "pystr \<Rightarrow> int option" where
  "py_int_str s = py_int (if list_all (\<lambda>c. c < 128) s then map char_of s else transform_decimal s)"

section \<open>\<open>_parse_replicaof\<close>\<close>

datatype replicaof_error = NoColon | EmptyHost | PortNotInteger | PortOutOfRange

definition parse_replicaof :: "pystr \<Rightarrow> replicaof_error + (pystr \<times> int)" where
  "parse_replicaof s =
     (if 58 \<notin> set s then Inl NoColon
      else
        (let (host, port_s) = rpartition 58 s
         in if host = [] then Inl EmptyHost
            else
              (case py_int_str port_s of
                 None \<Rightarrow> Inl PortNotInteger
               | Some port \<Rightarrow> if \<not> (1 \<le> port \<and> port \<le> 65535) then Inl PortOutOfRange else Inr (host, port))))"

section \<open>Paths\<close>

definition normpath_comp :: "bool \<Rightarrow> pystr \<Rightarrow> pystr list \<Rightarrow> pystr list" where
  "normpath_comp absolute c new =
     (if c = [] \<or> c = lit ''.'' then new
      else if c \<noteq> lit ''..'' \<or> \<not> absolute \<and> new = [] \<or> new \<noteq> [] \<and> last new = lit ''..'' then new @ [c]
      else if new \<noteq> [] then butlast new
      else new)"

fun py_join :: "nat \<Rightarrow> pystr list \<Rightarrow> pystr" where
  "py_join sep [] = []"
| "py_join sep [p] = p"
| "py_join sep (p # ps) = p @ sep # py_join sep ps"

definition path_isabs :: "pystr \<Rightarrow> bool" where
  "path_isabs p \<longleftrightarrow> p \<noteq> [] \<and> hd p = 47"

definition normpath :: "pystr \<Rightarrow> pystr" where
  "normpath p =
     (if p = [] then lit ''.''
      else
        (let slashes = (if \<not> path_isabs p then 0
                        else if take 2 p = [47, 47] \<and> take 3 p \<noteq> [47, 47, 47] then 2 else 1);
             new = fold (normpath_comp (0 < slashes)) (py_split 47 p) [];
             q = replicate slashes 47 @ py_join 47 new
         in if q = [] then lit ''.'' else q))"

definition path_basename :: "pystr \<Rightarrow> pystr" where
  "path_basename p = last (py_split 47 p)"

definition plain_filename :: "pystr \<Rightarrow> bool" where
  "plain_filename name \<longleftrightarrow>
     \<not> (name = [] \<or> path_isabs name \<or> normpath name \<noteq> path_basename (normpath name))"

section \<open>Addresses\<close>

definition parse_octet :: "pystr \<Rightarrow> int option" where
  "parse_octet w =
     (if w = [] \<or> \<not> list_all (\<lambda>c. 48 \<le> c \<and> c \<le> 57) w \<or> length w > 3 \<or> w \<noteq> [48] \<and> hd w = 48 then None
      else (let n = foldl (\<lambda>a c. 10 * a + (int c - 48)) 0 w in if n > 255 then None else Some n))"

fun all_some :: "'a option list \<Rightarrow> 'a list option" where
  "all_some [] = Some []"
| "all_some (x # xs) = Option.bind x (\<lambda>y. map_option (Cons y) (all_some xs))"

text \<open>\<open>IPv4Address(s)\<close>: its integer value, or \<open>None\<close> for \<open>AddressValueError\<close>.\<close>

definition ipv4_int :: "pystr \<Rightarrow> int option" where
  "ipv4_int s =
     (if 47 \<in> set s \<or> s = [] then None
      else
        (let octets = py_split 46 s
         in if length octets \<noteq> 4 then None
            else map_option (foldl (\<lambda>a b. a * 256 + b) 0) (all_some (map parse_octet octets))))"

definition hex_value :: "nat \<Rightarrow> int option" where
  "hex_value c =
     (if 48 \<le> c \<and> c \<le> 57 then Some (int c - 48)
      else if 97 \<le> c \<and> c \<le> 102 then Some (int c - 87)
      else if 65 \<le> c \<and> c \<le> 70 then Some (int c - 55) else None)"

definition parse_hextet :: "pystr \<Rightarrow> int option" where
  "parse_hextet h =
     (if h = [] \<or> length h > 4 then None
      else map_option (foldl (\<lambda>a d. 16 * a + d) 0) (all_some (map hex_value h)))"

text \<open>The parts of an IPv6 address with a dotted suffix replaced by its two hextets, as values.\<close>

definition ipv6_parts :: "pystr \<Rightarrow> (pystr + int) list option" where
  "ipv6_parts s =
     (let parts = py_split 58 s
      in if length parts < 3 then None
         else if 46 \<in> set (last parts) then
           map_option (\<lambda>n. map Inl (butlast parts) @ [Inr (n div 65536), Inr (n mod 65536)]) (ipv4_int (last parts))
         else Some (map Inl parts))"

definition empty_part :: "pystr + int \<Rightarrow> bool" where
  "empty_part p = (p = Inl [])"

definition part_value :: "pystr + int \<Rightarrow> int option" where
  "part_value p = (case p of Inl h \<Rightarrow> parse_hextet h | Inr n \<Rightarrow> Some n)"

definition hextets_int :: "(pystr + int) list \<Rightarrow> int option" where
  "hextets_int ps = map_option (foldl (\<lambda>a h. a * 65536 + h) 0) (all_some (map part_value ps))"

definition ipv6_from_parts :: "(pystr + int) list \<Rightarrow> int option" where
  "ipv6_from_parts parts =
     (let n = length parts; skips = filter (\<lambda>i. empty_part (parts ! i)) [1..<n - 1]
      in if n > 9 \<or> length skips > 1 then None
         else
           (case skips of
              k # _ \<Rightarrow>
                (let hi = (if empty_part (parts ! 0) then k - 1 else k);
                     lo = (if empty_part (last parts) then n - k - 2 else n - k - 1)
                 in if empty_part (parts ! 0) \<and> hi \<noteq> 0 \<or> empty_part (last parts) \<and> lo \<noteq> 0 \<or> hi + lo > 7 then None
                    else
                      Option.bind (hextets_int (take hi parts)) (\<lambda>a.
                      Option.bind (hextets_int (drop (n - lo) parts)) (\<lambda>b.
                        Some (a * 2 ^ (16 * (8 - hi)) + b))))
            | [] \<Rightarrow>
                if n \<noteq> 8 \<or> empty_part (parts ! 0) \<or> empty_part (last parts) then None else hextets_int parts))"

text \<open>\<open>IPv6Address(s)\<close>, with an optional scope behind \<open>%\<close>.\<close>

definition ipv6_int :: "pystr \<Rightarrow> int option" where
  "ipv6_int s =
     (let addr = takeWhile (\<lambda>c. c \<noteq> 37) s; scope = drop 1 (dropWhile (\<lambda>c. c \<noteq> 37) s)
      in if 47 \<in> set s \<or> 37 \<in> set s \<and> (scope = [] \<or> 37 \<in> set scope) then None
         else if addr = [] then None
         else Option.bind (ipv6_parts addr) ipv6_from_parts)"

text \<open>
  \<open>ip_address(s).is_loopback\<close>, \<open>None\<close> for \<open>ValueError\<close>. From Python 3.13 on (\<open>mapped\<close>) an IPv4-mapped IPv6
  address is a loopback address when the IPv4 address is.
\<close>

definition ip_is_loopback :: "bool \<Rightarrow> pystr \<Rightarrow> bool option" where
  "ip_is_loopback mapped s =
     (case ipv4_int s of
        Some n \<Rightarrow> Some (n div 2 ^ 24 = 127)
      | None \<Rightarrow>
          map_option (\<lambda>n. if mapped \<and> n div 2 ^ 32 = 0xFFFF then n mod 2 ^ 32 div 2 ^ 24 = 127 else n = 1) (ipv6_int s))"

section \<open>\<open>_validate_network_security\<close>\<close>

text \<open>
  The result of \<open>lower()\<close> is only compared with \<open>localhost\<close> and parsed as an address. Of the other
  characters only the Kelvin sign and the dotted capital I lower to something with an ASCII letter,
  a \<open>k\<close>, and an \<open>i\<close> with a combining mark; neither is in that name or a hex digit.
\<close>

definition loopback_host :: "bool \<Rightarrow> pystr \<Rightarrow> bool" where
  "loopback_host mapped h =
     (let host = map lower_cp (py_strip h)
      in host = lit ''localhost'' \<or> ip_is_loopback mapped host = Some True)"

datatype security_error = NotPlainFilename string | UnprotectedBind

definition validate_network_security :: "bool \<Rightarrow> config \<Rightarrow> security_error + unit" where
  "validate_network_security mapped c =
     (if \<not> plain_filename (cfg_dbfilename c) then Inl (NotPlainFilename ''dbfilename'')
      else if \<not> plain_filename (cfg_aof_filename c) then Inl (NotPlainFilename ''aof-filename'')
      else if \<not> loopback_host mapped (cfg_host c) \<and> cfg_requirepass c = None \<and> \<not> cfg_allow_unprotected c
        then Inl UnprotectedBind
      else Inr ())"

section \<open>Correctness\<close>

subsection \<open>\<open>replicaof\<close>\<close>

lemma map_char_of_lit: "map char_of (lit b) = b"
  by (induction b) (simp_all add: lit_def byte_val_def)

lemma dec_int_ascii: "c \<in> set (dec_int i) \<Longrightarrow> byte_val c < 128 \<and> byte_val c \<noteq> 58"
  using dec_nat_digits by (auto simp: dec_int_def is_digit_char_def byte_val_def split: if_splits) (fastforce simp: byte_val_def)+

lemma py_int_str_dec_int:
  assumes "length (dec_nat (nat \<bar>i\<bar>)) \<le> int_max_str_digits"
  shows "py_int_str (lit (dec_int i)) = Some i"
proof -
  have "list_all (\<lambda>c. c < 128) (lit (dec_int i))"
    using dec_int_ascii [of _ i] by (auto simp: list_all_iff lit_def byte_val_def)
  then show ?thesis using py_int_dec_int [OF assms] by (simp add: py_int_str_def map_char_of_lit)
qed

lemma dec_nat_short: "n < 10 ^ k \<Longrightarrow> 0 < k \<Longrightarrow> length (dec_nat n) \<le> k"
proof (induction n arbitrary: k rule: dec_nat.induct)
  case (1 n)
  show ?case
  proof (cases "n < 10")
    case False
    then obtain j where k: "k = Suc j" "0 < j" using 1(2,3) by (cases k; cases "k - 1") auto
    then have "n div 10 < 10 ^ j" using 1(2) by (simp add: less_mult_imp_div_less mult.commute)
    with 1(1) [OF False this] k False show ?thesis by (subst dec_nat.simps) simp
  qed (use 1(3) in \<open>subst dec_nat.simps, simp\<close>)
qed

text \<open>C34: \<open>--replicaof\<close> accepts every non-empty host (colons in it included) followed by a colon and a port
  in range, and yields exactly that host and port; and whatever it accepts is a non-empty host, the
  part before the last colon, and a port between 1 and 65535.\<close>

theorem replicaof_parsed:
  "(host \<noteq> [] \<longrightarrow> 1 \<le> port \<longrightarrow> port \<le> 65535 \<longrightarrow>
      parse_replicaof (host @ lit '':'' @ lit (dec_int port)) = Inr (host, port))
   \<and> (parse_replicaof s = Inr (h, p) \<longrightarrow>
        h \<noteq> [] \<and> 1 \<le> p \<and> p \<le> 65535 \<and> (\<exists>t. s = h @ lit '':'' @ t \<and> 58 \<notin> set t \<and> py_int_str t = Some p))"
proof (intro conjI impI)
  assume h: "host \<noteq> []" and p: "1 \<le> port" "port \<le> 65535"
  have c: "lit '':'' = [58]" by code_simp
  have "58 \<notin> set (lit (dec_int port))" using dec_int_ascii [of _ port] by (force simp: lit_def byte_val_def)
  then have "rpartition 58 (host @ lit '':'' @ lit (dec_int port)) = (host, lit (dec_int port))"
    using rpartition_append by (simp add: c)
  moreover have "length (dec_nat (nat \<bar>port\<bar>)) \<le> 5" using p by (intro dec_nat_short) auto
  then have "py_int_str (lit (dec_int port)) = Some port"
    by (intro py_int_str_dec_int) (simp add: int_max_str_digits_def)
  ultimately show "parse_replicaof (host @ lit '':'' @ lit (dec_int port)) = Inr (host, port)"
    using h p by (simp add: parse_replicaof_def c)
next
  assume a: "parse_replicaof s = Inr (h, p)"
  then have mem: "58 \<in> set s" and r: "rpartition 58 s = (h, snd (rpartition 58 s))" and "h \<noteq> []"
    and i: "py_int_str (snd (rpartition 58 s)) = Some p" and "1 \<le> p" "p \<le> 65535"
    by (auto simp: parse_replicaof_def split: if_splits option.splits prod.splits)
  then show "h \<noteq> []" "1 \<le> p" "p \<le> 65535" by simp_all
  from split_list_last [OF mem] obtain a b where s: "s = a @ 58 # b" "58 \<notin> set b" by blast
  with r rpartition_append [of 58 b a] have "h = a" "snd (rpartition 58 s) = b" by simp_all
  moreover have c: "lit '':'' = [58]" by code_simp
  ultimately show "\<exists>t. s = h @ lit '':'' @ t \<and> 58 \<notin> set t \<and> py_int_str t = Some p"
    using s i by auto
qed

theorem replicaof_parsed_witness:
  "parse_replicaof (lit ''::1'' @ lit '':'' @ lit (dec_int 6379)) = Inr (lit ''::1'', 6379)"
  using replicaof_parsed [of "lit ''::1''" 6379] by (simp add: lit_def)

subsection \<open>Addresses\<close>

definition quad :: "nat \<Rightarrow> nat \<Rightarrow> nat \<Rightarrow> nat \<Rightarrow> pystr" where
  "quad a b c d = lit (dec_nat a) @ lit ''.'' @ lit (dec_nat b) @ lit ''.'' @ lit (dec_nat c) @ lit ''.'' @ lit (dec_nat d)"

lemma digits_lit: "n \<in> set (lit (dec_nat k)) \<Longrightarrow> 48 \<le> n \<and> n \<le> 57"
  using dec_nat_digits [of _ k] by (auto simp: lit_def is_digit_char_def byte_val_def)

lemma lit_digit: "d < 10 \<Longrightarrow> lit [digit_char d] = [48 + d]"
  by (simp add: lit_def digit_char_def)

lemma lit_dec_nat:
  "n < 10 \<Longrightarrow> lit (dec_nat n) = [48 + n]"
  "10 \<le> n \<Longrightarrow> n < 100 \<Longrightarrow> lit (dec_nat n) = [48 + n div 10, 48 + n mod 10]"
  "100 \<le> n \<Longrightarrow> n < 1000 \<Longrightarrow> lit (dec_nat n) = [48 + n div 100, 48 + n div 10 mod 10, 48 + n mod 10]"
proof -
  have app: "lit (x @ y) = lit x @ lit y" for x y by (simp add: lit_def)
  have one: "n < 10 \<Longrightarrow> lit (dec_nat n) = [48 + n]" for n by (subst dec_nat.simps) (simp add: lit_digit)
  have two: "lit (dec_nat n) = [48 + n div 10, 48 + n mod 10]" if "10 \<le> n" "n < 100" for n
    using that one [of "n div 10"] by (subst dec_nat.simps) (simp add: app lit_digit)
  show "n < 10 \<Longrightarrow> lit (dec_nat n) = [48 + n]" by (rule one)
  show "10 \<le> n \<Longrightarrow> n < 100 \<Longrightarrow> lit (dec_nat n) = [48 + n div 10, 48 + n mod 10]" by (rule two)
  show "100 \<le> n \<Longrightarrow> n < 1000 \<Longrightarrow> lit (dec_nat n) = [48 + n div 100, 48 + n div 10 mod 10, 48 + n mod 10]"
    using two [of "n div 10"] by (subst dec_nat.simps) (simp add: app lit_digit div_mult2_eq [symmetric])
qed

lemma octet_roundtrip:
  assumes "n < 256"
  shows "parse_octet (lit (dec_nat n)) = Some (int n)"
proof -
  have n: "10 * (n div 10) + n mod 10 = n" "10 * (n div 10 div 10) + n div 10 mod 10 = n div 10" by simp_all
  moreover have "n div 10 div 10 = n div 100" by (simp add: div_mult2_eq [symmetric])
  ultimately have "100 * (n div 100) + (10 * (n div 10 mod 10) + n mod 10) = n" by linarith
  then have v3: "100 * int (n div 100) + (10 * int (n div 10 mod 10) + int (n mod 10)) = int n" by linarith
  have v2: "10 * int (n div 10) + int (n mod 10) = int n" using n(1) by linarith
  consider "n < 10" | "10 \<le> n" "n < 100" | "100 \<le> n" "n < 1000" using assms by linarith
  then show ?thesis
  proof cases
    case 2
    then have "0 < n div 10" "n div 10 < 10" by (simp_all add: div_greater_zero_iff)
    then show ?thesis using 2 assms v2 by (simp add: lit_dec_nat parse_octet_def)
  next
    case 3
    then have "0 < n div 100" "n div 100 < 10" "n div 10 mod 10 \<le> 9" "n mod 10 \<le> 9"
      by (simp_all add: div_greater_zero_iff less_Suc_eq_le [symmetric])
    then show ?thesis using 3 assms v3 by (simp add: lit_dec_nat parse_octet_def algebra_simps)
  qed (auto simp: lit_dec_nat parse_octet_def)
qed

lemma quad_split:
  "py_split 46 (quad a b c d) = [lit (dec_nat a), lit (dec_nat b), lit (dec_nat c), lit (dec_nat d)]"
proof -
  have "46 \<notin> set (lit (dec_nat n))" for n using digits_lit [of 46 n] by auto
  moreover have "lit ''.'' = [46]" by code_simp
  ultimately show ?thesis by (simp add: quad_def py_split_append py_split_none)
qed

lemma quad_chars: "x \<in> set (quad a b c d) \<Longrightarrow> 48 \<le> x \<and> x \<le> 57 \<or> x = 46"
proof -
  have "lit ''.'' = [46]" by code_simp
  then show "x \<in> set (quad a b c d) \<Longrightarrow> 48 \<le> x \<and> x \<le> 57 \<or> x = 46"
    using digits_lit [of x] by (auto simp: quad_def)
qed

lemma ipv4_quad:
  assumes "a < 256" and "b < 256" and "c < 256" and "d < 256"
  shows "ipv4_int (quad a b c d) = Some (((int a * 256 + int b) * 256 + int c) * 256 + int d)"
proof -
  have "47 \<notin> set (quad a b c d)" using quad_chars [of 47 a b c d] by auto
  moreover have "quad a b c d \<noteq> []" using lit_def dec_nat_nonempty [of a] by (simp add: quad_def)
  ultimately show ?thesis using assms by (simp add: ipv4_int_def quad_split octet_roundtrip)
qed

lemma strip_unspaced: "list_all (\<lambda>c. \<not> py_space c) s \<Longrightarrow> py_strip s = s"
proof -
  assume s: "list_all (\<lambda>c. \<not> py_space c) s"
  then have "dropWhile py_space s = s" "dropWhile py_space (rev s) = rev s"
    by (auto simp: list_all_iff dropWhile_eq_self_iff hd_rev)
  then show "py_strip s = s" by (simp add: py_strip_def)
qed

lemma quad_loopback:
  assumes "a < 256" and "b < 256" and "c < 256" and "d < 256"
  shows "loopback_host mapped (quad a b c d) \<longleftrightarrow> a = 127"
proof -
  have "list_all (\<lambda>c. \<not> py_space c) (quad a b c d)"
    using quad_chars [of _ a b c d] by (fastforce simp: list_all_iff py_space_def)
  then have strip: "py_strip (quad a b c d) = quad a b c d" by (rule strip_unspaced)
  have low: "map lower_cp (quad a b c d) = quad a b c d"
    using quad_chars [of _ a b c d] by (intro map_idI) (force simp: lower_cp_def)
  have "108 \<in> set (lit ''localhost'')" by code_simp
  then have "quad a b c d \<noteq> lit ''localhost''" using quad_chars [of 108 a b c d] by auto
  moreover have "(((int a * 256 + int b) * 256 + int c) * 256 + int d) div 2 ^ 24 = int a" using assms by simp
  ultimately show ?thesis using assms strip low by (simp add: loopback_host_def ip_is_loopback_def ipv4_quad)
qed

lemma loopback_samples:
  "\<not> loopback_host m []" "\<not> loopback_host m (lit ''::'')" "\<not> loopback_host m (lit ''example.org'')"
  "loopback_host m (lit ''localhost'')" "loopback_host m (lit ''::1'')"
proof -
  have strip: "py_strip (lit x) = lit x" if "x \<in> {[], ''::'', ''example.org'', ''localhost'', ''::1''}" for x
    using that by (intro strip_unspaced) (auto simp: lit_def py_space_def)
  have low: "map lower_cp (lit x) = lit x" if "x \<in> {[], ''::'', ''example.org'', ''localhost'', ''::1''}" for x
    using that by (auto simp: lit_def lower_cp_def)
  have parsed: "ipv4_int (lit []) = None" "ipv6_int (lit []) = None" "ipv4_int (lit ''::'') = None" "ipv6_int (lit ''::'') = Some 0"
    "ipv4_int (lit ''example.org'') = None" "ipv6_int (lit ''example.org'') = None"
    "ipv4_int (lit ''::1'') = None" "ipv6_int (lit ''::1'') = Some 1" by code_simp+
  have "ip_is_loopback m (lit []) = None" "ip_is_loopback m (lit ''::'') = Some False"
    "ip_is_loopback m (lit ''example.org'') = None" "ip_is_loopback m (lit ''::1'') = Some True"
    using parsed by (simp_all add: ip_is_loopback_def)
  moreover have "lit ''::'' \<noteq> lit ''localhost''" "lit ''example.org'' \<noteq> lit ''localhost''" "lit [] \<noteq> lit ''localhost''"
    by (simp_all add: lit_def)
  moreover have "loopback_host m (lit x) \<longleftrightarrow> lit x = lit ''localhost'' \<or> ip_is_loopback m (lit x) = Some True"
    if "x \<in> {[], ''::'', ''example.org'', ''localhost'', ''::1''}" for x
    by (simp add: loopback_host_def strip [OF that] low [OF that] Let_def)
  ultimately have "\<not> loopback_host m (lit [])" and rest: "\<not> loopback_host m (lit ''::'')"
    "\<not> loopback_host m (lit ''example.org'')" "loopback_host m (lit ''localhost'')" "loopback_host m (lit ''::1'')"
    by simp_all
  then show "\<not> loopback_host m []" by (simp add: lit_def)
  show "\<not> loopback_host m (lit ''::'')" "\<not> loopback_host m (lit ''example.org'')"
    "loopback_host m (lit ''localhost'')" "loopback_host m (lit ''::1'')" by (rule rest)+
qed

lemma default_names_plain: "plain_filename (lit ''dump.rdb'')" "plain_filename (lit ''appendonly.aof'')"
  by code_simp+

text \<open>
  The file-name check looks at the normal form only: names with directories in them pass when these
  cancel out, and so does the parent directory.
\<close>

lemma odd_plain_filenames:
  "plain_filename (lit ''..'')" "plain_filename (lit ''.'')" "plain_filename (lit ''x/../dump.rdb'')" "plain_filename (lit ''dump.rdb/'')"
  by code_simp+

end
