(* ===== verification/Network_Bind.thy ===== *)
theory Network_Bind
  imports Network
begin

text \<open>
  Which hosts the server listens on without a password. The textual forms of IPv4 and IPv6 addresses
  are described from their grammar (dotted quads; eight groups of hex digits, one run of zero groups
  shortened to \<open>::\<close>, a dotted quad for the last two groups, a scope behind \<open>%\<close>), the parsers of
  \<open>Network\<close> are shown to accept exactly these forms with their value, and the check at start is then
  stated over the forms.
\<close>

section \<open>Splitting and joining\<close>

lemma join_append: "xs \<noteq> [] \<Longrightarrow> ys \<noteq> [] \<Longrightarrow> py_join sep (xs @ ys) = py_join sep xs @ sep # py_join sep ys"
proof (induction xs rule: py_join.induct [of _ sep])
  case (2 sep p)
  then show ?case by (cases ys) auto
qed auto

lemma join_split: "py_join sep (py_split sep s) = s"
proof (induction s)
  case (Cons c s)
  obtain p ps where "py_split sep s = p # ps" by (cases "py_split sep s") auto
  with Cons show ?case by (cases ps) auto
qed simp

lemma split_join: "ps \<noteq> [] \<Longrightarrow> \<forall>p\<in>set ps. sep \<notin> set p \<Longrightarrow> py_split sep (py_join sep ps) = ps"
  by (induction ps rule: py_join.induct [of _ sep]) (auto simp: py_split_none py_split_append)

lemma split_no_sep: "p \<in> set (py_split sep s) \<Longrightarrow> sep \<notin> set p"
  by (induction s arbitrary: p) (auto split: if_splits list.splits)

lemma all_some_map: "all_some (map f xs) = Some ys \<longleftrightarrow> list_all2 (\<lambda>x y. f x = Some y) xs ys"
proof (induction xs arbitrary: ys)
  case (Cons x xs)
  then show ?case by (cases ys) (auto simp: bind_eq_Some_conv)
qed auto

section \<open>IPv4\<close>

lemma one_digit: "48 \<le> (c :: nat) \<Longrightarrow> c \<le> 57 \<Longrightarrow> \<exists>d<10. c = 48 + d"
  by (intro exI [of _ "c - 48"]) simp

lemma octet_text:
  assumes "parse_octet w = Some v"
  shows "\<exists>n<256. w = lit (dec_nat n) \<and> v = int n"
proof -
  have w: "w \<noteq> []" "\<forall>c\<in>set w. 48 \<le> c \<and> c \<le> 57" "length w \<le> 3" "w = [48] \<or> hd w \<noteq> 48"
    and v: "v = foldl (\<lambda>a c. 10 * a + (int c - 48)) 0 w" "v \<le> 255"
    using assms by (auto simp: parse_octet_def list_all_iff Let_def split: if_splits)
  consider (1) a where "w = [a]" | (2) a b where "w = [a, b]" | (3) a b c where "w = [a, b, c]"
    using w(1,3) by (cases w; cases "tl w"; cases "tl (tl w)") auto
  then show ?thesis
  proof cases
    case 1
    then obtain x where "x < 10" "a = 48 + x" using w(2) one_digit by auto
    with 1 v show ?thesis by (intro exI [of _ x]) (simp add: lit_dec_nat)
  next
    case 2
    then obtain x y where d: "x < 10" "y < 10" "a = 48 + x" "b = 48 + y"
      using w(2) one_digit [of a] one_digit [of b] by auto
    have "0 < x" using w(4) 2 d by auto
    with 2 v d show ?thesis by (intro exI [of _ "10 * x + y"]) (simp add: lit_dec_nat)
  next
    case 3
    then obtain x y z where d: "x < 10" "y < 10" "z < 10" "a = 48 + x" "b = 48 + y" "c = 48 + z"
      using w(2) one_digit [of a] one_digit [of b] one_digit [of c] by auto
    have "0 < x" using w(4) 3 d by auto
    let ?n = "10 * (10 * x + y) + z"
    have base: "(10 * m + z) div 10 = m" "(10 * m + z) mod 10 = z" for m using d(3) by simp_all
    have ten: "?n div 10 = 10 * x + y" "?n mod 10 = z" by (rule base)+
    then have "?n div 100 = (10 * x + y) div 10" using div_mult2_eq [of ?n 10 10] by simp
    with ten have "?n div 100 = x" "?n div 10 mod 10 = y" using d(2) by simp_all
    with ten \<open>0 < x\<close> 3 v d show ?thesis by (intro exI [of _ ?n]) (simp add: lit_dec_nat)
  qed
qed

definition octets :: "nat \<Rightarrow> nat \<Rightarrow> nat \<Rightarrow> nat \<Rightarrow> bool" where
  "octets a b c d \<longleftrightarrow> a < 256 \<and> b < 256 \<and> c < 256 \<and> d < 256"

definition quad_value :: "nat \<Rightarrow> nat \<Rightarrow> nat \<Rightarrow> nat \<Rightarrow> int" where
  "quad_value a b c d = int a * 2 ^ 24 + int b * 2 ^ 16 + int c * 2 ^ 8 + int d"

text \<open>\<open>IPv4Address\<close> accepts exactly the dotted quads.\<close>

lemma ipv4_iff: "ipv4_int s = Some n \<longleftrightarrow> (\<exists>a b c d. octets a b c d \<and> s = quad a b c d \<and> n = quad_value a b c d)"
proof
  assume n: "ipv4_int s = Some n"
  then obtain ws vs where ws: "py_split 46 s = ws" "length ws = 4" and vs: "all_some (map parse_octet ws) = Some vs"
    and nv: "n = foldl (\<lambda>a b. a * 256 + b) 0 vs"
    by (auto simp: ipv4_int_def Let_def split: if_splits)
  obtain w1 w2 w3 w4 where w: "ws = [w1, w2, w3, w4]" using ws(2)
    by (auto simp: numeral_eq_Suc length_Suc_conv)
  obtain v1 v2 v3 v4 where v: "vs = [v1, v2, v3, v4]"
    and p: "parse_octet w1 = Some v1" "parse_octet w2 = Some v2" "parse_octet w3 = Some v3" "parse_octet w4 = Some v4"
    using vs unfolding all_some_map w by (auto simp: list_all2_Cons1)
  obtain a where a: "a < 256" "w1 = lit (dec_nat a)" "v1 = int a" using octet_text [OF p(1)] by blast
  obtain b where b: "b < 256" "w2 = lit (dec_nat b)" "v2 = int b" using octet_text [OF p(2)] by blast
  obtain c where c: "c < 256" "w3 = lit (dec_nat c)" "v3 = int c" using octet_text [OF p(3)] by blast
  obtain d where d: "d < 256" "w4 = lit (dec_nat d)" "v4 = int d" using octet_text [OF p(4)] by blast
  have dot: "lit ''.'' = [46]" by code_simp
  have "s = quad a b c d" using join_split [of 46 s] ws(1) a b c d by (simp add: w quad_def dot)
  moreover have "n = quad_value a b c d" using nv v a b c d by (simp add: quad_value_def)
  ultimately show "\<exists>a b c d. octets a b c d \<and> s = quad a b c d \<and> n = quad_value a b c d"
    using a b c d by (auto simp: octets_def)
next
  assume "\<exists>a b c d. octets a b c d \<and> s = quad a b c d \<and> n = quad_value a b c d"
  then show "ipv4_int s = Some n" using ipv4_quad by (auto simp: octets_def quad_value_def)
qed

section \<open>IPv6\<close>

subsection \<open>The textual forms\<close>

text \<open>A group: one to four hexadecimal digits and its value.\<close>

definition hexdigit :: "nat \<Rightarrow> int \<Rightarrow> bool" where
  "hexdigit c d \<longleftrightarrow>
     0 \<le> d \<and> d < 10 \<and> int c = 48 + d \<or> 10 \<le> d \<and> d < 16 \<and> (int c = 87 + d \<or> int c = 55 + d)"

definition hextet :: "pystr \<Rightarrow> int \<Rightarrow> bool" where
  "hextet g v \<longleftrightarrow>
     1 \<le> length g \<and> length g \<le> 4 \<and> (\<exists>ds. list_all2 hexdigit g ds \<and> v = foldl (\<lambda>a d. 16 * a + d) 0 ds)"

text \<open>Groups, the last two of which may be written as a dotted quad.\<close>

definition groups :: "pystr list \<Rightarrow> int list \<Rightarrow> bool" where
  "groups gs vs \<longleftrightarrow>
     list_all2 hextet gs vs
     \<or> (\<exists>gs' vs' a b c d. octets a b c d \<and> list_all2 hextet gs' vs' \<and> gs = gs' @ [quad a b c d]
          \<and> vs = vs' @ [int a * 256 + int b, int c * 256 + int d])"

definition groups_value :: "int list \<Rightarrow> int" where
  "groups_value vs = foldl (\<lambda>a v. a * 65536 + v) 0 vs"

text \<open>An address of eight groups, or of fewer with \<open>::\<close> for the zero groups left out.\<close>

definition ipv6_form :: "pystr \<Rightarrow> int \<Rightarrow> bool" where
  "ipv6_form addr n \<longleftrightarrow>
     (\<exists>gs vs. groups gs vs \<and> length vs = 8 \<and> addr = py_join 58 gs \<and> n = groups_value vs)
     \<or> (\<exists>gs vs gs' vs'. list_all2 hextet gs vs \<and> groups gs' vs' \<and> length vs + length vs' \<le> 7
          \<and> addr = py_join 58 gs @ [58, 58] @ py_join 58 gs'
          \<and> n = groups_value (vs @ replicate (8 - length vs - length vs') 0 @ vs'))"

definition ipv6_text :: "pystr \<Rightarrow> int \<Rightarrow> bool" where
  "ipv6_text s n \<longleftrightarrow>
     47 \<notin> set s
     \<and> (\<exists>addr. 37 \<notin> set addr \<and> ipv6_form addr n
          \<and> (s = addr \<or> (\<exists>scope. scope \<noteq> [] \<and> 37 \<notin> set scope \<and> s = addr @ 37 # scope)))"

subsection \<open>The parser accepts exactly these\<close>

lemma hex_value_iff: "hex_value c = Some d \<longleftrightarrow> hexdigit c d"
  by (auto simp: hex_value_def hexdigit_def)

lemma parse_hextet_iff: "parse_hextet g = Some v \<longleftrightarrow> hextet g v"
  by (auto simp: parse_hextet_def hextet_def all_some_map hex_value_iff Suc_le_eq)

lemma hextet_chars: "hextet g v \<Longrightarrow> c \<in> set g \<Longrightarrow> 48 \<le> c \<and> c \<le> 57 \<or> 65 \<le> c \<and> c \<le> 70 \<or> 97 \<le> c \<and> c \<le> 102"
  by (auto simp: hextet_def hexdigit_def in_set_conv_nth list_all2_conv_all_nth)

definition valued :: "(pystr + int) list \<Rightarrow> int list \<Rightarrow> bool" where
  "valued ps vs \<longleftrightarrow> list_all2 (\<lambda>p v. part_value p = Some v) ps vs"

lemma hextets_int_iff: "hextets_int ps = Some n \<longleftrightarrow> (\<exists>vs. valued ps vs \<and> n = groups_value vs)"
  by (auto simp: hextets_int_def all_some_map valued_def groups_value_def)

lemma valued_nonempty: "valued ps vs \<Longrightarrow> p \<in> set ps \<Longrightarrow> \<not> empty_part p"
  by (auto simp: valued_def empty_part_def part_value_def parse_hextet_def in_set_conv_nth list_all2_conv_all_nth)

lemma groups_value_append: "groups_value (xs @ ys) = groups_value xs * 65536 ^ length ys + groups_value ys"
proof (induction ys rule: rev_induct)
  case (snoc y ys)
  have step: "groups_value (zs @ [y]) = groups_value zs * 65536 + y" for zs by (simp add: groups_value_def)
  show ?case using snoc step [of "xs @ ys"] step [of ys] by (simp add: algebra_simps)
qed (simp add: groups_value_def)

lemma groups_value_zeros: "groups_value (replicate n 0) = 0"
  by (induction n) (simp_all add: groups_value_def)

text \<open>Parts with one gap: what stands left and right of \<open>::\<close>.\<close>

definition gap_parts :: "(pystr + int) list \<Rightarrow> (pystr + int) list" where
  "gap_parts ps = (if ps = [] then [Inl []] else ps)"

definition parts_form :: "(pystr + int) list \<Rightarrow> int \<Rightarrow> bool" where
  "parts_form ps n \<longleftrightarrow>
     (\<exists>vs. valued ps vs \<and> length vs = 8 \<and> n = groups_value vs)
     \<or> (\<exists>p q vs ws. valued p vs \<and> valued q ws \<and> length vs + length ws \<le> 7
          \<and> ps = gap_parts p @ [Inl []] @ gap_parts q
          \<and> n = groups_value (vs @ replicate (8 - length vs - length ws) 0 @ ws))"

lemma gap_parts_simps:
  "gap_parts ps \<noteq> []" "ps \<noteq> [] \<Longrightarrow> gap_parts ps = ps" "gap_parts [] = [Inl []]"
  by (simp_all add: gap_parts_def)

lemma gap_value:
  assumes "length vs + length ws \<le> 7"
  shows "groups_value (vs @ replicate (8 - length vs - length ws) 0 @ ws)
    = groups_value vs * 2 ^ (16 * (8 - length vs)) + groups_value ws"
proof -
  have "(65536::int) ^ (8 - length vs) = (2 ^ 16) ^ (8 - length vs)" by simp
  then have "(65536::int) ^ (8 - length vs) = 2 ^ (16 * (8 - length vs))" by (simp only: power_mult)
  with assms show ?thesis by (simp add: groups_value_append groups_value_zeros)
qed

text \<open>The parts \<open>_ip_int_from_string\<close> finds between the first and the last colon-separated one.\<close>

lemma skips_none:
  "\<forall>p\<in>set ps. \<not> empty_part p \<Longrightarrow> filter (\<lambda>i. empty_part (ps ! i)) [1..<length ps - 1] = []"
  by (auto simp: filter_empty_conv)

lemma filter_one:
  assumes "k < n" and "m \<le> k" and "P k" and "\<And>i. m \<le> i \<Longrightarrow> i < n \<Longrightarrow> P i \<Longrightarrow> i = k"
  shows "filter P [m..<n] = [k]"
proof -
  have "[m..<n] = [m..<k] @ k # [Suc k..<n]" using assms(1,2) by (metis le_Suc_ex less_imp_le_nat upt_add_eq_append upt_conv_Cons)
  moreover have "\<not> P i" if "m \<le> i" "i < n" "i \<noteq> k" for i using assms(4) that by blast
  then have "filter P [m..<k] = []" "filter P [Suc k..<n] = []"
    using assms(1,2) by (auto simp: filter_empty_conv)
  ultimately show ?thesis using assms(3) by simp
qed

lemma skips_one:
  assumes p: "\<forall>x\<in>set p. \<not> empty_part x" and q: "\<forall>x\<in>set q. \<not> empty_part x"
    and ps: "ps = gap_parts p @ [Inl []] @ gap_parts q"
  shows "filter (\<lambda>i. empty_part (ps ! i)) [1..<length ps - 1] = [length (gap_parts p)]"
proof (rule filter_one)
  let ?k = "length (gap_parts p)"
  have len: "length ps = Suc ?k + length (gap_parts q)" by (simp add: ps)
  have pos: "0 < ?k" "0 < length (gap_parts q)" by (simp_all add: gap_parts_simps)
  show "?k < length ps - 1" "1 \<le> ?k" using len pos by linarith+
  show "empty_part (ps ! ?k)" by (simp add: ps nth_append empty_part_def)
  fix i
  assume i: "1 \<le> i" "i < length ps - 1" "empty_part (ps ! i)"
  show "i = ?k"
  proof (rule ccontr)
    assume "i \<noteq> ?k"
    then consider "i < ?k" | "?k < i" by linarith
    then show False
    proof cases
      case 1
      then have "p \<noteq> []" using i(1) by (auto simp: gap_parts_def)
      then have "ps ! i \<in> set p" using 1 by (simp add: ps nth_append gap_parts_simps)
      with p i(3) show False by blast
    next
      case 2
      then have "q \<noteq> []" using i(2) len by (auto simp: gap_parts_def)
      moreover have "i - ?k - 1 < length (gap_parts q)" using 2 i(2) len by linarith
      ultimately have "ps ! i \<in> set q" using 2 by (simp add: ps nth_append gap_parts_simps)
      with q i(3) show False by blast
    qed
  qed
qed

lemma from_parts_gap:
  assumes v: "valued p vs" "valued q ws" and l: "length vs + length ws \<le> 7"
    and ps: "ps = gap_parts p @ [Inl []] @ gap_parts q"
  shows "ipv6_from_parts ps = Some (groups_value vs * 2 ^ (16 * (8 - length vs)) + groups_value ws)"
proof -
  have ne: "\<forall>x\<in>set p. \<not> empty_part x" "\<forall>x\<in>set q. \<not> empty_part x"
    using valued_nonempty v by blast+
  have len: "length p = length vs" "length q = length ws" using v by (auto simp: valued_def list_all2_lengthD)
  have hp: "hextets_int p = Some (groups_value vs)" "hextets_int q = Some (groups_value ws)"
    using v hextets_int_iff by blast+
  note sk = skips_one [OF ne ps]
  have e: "empty_part (Inl [])" by (simp add: empty_part_def)
  have first: "empty_part (ps ! 0) \<longleftrightarrow> p = []"
    using ne(1) e by (cases p) (auto simp: ps gap_parts_def)
  have lst: "empty_part (last ps) \<longleftrightarrow> q = []"
    using ne(2) e by (cases q rule: rev_cases) (auto simp: ps gap_parts_def)
  have hi: "(if empty_part (ps ! 0) then length (gap_parts p) - 1 else length (gap_parts p)) = length p"
    unfolding first by (simp add: gap_parts_def)
  have lo: "(if empty_part (last ps) then length ps - length (gap_parts p) - 2
      else length ps - length (gap_parts p) - 1) = length q"
    unfolding lst by (simp add: ps gap_parts_def)
  have tk: "take (length p) ps = p" by (simp add: ps gap_parts_def)
  have dr: "drop (length ps - length q) ps = q" by (simp add: ps gap_parts_def)
  have "length ps \<le> 9" using l len by (simp add: ps gap_parts_def)
  then show ?thesis
    using l hp len
    unfolding ipv6_from_parts_def Let_def sk list.case hi lo tk dr unfolding first lst
    by auto
qed

lemma split_at_gap:
  assumes "1 \<le> k" and "k < length ps - 1" and "empty_part (ps ! k)"
  shows "ps = take k ps @ [Inl []] @ drop (Suc k) ps" and "drop (Suc k) ps \<noteq> []" and "take k ps \<noteq> []"
  using assms id_take_nth_drop [of k ps] by (auto simp: empty_part_def)

lemma from_parts_form:
  assumes "ipv6_from_parts ps = Some n"
  shows "parts_form ps n"
proof (cases "filter (\<lambda>i. empty_part (ps ! i)) [1..<length ps - 1]")
  case Nil
  with assms have "length ps = 8" "hextets_int ps = Some n"
    unfolding ipv6_from_parts_def Let_def Nil by (auto split: if_splits)
  then obtain vs where "valued ps vs" "n = groups_value vs" "length vs = 8"
    using hextets_int_iff by (metis list_all2_lengthD valued_def)
  then show ?thesis by (auto simp: parts_form_def)
next
  case (Cons k ks)
  have "k \<in> set (filter (\<lambda>i. empty_part (ps ! i)) [1..<length ps - 1])" unfolding Cons by simp
  then have k: "1 \<le> k" "k < length ps - 1" "empty_part (ps ! k)" by auto
  define hi where "hi = (if empty_part (ps ! 0) then k - 1 else k)"
  define lo where "lo = (if empty_part (last ps) then length ps - k - 2 else length ps - k - 1)"
  from assms obtain a b where sane: "empty_part (ps ! 0) \<Longrightarrow> hi = 0" "empty_part (last ps) \<Longrightarrow> lo = 0" "hi + lo \<le> 7"
    and a: "hextets_int (take hi ps) = Some a" and b: "hextets_int (drop (length ps - lo) ps) = Some b"
    and n: "n = a * 2 ^ (16 * (8 - hi)) + b"
    unfolding ipv6_from_parts_def Let_def Cons list.case hi_def [symmetric] lo_def [symmetric]
    by (auto simp: bind_eq_Some_conv split: if_splits)
  obtain vs where vs: "valued (take hi ps) vs" "a = groups_value vs" using a hextets_int_iff by blast
  obtain ws where ws: "valued (drop (length ps - lo) ps) ws" "b = groups_value ws" using b hextets_int_iff by blast
  note sp = split_at_gap [OF k]
  have left: "gap_parts (take hi ps) = take k ps" and hik: "hi \<le> length ps"
  proof -
    show "gap_parts (take hi ps) = take k ps"
    proof (cases "empty_part (ps ! 0)")
      case True
      then have "k = 1" "hi = 0" using sane(1) k(1) by (auto simp: hi_def)
      with True k(2) show ?thesis by (cases ps) (auto simp: gap_parts_def empty_part_def)
    next
      case False
      then show ?thesis using sp(3) by (simp add: hi_def gap_parts_simps)
    qed
    show "hi \<le> length ps" using k(2) by (auto simp: hi_def)
  qed
  have right: "gap_parts (drop (length ps - lo) ps) = drop (Suc k) ps" and lol: "lo \<le> length ps"
  proof -
    show "gap_parts (drop (length ps - lo) ps) = drop (Suc k) ps"
    proof (cases "empty_part (last ps)")
      case True
      then have lo: "lo = 0" "length (drop (Suc k) ps) = 1" using sane(2) k(2) by (auto simp: lo_def)
      from lo(2) obtain x where x: "drop (Suc k) ps = [x]" unfolding One_nat_def length_Suc_conv by auto
      then have "last ps = x" by (metis last.simps last_drop length_drop length_greater_0_conv sp(2) zero_less_diff)
      with True x lo show ?thesis by (simp add: gap_parts_def empty_part_def)
    next
      case False
      then have "length ps - lo = Suc k" using k(2) by (simp add: lo_def)
      then show ?thesis using sp(2) by (simp add: gap_parts_simps)
    qed
    show "lo \<le> length ps" by (auto simp: lo_def)
  qed
  have len: "length vs = hi" "length ws = lo"
    using vs(1) ws(1) hik lol by (auto simp: valued_def dest!: list_all2_lengthD)
  have "ps = gap_parts (take hi ps) @ [Inl []] @ gap_parts (drop (length ps - lo) ps)"
    unfolding left right by (rule sp(1))
  moreover have "n = groups_value (vs @ replicate (8 - length vs - length ws) 0 @ ws)"
    using gap_value [of vs ws] sane(3) n vs(2) ws(2) len by simp
  ultimately show ?thesis using vs(1) ws(1) sane(3) len unfolding parts_form_def by blast
qed

lemma form_from_parts:
  assumes "parts_form ps n"
  shows "ipv6_from_parts ps = Some n"
  using assms unfolding parts_form_def
proof (elim disjE exE conjE)
  fix vs
  assume v: "valued ps vs" "length vs = 8" "n = groups_value vs"
  then have len: "length ps = 8" by (auto simp: valued_def dest: list_all2_lengthD)
  have ne: "\<forall>p\<in>set ps. \<not> empty_part p" using valued_nonempty v(1) by blast
  have ends: "\<not> empty_part (ps ! 0)" "\<not> empty_part (last ps)" using ne len by (cases ps; auto)+
  have "hextets_int ps = Some n" using v hextets_int_iff by blast
  then show ?thesis
    using ends len unfolding ipv6_from_parts_def Let_def skips_none [OF ne] by simp
next
  fix p q vs ws
  assume "valued p vs" "valued q ws" "length vs + length ws \<le> 7" "ps = gap_parts p @ [Inl []] @ gap_parts q"
    and n: "n = groups_value (vs @ replicate (8 - length vs - length ws) 0 @ ws)"
  from from_parts_gap [OF this(1-4)] gap_value [OF this(3)] n show ?thesis by simp
qed

lemma from_parts_iff: "ipv6_from_parts ps = Some n \<longleftrightarrow> parts_form ps n"
  using from_parts_form form_from_parts by blast

text \<open>The parts of a text: its tokens between colons, a dotted one at the end as two values.\<close>

definition tokens_parts :: "pystr list \<Rightarrow> (pystr + int) list \<Rightarrow> bool" where
  "tokens_parts ts ps \<longleftrightarrow>
     46 \<notin> set (last ts) \<and> ps = map Inl ts
     \<or> (\<exists>ts' a b c d. octets a b c d \<and> ts = ts' @ [quad a b c d]
          \<and> ps = map Inl ts' @ [Inr (int a * 256 + int b), Inr (int c * 256 + int d)])"

lemma quad_words:
  assumes "octets a b c d"
  shows "quad_value a b c d div 65536 = int a * 256 + int b" "quad_value a b c d mod 65536 = int c * 256 + int d"
proof -
  have q: "quad_value a b c d = (int c * 256 + int d) + (int a * 256 + int b) * 65536" by (simp add: quad_value_def)
  have word: "(lo + hi * 65536) div 65536 = hi" "(lo + hi * 65536) mod 65536 = lo" if "0 \<le> lo" "lo < 65536" for lo hi :: int
    using that by simp_all
  have "0 \<le> int c * 256 + int d" "int c * 256 + int d < 65536" using assms by (auto simp: octets_def)
  from word [OF this] show "quad_value a b c d div 65536 = int a * 256 + int b" "quad_value a b c d mod 65536 = int c * 256 + int d"
    unfolding q by blast+
qed

lemma quad_has_dot: "46 \<in> set (quad a b c d)"
proof -
  have "lit ''.'' = [46]" by code_simp
  then show ?thesis by (simp add: quad_def)
qed

lemma ipv6_parts_iff:
  "ipv6_parts s = Some ps \<longleftrightarrow> 3 \<le> length (py_split 58 s) \<and> tokens_parts (py_split 58 s) ps"
proof (cases "46 \<in> set (last (py_split 58 s))")
  case False
  then show ?thesis using quad_has_dot by (auto simp: ipv6_parts_def tokens_parts_def Let_def not_less split: if_splits)
next
  case True
  let ?ts = "py_split 58 s"
  have ts: "?ts = butlast ?ts @ [last ?ts]" by simp
  have "(ipv6_parts s = Some ps) \<longleftrightarrow> 3 \<le> length ?ts \<and> (\<exists>n. ipv4_int (last ?ts) = Some n
      \<and> ps = map Inl (butlast ?ts) @ [Inr (n div 65536), Inr (n mod 65536)])"
    using True by (auto simp: ipv6_parts_def Let_def split: if_splits)
  also have "\<dots> \<longleftrightarrow> 3 \<le> length ?ts \<and> (\<exists>a b c d. octets a b c d \<and> last ?ts = quad a b c d
      \<and> ps = map Inl (butlast ?ts) @ [Inr (int a * 256 + int b), Inr (int c * 256 + int d)])"
    unfolding ipv4_iff using quad_words by metis
  also have "\<dots> \<longleftrightarrow> 3 \<le> length ?ts \<and> tokens_parts ?ts ps"
    using True ts unfolding tokens_parts_def by (metis butlast_snoc last_snoc)
  finally show ?thesis .
qed

lemma valued_Inl: "valued (map Inl gs) vs \<longleftrightarrow> list_all2 hextet gs vs"
  by (simp add: valued_def list_all2_map1 part_value_def parse_hextet_iff)

lemma valued_words:
  "valued (map Inl gs @ [Inr x, Inr y]) vs \<longleftrightarrow> (\<exists>vs'. vs = vs' @ [x, y] \<and> list_all2 hextet gs vs')"
proof
  assume v: "valued (map Inl gs @ [Inr x, Inr y]) vs"
  then obtain us ws where vs: "vs = us @ ws" "valued (map Inl gs) us" "valued [Inr x, Inr y] ws"
    by (auto simp: valued_def list_all2_append1)
  then have "ws = [x, y]" by (auto simp: valued_def part_value_def list_all2_Cons1)
  with vs show "\<exists>vs'. vs = vs' @ [x, y] \<and> list_all2 hextet gs vs'" by (auto simp: valued_Inl)
next
  assume "\<exists>vs'. vs = vs' @ [x, y] \<and> list_all2 hextet gs vs'"
  then obtain vs' where vs: "vs = vs' @ [x, y]" "valued (map Inl gs) vs'" by (auto simp: valued_Inl)
  have "valued [Inr x, Inr y] [x, y]" by (simp add: valued_def part_value_def)
  with vs show "valued (map Inl gs @ [Inr x, Inr y]) vs" by (simp add: valued_def list_all2_appendI)
qed

lemma tokens_groups:
  assumes "tokens_parts ts ps" and "valued ps vs"
  shows "groups ts vs"
proof (cases "ps = map Inl ts")
  case True
  with assms(2) show ?thesis by (simp add: groups_def valued_Inl)
next
  case False
  with assms(1) obtain ts' a b c d where t: "octets a b c d" "ts = ts' @ [quad a b c d]"
    and ps: "ps = map Inl ts' @ [Inr (int a * 256 + int b), Inr (int c * 256 + int d)]"
    unfolding tokens_parts_def by blast
  from assms(2) ps valued_words obtain vs' where "vs = vs' @ [int a * 256 + int b, int c * 256 + int d]"
    "list_all2 hextet ts' vs'" by blast
  with t show ?thesis unfolding groups_def by blast
qed

lemma groups_tokens:
  assumes "groups gs vs" and "gs \<noteq> []"
  obtains ps where "tokens_parts gs ps" and "valued ps vs"
proof (cases "list_all2 hextet gs vs")
  case True
  then have "\<exists>v. hextet (last gs) v"
    using assms(2) by (metis last_in_set list_all2_conv_all_nth in_set_conv_nth)
  then have "46 \<notin> set (last gs)" using hextet_chars [of "last gs" _ 46] by auto
  with True show thesis by (intro that [of "map Inl gs"]) (auto simp: tokens_parts_def valued_Inl)
next
  case False
  with assms obtain gs' vs' a b c d where g: "octets a b c d" "list_all2 hextet gs' vs'" "gs = gs' @ [quad a b c d]"
    "vs = vs' @ [int a * 256 + int b, int c * 256 + int d]" unfolding groups_def by blast
  show thesis
  proof (rule that)
    show "tokens_parts gs (map Inl gs' @ [Inr (int a * 256 + int b), Inr (int c * 256 + int d)])"
      using g unfolding tokens_parts_def by blast
    show "valued (map Inl gs' @ [Inr (int a * 256 + int b), Inr (int c * 256 + int d)]) vs"
      using g valued_words by blast
  qed
qed

text \<open>The tokens on one side of \<open>::\<close>.\<close>

definition side :: "pystr list \<Rightarrow> pystr list" where
  "side gs = (if gs = [] then [[]] else gs)"

lemma join_side: "py_join 58 (side gs) = py_join 58 gs" and side_nonempty [simp]: "side gs \<noteq> []"
  by (simp_all add: side_def)

lemma join_gap: "py_join 58 (side gs @ [[]] @ side gs') = py_join 58 gs @ [58, 58] @ py_join 58 gs'"
  by (simp add: join_append join_side join_append [of "[[]]", simplified])

lemma side_parts: "map Inl ts = gap_parts p \<Longrightarrow> \<exists>gs. p = map Inl gs \<and> ts = side gs"
proof (cases "p = []")
  case True
  assume "map Inl ts = gap_parts p"
  with True show ?thesis by (intro exI [of _ "[]"]) (auto simp: gap_parts_def side_def)
next
  case False
  assume "map Inl ts = gap_parts p"
  with False show ?thesis by (intro exI [of _ ts]) (auto simp: gap_parts_def side_def)
qed

lemma tokens_gap:
  assumes ts: "tokens_parts ts (gap_parts p @ [Inl []] @ gap_parts q)" and q: "valued q ws"
  obtains gs gs' where "p = map Inl gs" and "ts = side gs @ [[]] @ side gs'" and "groups gs' ws"
proof (cases "46 \<notin> set (last ts) \<and> gap_parts p @ [Inl []] @ gap_parts q = map Inl ts")
  case True
  then obtain t1 t2 where t: "ts = t1 @ [[]] @ t2" "map Inl t1 = gap_parts p" "map Inl t2 = gap_parts q"
    by (auto simp: append_eq_map_conv Cons_eq_map_conv)
  obtain gs where gs: "p = map Inl gs" "t1 = side gs" using side_parts [OF t(2)] by blast
  obtain gs' where gs': "q = map Inl gs'" "t2 = side gs'" using side_parts [OF t(3)] by blast
  show thesis using that [OF gs(1), of gs'] t(1) gs gs' q by (simp add: groups_def valued_Inl)
next
  case False
  with ts obtain ts' a b c d where d: "octets a b c d" "ts = ts' @ [quad a b c d]"
    and eq: "gap_parts p @ [Inl []] @ gap_parts q = map Inl ts' @ [Inr (int a * 256 + int b), Inr (int c * 256 + int d)]"
    unfolding tokens_parts_def by blast
  let ?x = "int a * 256 + int b" and ?y = "int c * 256 + int d"
  have lst: "last (gap_parts q) = Inr ?y" using arg_cong [OF eq, of last] by (simp add: gap_parts_simps)
  then have q0: "q \<noteq> []" by (auto simp: gap_parts_def)
  obtain q1 where q1: "q = q1 @ [Inr ?y]" using lst q0 by (metis append_butlast_last_id gap_parts_simps(2))
  then have eq1: "(gap_parts p @ [Inl []]) @ q1 = map Inl ts' @ [Inr ?x]" using eq q0 by (simp add: gap_parts_simps)
  have "q1 \<noteq> []" using eq1 by auto
  moreover have "last q1 = Inr ?x" using arg_cong [OF eq1, of last] \<open>q1 \<noteq> []\<close> by simp
  ultimately obtain q2 where q2: "q1 = q2 @ [Inr ?x]" by (metis append_butlast_last_id)
  with eq1 have "gap_parts p @ [Inl []] @ q2 = map Inl ts'" by simp
  then obtain t1 gs' where t: "ts' = t1 @ [[]] @ gs'" "map Inl t1 = gap_parts p" "q2 = map Inl gs'"
    by (auto simp: append_eq_map_conv Cons_eq_map_conv)
  obtain gs where gs: "p = map Inl gs" "t1 = side gs" using side_parts [OF t(2)] by blast
  obtain vs' where "ws = vs' @ [?x, ?y]" "list_all2 hextet gs' vs'"
    using q q1 q2 t(3) valued_words [of gs' ?x ?y ws] by auto
  then have "groups (gs' @ [quad a b c d]) ws" using d(1) unfolding groups_def by blast
  then show thesis using that [OF gs(1), of "gs' @ [quad a b c d]"] d(2) t(1) gs(2) by (simp add: side_def)
qed

lemma addr_has_form:
  assumes "ipv6_parts addr = Some ps" and "ipv6_from_parts ps = Some n"
  shows "ipv6_form addr n"
proof -
  let ?ts = "py_split 58 addr"
  have ts: "tokens_parts ?ts ps" and addr: "py_join 58 ?ts = addr"
    using assms(1) ipv6_parts_iff join_split by blast+
  consider (full) vs where "valued ps vs" "length vs = 8" "n = groups_value vs"
    | (short) p q vs ws where "valued p vs" "valued q ws" "length vs + length ws \<le> 7"
      "ps = gap_parts p @ [Inl []] @ gap_parts q"
      "n = groups_value (vs @ replicate (8 - length vs - length ws) 0 @ ws)"
    using assms(2) unfolding from_parts_iff parts_form_def by blast
  then show ?thesis
  proof cases
    case full
    with tokens_groups [OF ts] addr show ?thesis unfolding ipv6_form_def by metis
  next
    case short
    obtain gs gs' where g: "p = map Inl gs" "?ts = side gs @ [[]] @ side gs'" "groups gs' ws"
      using tokens_gap [OF _ short(2)] ts short(4) by metis
    have "list_all2 hextet gs vs" using short(1) g(1) by (simp add: valued_Inl)
    moreover have "addr = py_join 58 gs @ [58, 58] @ py_join 58 gs'" using addr g(2) join_gap by metis
    ultimately show ?thesis using g(3) short(3,5) unfolding ipv6_form_def by blast
  qed
qed

lemma groups_colon_free: "groups gs vs \<Longrightarrow> \<forall>g\<in>set gs. 58 \<notin> set g"
proof -
  have hex: "\<forall>g\<in>set gs. 58 \<notin> set g" if "list_all2 hextet gs vs" for gs vs
    using that hextet_chars [of _ _ 58] by (force simp: list_all2_conv_all_nth in_set_conv_nth)
  have "58 \<notin> set (quad a b c d)" for a b c d using quad_chars [of 58 a b c d] by auto
  then show "groups gs vs \<Longrightarrow> \<forall>g\<in>set gs. 58 \<notin> set g" unfolding groups_def using hex by auto
qed

lemma groups_length: "groups gs vs \<Longrightarrow> length vs \<le> Suc (length gs)"
  by (auto simp: groups_def dest: list_all2_lengthD)

lemma tokens_prefix: "tokens_parts ts ps \<Longrightarrow> ts \<noteq> [] \<Longrightarrow> tokens_parts (us @ ts) (map Inl us @ ps)"
  unfolding tokens_parts_def by (elim disjE exE conjE) (simp_all, metis append.assoc map_append)

lemma form_has_addr:
  assumes "ipv6_form addr n"
  shows "\<exists>ps. ipv6_parts addr = Some ps \<and> ipv6_from_parts ps = Some n"
  using assms unfolding ipv6_form_def
proof (elim disjE exE conjE)
  fix gs vs
  assume g: "groups gs vs" "length vs = 8" "addr = py_join 58 gs" "n = groups_value vs"
  have len: "7 \<le> length gs" using groups_length [OF g(1)] g(2) by simp
  then have ne: "gs \<noteq> []" by auto
  obtain ps where ps: "tokens_parts gs ps" "valued ps vs" using groups_tokens [OF g(1) ne] by blast
  have "py_split 58 addr = gs" unfolding g(3) by (rule split_join [OF ne groups_colon_free [OF g(1)]])
  then have "ipv6_parts addr = Some ps" using ps(1) len by (simp add: ipv6_parts_iff)
  moreover have "ipv6_from_parts ps = Some n" using ps(2) g(2,4) unfolding from_parts_iff parts_form_def by blast
  ultimately show ?thesis by blast
next
  fix gs vs gs' ws
  assume g: "list_all2 hextet gs vs" "groups gs' ws" "length vs + length ws \<le> 7"
    and addr: "addr = py_join 58 gs @ [58, 58] @ py_join 58 gs'"
    and n: "n = groups_value (vs @ replicate (8 - length vs - length ws) 0 @ ws)"
  obtain q where q: "tokens_parts (side gs') (gap_parts q)" "valued q ws"
  proof (cases "gs' = []")
    case True
    then have "ws = []" using g(2) by (auto simp: groups_def)
    with True show thesis by (intro that [of "[]"]) (auto simp: tokens_parts_def side_def gap_parts_def valued_def)
  next
    case False
    then obtain q where "tokens_parts gs' q" "valued q ws" using groups_tokens [OF g(2)] by blast
    moreover from this False have "q \<noteq> []" by (auto simp: tokens_parts_def)
    ultimately show thesis using False by (intro that [of q]) (simp_all add: side_def gap_parts_def)
  qed
  let ?ts = "side gs @ [[]] @ side gs'" and ?ps = "gap_parts (map Inl gs) @ [Inl []] @ gap_parts q"
  have "groups gs vs" using g(1) by (simp add: groups_def)
  then have free: "\<forall>t\<in>set ?ts. 58 \<notin> set t"
    using groups_colon_free [OF g(2)] groups_colon_free [of gs vs] by (auto simp: side_def)
  have "map Inl (side gs @ [[]]) @ gap_parts q = ?ps" by (auto simp: side_def gap_parts_def)
  then have "tokens_parts ?ts ?ps" using tokens_prefix [OF q(1), of "side gs @ [[]]"] by simp
  moreover have "py_split 58 addr = ?ts"
    unfolding addr join_gap [symmetric] by (rule split_join [OF _ free]) simp
  moreover have "3 \<le> length ?ts"
    using side_nonempty [of gs] side_nonempty [of gs'] by (cases "side gs"; cases "side gs'") auto
  ultimately have "ipv6_parts addr = Some ?ps" by (simp add: ipv6_parts_iff)
  moreover have "ipv6_from_parts ?ps = Some n"
    using g(1,3) q(2) n unfolding from_parts_iff parts_form_def valued_Inl [symmetric] by blast
  ultimately show ?thesis by blast
qed

text \<open>\<open>IPv6Address\<close> accepts exactly the textual forms, with their value.\<close>

lemma form_has_colon: "ipv6_form addr n \<Longrightarrow> 58 \<in> set addr"
  using form_has_addr [of addr n] py_split_none [of 58 addr] by (cases "58 \<in> set addr") (auto simp: ipv6_parts_iff)

lemma text_has_colon: "ipv6_text s n \<Longrightarrow> 58 \<in> set s"
  using form_has_colon by (auto simp: ipv6_text_def)

lemma ipv6_iff: "ipv6_int s = Some n \<longleftrightarrow> ipv6_text s n"
proof
  let ?addr = "takeWhile (\<lambda>c. c \<noteq> 37) s" and ?rest = "dropWhile (\<lambda>c. c \<noteq> 37) s"
  assume "ipv6_int s = Some n"
  then have ok: "47 \<notin> set s" "37 \<in> set s \<Longrightarrow> drop 1 ?rest \<noteq> [] \<and> 37 \<notin> set (drop 1 ?rest)"
    and "\<exists>ps. ipv6_parts ?addr = Some ps \<and> ipv6_from_parts ps = Some n"
    by (auto simp: ipv6_int_def Let_def bind_eq_Some_conv split: if_splits)
  then have form: "ipv6_form ?addr n" using addr_has_form by blast
  have clean: "37 \<notin> set ?addr" by (auto dest: set_takeWhileD)
  have "s = ?addr \<or> (\<exists>scope. scope \<noteq> [] \<and> 37 \<notin> set scope \<and> s = ?addr @ 37 # scope)"
  proof (cases "37 \<in> set s")
    case True
    then have "?rest \<noteq> []" by (auto simp: dropWhile_eq_Nil_conv)
    then have "?rest = 37 # drop 1 ?rest" using hd_dropWhile [of "\<lambda>c. c \<noteq> 37" s] by (cases ?rest) auto
    then have "s = ?addr @ 37 # drop 1 ?rest" by (metis takeWhile_dropWhile_id)
    with ok(2) [OF True] show ?thesis by blast
  next
    case False
    then have "s = ?addr" using takeWhile_eq_all_conv [of "\<lambda>c. c \<noteq> 37" s] by metis
    then show ?thesis by (rule disjI1)
  qed
  with form clean ok(1) show "ipv6_text s n" unfolding ipv6_text_def by blast
next
  assume "ipv6_text s n"
  then obtain addr where a: "47 \<notin> set s" "37 \<notin> set addr" "ipv6_form addr n"
    and s: "s = addr \<or> (\<exists>scope. scope \<noteq> [] \<and> 37 \<notin> set scope \<and> s = addr @ 37 # scope)"
    unfolding ipv6_text_def by blast
  have tw: "takeWhile (\<lambda>c. c \<noteq> 37) (addr @ 37 # r) = addr" "dropWhile (\<lambda>c. c \<noteq> 37) (addr @ 37 # r) = 37 # r" for r
    using a(2) by (auto simp: takeWhile_append dropWhile_append)
  have tw0: "takeWhile (\<lambda>c. c \<noteq> 37) addr = addr" using a(2) by (auto simp: takeWhile_eq_all_conv)
  have "addr \<noteq> []" using form_has_colon [OF a(3)] by auto
  then show "ipv6_int s = Some n"
    using s a form_has_addr [OF a(3)] by (auto simp: ipv6_int_def Let_def tw tw0)
qed

section \<open>Listening without a password\<close>

lemma quad_no_colon: "58 \<notin> set (quad a b c d)"
  using quad_chars [of 58 a b c d] by auto

lemma mapped_loopback:
  "(n :: int) div 2 ^ 32 = 0xFFFF \<and> n mod 2 ^ 32 div 2 ^ 24 = 127 \<longleftrightarrow> 0xFFFF7F000000 \<le> n \<and> n < 0xFFFF80000000"
proof -
  let ?m = "n div 2 ^ 24"
  have "n div 2 ^ 32 = ?m div 256" using zdiv_zmult2_eq [of 256 n "2 ^ 24"] by simp
  moreover have "n mod 2 ^ 32 div 2 ^ 24 = ?m mod 256"
    using zmod_zmult2_eq [of 256 n "2 ^ 24"] by simp
  moreover have "m div 256 = 0xFFFF \<and> m mod 256 = 127 \<longleftrightarrow> m = 0xFFFF7F" for m :: int
  proof
    assume "m div 256 = 0xFFFF \<and> m mod 256 = 127"
    then show "m = 0xFFFF7F" using mult_div_mod_eq [of 256 m] by linarith
  qed simp
  moreover have "?m = 0xFFFF7F \<longleftrightarrow> 0xFFFF7F000000 \<le> n \<and> n < 0xFFFF80000000"
    using div_mult_mod_eq [of n "2 ^ 24"] pos_mod_bound [of "2 ^ 24" n] pos_mod_sign [of "2 ^ 24" n] by simp linarith
  ultimately show ?thesis by simp
qed

lemma ip_loopback_cases:
  "octets a b c d \<Longrightarrow> ip_is_loopback mapped (quad a b c d) = Some (a = 127)"
  "ipv6_text s n \<Longrightarrow>
     ip_is_loopback mapped s = Some (n = 1 \<or> mapped \<and> 0xFFFF7F000000 \<le> n \<and> n < 0xFFFF80000000)"
  "(\<And>a b c d. octets a b c d \<Longrightarrow> s \<noteq> quad a b c d) \<Longrightarrow> (\<And>n. \<not> ipv6_text s n) \<Longrightarrow> ip_is_loopback mapped s = None"
proof -
  assume o: "octets a b c d"
  then have "ipv4_int (quad a b c d) = Some (quad_value a b c d)" using ipv4_iff by blast
  moreover have "quad_value a b c d div 2 ^ 24 = int a"
  proof -
    have byte: "(lo + hi * 2 ^ 24) div 2 ^ 24 = hi" if "0 \<le> lo" "lo < 2 ^ 24" for lo hi :: int using that by simp
    have "quad_value a b c d = (int b * 2 ^ 16 + int c * 2 ^ 8 + int d) + int a * 2 ^ 24" by (simp add: quad_value_def)
    moreover have "int b * 2 ^ 16 + int c * 2 ^ 8 + int d < 2 ^ 24" using o by (simp add: octets_def)
    ultimately show ?thesis using byte [of "int b * 2 ^ 16 + int c * 2 ^ 8 + int d" "int a"] by simp
  qed
  ultimately show "ip_is_loopback mapped (quad a b c d) = Some (a = 127)" by (simp add: ip_is_loopback_def)
next
  assume v6: "ipv6_text s n"
  then have "ipv4_int s = None" using ipv4_iff [of s] text_has_colon quad_no_colon by (metis not_Some_eq)
  moreover have "ipv6_int s = Some n" using v6 ipv6_iff by blast
  ultimately show "ip_is_loopback mapped s = Some (n = 1 \<or> mapped \<and> 0xFFFF7F000000 \<le> n \<and> n < 0xFFFF80000000)"
    using mapped_loopback [of n] by (auto simp: ip_is_loopback_def)
next
  assume "\<And>a b c d. octets a b c d \<Longrightarrow> s \<noteq> quad a b c d" "\<And>n. \<not> ipv6_text s n"
  then have "ipv4_int s = None" "ipv6_int s = None" using ipv4_iff [of s] ipv6_iff [of s] by (metis not_Some_eq)+
  then show "ip_is_loopback mapped s = None" by (simp add: ip_is_loopback_def)
qed

lemma loopback_host_cases:
  fixes h defines "host \<equiv> map lower_cp (py_strip h)"
  shows "host = lit ''localhost'' \<Longrightarrow> loopback_host mapped h"
    and "octets a b c d \<Longrightarrow> host = quad a b c d \<Longrightarrow> loopback_host mapped h \<longleftrightarrow> a = 127"
    and "ipv6_text host n \<Longrightarrow>
      loopback_host mapped h \<longleftrightarrow> n = 1 \<or> mapped \<and> 0xFFFF7F000000 \<le> n \<and> n < 0xFFFF80000000"
    and "host \<noteq> lit ''localhost'' \<Longrightarrow> (\<And>a b c d. octets a b c d \<Longrightarrow> host \<noteq> quad a b c d) \<Longrightarrow>
      (\<And>n. \<not> ipv6_text host n) \<Longrightarrow> \<not> loopback_host mapped h"
proof -
  have def: "loopback_host mapped h \<longleftrightarrow> host = lit ''localhost'' \<or> ip_is_loopback mapped host = Some True"
    by (simp add: loopback_host_def host_def Let_def)
  show "host = lit ''localhost'' \<Longrightarrow> loopback_host mapped h" by (simp add: def)
  have loc: "108 \<in> set (lit ''localhost'')" "58 \<notin> set (lit ''localhost'')" by code_simp+
  have q: "quad a b c d \<noteq> lit ''localhost''" using quad_chars [of 108 a b c d] loc by auto
  show "loopback_host mapped h \<longleftrightarrow> a = 127" if "octets a b c d" "host = quad a b c d"
    using that q ip_loopback_cases(1) by (simp add: def)
  show "loopback_host mapped h \<longleftrightarrow> n = 1 \<or> mapped \<and> 0xFFFF7F000000 \<le> n \<and> n < 0xFFFF80000000"
    if "ipv6_text host n"
    using text_has_colon [OF that] loc(2) ip_loopback_cases(2) [OF that] by (auto simp: def)
  show "\<not> loopback_host mapped h" if "host \<noteq> lit ''localhost''" "\<And>a b c d. octets a b c d \<Longrightarrow> host \<noteq> quad a b c d"
    "\<And>n. \<not> ipv6_text host n"
    using ip_loopback_cases(3) [of host] that by (simp add: def)
qed

text \<open>C23: Listening without a password, for every host. With a password, or with the explicit option,
  every host is accepted. Without either the server accepts \<open>localhost\<close>, an IPv4 address exactly when it
  is in \<open>127.0.0.0/8\<close>, and an IPv6 address, in any of its textual forms, exactly when its value is that of
  \<open>::1\<close> or, for the versions of \<open>ipaddress\<close> that look into mapped addresses, of \<open>::ffff:127.x.y.z\<close>; every
  other host, the empty one and host names included, is refused. The host is taken without surrounding
  blanks and in lower case.\<close>

theorem bind_needs_password:
  assumes "plain_filename (cfg_dbfilename cfg)" and "plain_filename (cfg_aof_filename cfg)"
  shows "let host = map lower_cp (py_strip (cfg_host cfg)); outcome = validate_network_security mapped cfg
    in (cfg_requirepass cfg \<noteq> None \<or> cfg_allow_unprotected cfg \<longrightarrow> outcome = Inr ())
     \<and> (cfg_requirepass cfg = None \<and> \<not> cfg_allow_unprotected cfg \<longrightarrow>
          (host = lit ''localhost'' \<longrightarrow> outcome = Inr ())
        \<and> (\<forall>a b c d. octets a b c d \<longrightarrow> host = quad a b c d \<longrightarrow>
             outcome = (if a = 127 then Inr () else Inl UnprotectedBind))
        \<and> (\<forall>n. ipv6_text host n \<longrightarrow>
             outcome = (if n = 1 \<or> mapped \<and> 0xFFFF7F000000 \<le> n \<and> n < 0xFFFF80000000
                        then Inr () else Inl UnprotectedBind))
        \<and> (host \<noteq> lit ''localhost'' \<longrightarrow> (\<nexists>a b c d. octets a b c d \<and> host = quad a b c d) \<longrightarrow>
             (\<nexists>n. ipv6_text host n) \<longrightarrow> outcome = Inl UnprotectedBind))"
proof -
  have v: "validate_network_security mapped cfg =
      (if \<not> loopback_host mapped (cfg_host cfg) \<and> cfg_requirepass cfg = None \<and> \<not> cfg_allow_unprotected cfg
       then Inl UnprotectedBind else Inr ())"
    using assms by (simp add: validate_network_security_def)
  note hosts = loopback_host_cases [where h = "cfg_host cfg"]
  show ?thesis unfolding v Let_def using hosts by auto
qed

text \<open>A link-local address, which is not the loopback address.\<close>

lemma link_local_text: "ipv6_text (lit ''fe80::1'') (0xfe80 * 2 ^ 112 + 1)"
proof -
  have "ipv6_int (lit ''fe80::1'') = Some (0xfe80 * 2 ^ 112 + 1)" by code_simp
  then show ?thesis by (simp only: ipv6_iff)
qed

theorem bind_needs_password_witness:
  "validate_network_security True (default_config\<lparr>cfg_host := lit ''fe80::1''\<rparr>) = Inl UnprotectedBind"
proof -
  have "py_strip (lit ''fe80::1'') = lit ''fe80::1''" by (rule strip_unspaced) (simp add: lit_def py_space_def)
  then have "map lower_cp (py_strip (lit ''fe80::1'')) = lit ''fe80::1''" by (simp add: lit_def lower_cp_def)
  then show ?thesis
    using bind_needs_password [of "default_config\<lparr>cfg_host := lit ''fe80::1''\<rparr>" True] link_local_text
      default_names_plain
    by (auto simp: default_config_def Let_def)
qed

end
