(* ===== verification/Server_Persist.thy ===== *)
theory Server_Persist
  imports Server_Correct
begin

text \<open>
  What reaches the append-only log: nothing for reads and for commands of clients of a replica,
  exactly the command and the evictions it caused for an answered write, and a rewritten log that
  restores the keyspace it was made from.
\<close>

section \<open>Reads and read-only replicas\<close>

text \<open>C30: On a replica no client can change the data: every write command of a client is answered
  with an error, changes nothing any client can see, and is not logged.\<close>

theorem replica_is_read_only:
  assumes "is_replica (config s)" and "upper_name cmd \<in> set WRITE_COMMANDS" and "execute conn cmd s = (r, s')"
  shows "(\<exists>line. r = Inr (Some (CHR ''-'' # line))) \<and> quiet (db s) (db s') \<and> aof s' = aof s"
proof -
  let ?ctx = "client_context conn cmd"
  obtain name rest where cmd: "cmd = name # rest" "py_upper name \<in> set WRITE_COMMANDS"
    using assms(2) by (auto simp: upper_name_def WRITE_COMMANDS_def split: list.splits)
  have "py_upper name \<in> {''SET'', ''EXPIRE'', ''LPUSH'', ''RPOP'', ''HSET'', ''DEL''}"
    using cmd(2) by (simp add: WRITE_COMMANDS_def)
  then obtain h where h: "reg_get create_default_registry name = Some h"
    by (auto simp: reg_get_default default_lookup)
  have disp: "dispatch create_default_registry ?ctx t = (Inl readonly_error, t)" if "config t = config s" for t
    using h cmd assms(1) that by (simp add: dispatch_def client_context_def)
  have ro: "\<exists>line. error_reply msg = Inr (Some (CHR ''-'' # line))"
    if "msg = lit ''READONLY You can'' @ quote @ lit ''t write against a read only replica.''
      \<or> msg = lit ''NOAUTH Authentication required.'' \<or> msg = lit ''MISCONF AOF persistence is unhealthy''" for msg
  proof -
    let ?ro = "''READONLY You can'' @ [CHR 0x27] @ ''t write against a read only replica.''"
    have "lit ''READONLY You can'' @ quote @ lit ''t write against a read only replica.'' = lit ?ro"
      by (simp add: lit_def)
    moreover have "error_reply (lit ?ro) = Inr (Some (CHR ''-'' # ?ro @ crlf))"
      by (rule error_reply_lit) code_simp+
    moreover have "error_reply (lit ''NOAUTH Authentication required.'')
        = Inr (Some (CHR ''-'' # ''NOAUTH Authentication required.'' @ crlf))"
      by (rule error_reply_lit) code_simp+
    moreover have "error_reply (lit ''MISCONF AOF persistence is unhealthy'')
        = Inr (Some (CHR ''-'' # ''MISCONF AOF persistence is unhealthy'' @ crlf))"
      by (rule error_reply_lit) code_simp+
    ultimately show ?thesis using that by auto
  qed
  have w: "is_write ?ctx" using assms(2) by (simp add: client_context_def)
  have "(r, s') = (error_reply (lit ''NOAUTH Authentication required.''), count_failed s)
      \<or> (r, s') = (error_reply (lit ''MISCONF AOF persistence is unhealthy''), count_failed s)
      \<or> (r, s') = (error_reply (lit ''READONLY You can'' @ quote @ lit ''t write against a read only replica.''),
           count_failed (snd (prep True s)))"
  proof (cases rule: execute_inner_cases [of s ?ctx create_default_registry])
    case (raised e s2 msg)
    from w have "is_write ?ctx = True" by simp
    with raised(1) disp [of "snd (prep True s)"] have "e = readonly_error" "s2 = snd (prep True s)" by auto
    with raised(2,3) assms(3) show ?thesis by (auto simp: execute_def readonly_error_def)
  next
    case (ran v s2)
    then show ?thesis using disp [of "snd (prep (is_write ?ctx) s)"] by simp
  qed (use assms(3) in \<open>auto simp: execute_def\<close>)
  then show ?thesis using ro prep_frame(5) [of s True] by (elim disjE) auto
qed

definition replica_config :: config where
  "replica_config =
     default_config\<lparr>cfg_role := Replica, cfg_replicaof_host := Some (lit ''m''), cfg_replicaof_port := Some 6379\<rparr>"

theorem replica_is_read_only_witness:
  "\<exists>line. fst (execute 1 [''SET'', ''k'', ''v''] (sample_server replica_config)) = Inr (Some (CHR ''-'' # line))"
proof -
  have "execute 1 [''SET'', ''k'', ''v''] (sample_server replica_config)
      = (fst (execute 1 [''SET'', ''k'', ''v''] (sample_server replica_config)),
         snd (execute 1 [''SET'', ''k'', ''v''] (sample_server replica_config)))" by simp
  from replica_is_read_only [OF _ _ this] show ?thesis
    by (simp add: replica_config_def is_replica_def upper_name_def upper_names WRITE_COMMANDS_def)
qed

section \<open>What is logged\<close>

lemma after_dispatch_read_aof: "aof (snd (after_dispatch ctx False before v s)) = aof s"
  by (auto simp: after_dispatch_def persist_def)

text \<open>A command that is not one of the six write commands never touches the log, whoever sends it.\<close>

lemma reads_are_not_logged:
  assumes "upper_name (argv ctx) \<notin> set WRITE_COMMANDS"
  shows "aof (snd (execute_inner create_default_registry ctx s)) = aof s"
proof (cases rule: execute_inner_cases [of s ctx create_default_registry])
  case (raised e s2 msg)
  then show ?thesis using dispatch.keeps_aof [of ctx "snd (prep (is_write ctx) s)"] by simp
next
  case (ran v s2)
  then show ?thesis
    using dispatch.keeps_aof [of ctx "snd (prep (is_write ctx) s)"] after_dispatch_read_aof assms by simp
qed simp_all

lemma reads_are_not_logged_witness:
  "aof (snd (execute_inner create_default_registry (client_context 1 [''GET'', ''k'']) (sample_server default_config)))
     = running_log Everysec"
  using reads_are_not_logged [of "client_context 1 [''GET'', ''k'']" "sample_server default_config"]
  by (simp add: client_context_def upper_name_def upper_names WRITE_COMMANDS_def)

lemma log_and_propagate_file:
  assumes "log_ready (aof s)" and "full_writes (aof s)" and "log_and_propagate c s = (Inr (), s')"
  shows "aof_file (aof s') = aof_file (aof s) @ encode_command c" and "log_ready (aof s')" and "full_writes (aof s')"
proof -
  obtain r l where a: "aof_append c (aof s) = (r, l)" by fastforce
  have r: "r = Inr ()" and l: "aof s' = l"
    using assms(3) a by (auto simp: log_and_propagate_def log_command_def split: sum.splits)
  from aof_append_ok(3) [OF assms(1) _ assms(2)] a r l
  show "aof_file (aof s') = aof_file (aof s) @ encode_command c" by simp
  from aof_append_frame [OF assms(1) a] l show "log_ready (aof s')" by simp
  from aof_append_frame [OF assms(1) a] l assms(2) show "full_writes (aof s')" by (simp add: full_writes_def)
qed

lemma log_all_file:
  assumes "log_ready (aof s)" and "full_writes (aof s)" and "log_all cs s = (Inr (), s')"
  shows "aof_file (aof s') = aof_file (aof s) @ concat (map encode_command cs)"
  using assms
proof (induction cs arbitrary: s)
  case (Cons c cs)
  obtain r s1 where l: "log_and_propagate c s = (r, s1)" by fastforce
  with Cons.prems(3) have r: "r = Inr ()" "log_all cs s1 = (Inr (), s')" by (auto split: sum.splits)
  with log_and_propagate_file [OF Cons.prems(1,2)] Cons.IH [of s1] l show ?case by simp
qed simp

lemma limit_account:
  assumes "store_inv (db s)" and "limit True s = (Inr ev, s1)"
  shows "evictions ev (db s) (db s1)"
  using assms enforce_account [of "db s" ev "db s1"] by (auto simp: limit_def on_db_def Let_def split_beta prod_eq_iff)

text \<open>C3: On a master a write command whose reply is not an error is in the log: with a working file
  system the file has grown by exactly that command followed by one \<open>DEL\<close> for each key the memory
  limit evicted after the handler ran. \<open>s2\<close> is the server the handler left; the evicted keys are
  pinned by it and by the final keyspace: they are different keys, as many as the counter
  \<open>evicted_keys\<close> grew by, each was in the keyspace of \<open>s2\<close> and is gone, and any other key is as the
  handler left it or was dropped because its deadline had passed.\<close>

theorem answered_write_is_logged:
  assumes inv: "store_inv (db s)" and "\<not> is_replica (config s)" and w: "upper_name cmd \<in> set WRITE_COMMANDS"
    and log: "log_ready (aof s)" "full_writes (aof s)"
    and ex: "execute conn cmd s = (Inr (Some reply), s')" and ok: "hd reply \<noteq> CHR ''-''"
  shows "\<exists>v s2 evicted.
    dispatch create_default_registry (client_context conn cmd) (snd (on_db snapshot s)) = (Inr v, s2)
    \<and> aof_file (aof s') = aof_file (aof s) @ encode_command cmd
        @ concat (map (\<lambda>k. encode_command [''DEL'', k]) evicted)
    \<and> distinct evicted \<and> set evicted \<subseteq> key_set (db s2)
    \<and> evicted_keys (db s') = evicted_keys (db s2) + length evicted
    \<and> (\<forall>k. if k \<in> set evicted then k \<notin> key_set (db s')
           else dict_get (entries (db s')) k = dict_get (entries (db s2)) k
             \<or> k \<notin> key_set (db s')
               \<and> (\<exists>e. dict_get (entries (db s2)) k = Some e \<and> seen_expired (db s2) (db s') e))"
proof -
  let ?ctx = "client_context conn cmd"
  have wc: "is_write ?ctx" using w by (simp add: client_context_def)
  have bad: False if "error_reply m = Inr (Some reply)" for m using error_reply_dash [OF that] ok by auto
  show ?thesis
  proof (cases rule: execute_inner_cases [of s ?ctx create_default_registry])
    case (ran v s2)
    let ?s1 = "snd (prep True s)"
    have d: "dispatch create_default_registry ?ctx ?s1 = (Inr v, s2)" using ran(1) wc by simp
    have "store_inv (db ?s1)" using prep_frame(5) [of s True] inv by (simp add: quiet_def)
    then have s2: "store_inv (db s2)" "config s2 = config s" "aof s2 = aof s"
      using dispatch.keeps_inv [of ?s1 ?ctx] dispatch.keeps_config [of ?ctx ?s1] dispatch.keeps_aof [of ?ctx ?s1] d
      by simp_all
    have ad: "after_dispatch ?ctx True (fst (prep True s)) v s2 = (Inr (Some reply), s')"
      using ran(2) ex wc by (simp add: execute_def)
    show ?thesis
    proof (cases rule: after_dispatch_cases [of True s2 ?ctx "fst (prep True s)" v])
      case (ok ev s3 s4)
      have s3: "aof s3 = aof s" "config s3 = config s" using ok(1) limit_frame(1,2) [of True s2] s2 by simp_all
      have s4: "s' = s4" using ad ok by simp
      have logged: "log_all (cmd # map (\<lambda>k. [''DEL'', k]) ev) s3 = (Inr (), s4)"
        using ok(3) assms(2) s3(2) by (simp add: persist_def client_context_def del: log_all.simps)
      from log_all_file [OF _ _ logged] s3(1) log
      have "aof_file (aof s') = aof_file (aof s) @ encode_command cmd
          @ concat (map (\<lambda>k. encode_command [''DEL'', k]) ev)"
        by (simp add: s4 comp_def)
      moreover have "db s' = db s3" using persist_frame(1) [of ?ctx True ev s3] ok(3) s4 by simp
      moreover have "evictions ev (db s2) (db s3)" by (rule limit_account [OF s2(1) ok(1)])
      moreover have "dispatch create_default_registry ?ctx (snd (on_db snapshot s)) = (Inr v, s2)"
        using d by (simp add: prep_def)
      ultimately show ?thesis
        by (intro exI [of _ v] exI [of _ s2] exI [of _ ev]) (auto simp: evictions_def pydict.get_None)
    next
      case (oom s1)
      then have "error_reply (lit ''OOM command not allowed when used memory > maxmemory'') = Inr (Some reply)"
        using ad by simp
      then show ?thesis by (rule bad [THEN FalseE])
    qed (use ad bad in \<open>auto simp: misconf_def\<close>)
  qed (use ex in \<open>auto simp: execute_def dest: bad bad [OF sym]\<close>)
qed

lemma limit_off: "maxmemory_bytes (db s) \<le> 0 \<Longrightarrow> limit w s = (Inr [], s)"
  by (simp add: limit_def on_db_def enforce_memory_limit_def)

lemma after_dispatch_ok:
  assumes "maxmemory_bytes (db s) \<le> 0" and "v \<noteq> PNoReply" and "persist ctx w [] s = (Inr (), s')"
  shows "after_dispatch ctx w before v s = (encode_reply v, s')"
  using assms by (simp add: after_dispatch_def limit_def [symmetric] limit_off)

lemma encode_simple_ascii:
  assumes "is_ascii m" and "cr \<notin> set m" and "lf \<notin> set m"
  shows "encode_reply (simple m) = Inr (Some (CHR ''+'' # m @ crlf))"
  using utf8_encode_lit [OF assms(1)] assms(2,3)
  by (simp add: encode_reply_def simple_def enc_simps encode_simple_string_def as_bytes_def)

lemma ok_reply: "encode_reply (simple ''OK'') = Inr (Some (''+OK'' @ crlf))"
proof -
  have "encode_reply (simple ''OK'') = Inr (Some (CHR ''+'' # ''OK'' @ crlf))"
    by (rule encode_simple_ascii) code_simp+
  then show ?thesis by simp
qed

lemma purge_empty: "entries s = [] \<Longrightarrow> entries (purge_expired s) = []"
  by (simp add: purge_expired_def now_ms_def expired_keys_def)

lemma running_append: "\<exists>l. aof_append c (running_log Everysec) = (Inr (), l)"
  by (simp add: append_defs running_log_def start_background_fsync_def aof_open_def AOFLog_def)

lemma sample_set_run:
  "\<exists>s'. execute 1 [''SET'', ''k'', ''v''] (sample_server default_config) = (Inr (Some (''+OK'' @ crlf)), s')
     \<and> aof_append [''SET'', ''k'', ''v''] (running_log Everysec) = (Inr (), aof s')"
proof -
  let ?c = "[''SET'', ''k'', ''v'']" and ?ctx = "client_context 1 [''SET'', ''k'', ''v'']"
  let ?s = "sample_server default_config"
  let ?s1 = "snd (prep True ?s)"
  let ?s2 = "?s1\<lparr>db := set_string ''k'' ''v'' None (db ?s1)\<rparr>"
  have d: "dispatch create_default_registry ?ctx ?s1 = (Inr (simple ''OK''), ?s2)"
    by (simp add: dispatch_def client_context_def reg_get_default upper_names default_lookup cmd_set_def
        default_config_def is_replica_def)
  have mx: "maxmemory_bytes (db ?s2) \<le> 0"
    by (simp add: prep_def on_db_simps snapshot_snd set_string_def put_entry_def touch_access_def new_store_def
        default_config_def)
  obtain l where l: "aof_append ?c (running_log Everysec) = (Inr (), l)" using running_append by blast
  obtain s3 where p: "persist ?ctx True [] ?s2 = (Inr (), s3)" and s3: "aof s3 = l"
    using l by (simp add: persist_def client_context_def default_config_def is_replica_def log_and_propagate_def
        log_command_def)
  have "execute 1 ?c ?s = after_dispatch ?ctx True (fst (prep True ?s)) (simple ''OK'') ?s2"
    using d
    by (simp add: execute_def execute_inner_def prep_def client_context_def upper_name_def upper_names
        WRITE_COMMANDS_def default_config_def healthy_def running_log_def start_background_fsync_def aof_open_def
        AOFLog_def split_beta)
  also have "\<dots> = (encode_reply (simple ''OK''), s3)"
    by (rule after_dispatch_ok [OF mx _ p]) (simp add: simple_def)
  finally show ?thesis using l s3 by (simp add: ok_reply)
qed

text \<open>A master with room for one key: writing a second one evicts the first.\<close>

definition full_server :: server where
  "full_server =
     (sample_server (default_config\<lparr>cfg_maxmemory_bytes := 100, cfg_maxmemory_policy := ''allkeys-lru''\<rparr>))
       \<lparr>db := set_string ''a'' ''v'' None (new_store 100 ''allkeys-lru'' (\<lambda>i. 1000))\<rparr>"

lemmas full_defs = purge_expired_def now_ms_def expired_keys_def set_string_def put_entry_def touch_access_def
  new_store_def dict_set_def is_expired_def KeyEntry_def memory_usage_def entry_usage_def choose_victim_def
  candidates_def access_stamp_def dict_get_def evict_key_def drop_key_def dict_del_def dict_keys_def

lemma full_snapshot: "snd (snapshot (db full_server)) = (db full_server)\<lparr>ticks := 1\<rparr>"
  by (simp add: full_server_def snapshot_snd full_defs)

lemma full_limit:
  "\<exists>d. enforce_memory_limit (set_string ''k'' ''v'' None ((db full_server)\<lparr>ticks := 1\<rparr>)) = (Inr [''a''], d)
     \<and> evicted_keys d = 1 \<and> key_set d = {''k''}"
  apply (simp add: full_server_def enforce_memory_limit_def full_defs)
  apply (subst evict_loop.simps, simp add: full_defs)
  apply (subst evict_loop.simps, simp add: full_defs)
  done

lemma full_append:
  "\<exists>l l'. aof_append c (running_log Everysec) = (Inr (), l) \<and> aof_append c' l = (Inr (), l')"
  by (simp add: append_defs running_log_def start_background_fsync_def aof_open_def AOFLog_def)

lemma full_server_simps:
  "cfg_role (config full_server) = Master" "cfg_requirepass (config full_server) = None"
  "healthy (running_log Everysec)" "aof full_server = running_log Everysec"
  by (simp_all add: full_server_def default_config_def healthy_def running_log_def start_background_fsync_def
      aof_open_def AOFLog_def)

lemma full_set_command: "\<not> is_replica (config full_server)" "upper_name [''SET'', ''k'', ''v''] \<in> set WRITE_COMMANDS"
  by (simp_all add: full_server_simps is_replica_def upper_name_def upper_names WRITE_COMMANDS_def)

lemma full_dispatch:
  "dispatch create_default_registry (client_context 1 [''SET'', ''k'', ''v'']) (snd (on_db snapshot full_server))
     = (Inr (simple ''OK''),
        full_server\<lparr>db := set_string ''k'' ''v'' None ((db full_server)\<lparr>ticks := 1\<rparr>)\<rparr>)"
  by (simp add: dispatch_def client_context_def reg_get_default upper_names default_lookup cmd_set_def
      is_replica_def on_db_simps full_snapshot full_server_simps)

lemma full_set_run:
  "\<exists>s'. execute 1 [''SET'', ''k'', ''v''] full_server = (Inr (Some (''+OK'' @ crlf)), s')
     \<and> evicted_keys (db s') = 1 \<and> key_set (db s') = {''k''}"
proof -
  note full_server_simps [simp]
  let ?c = "[''SET'', ''k'', ''v'']" and ?ctx = "client_context 1 [''SET'', ''k'', ''v'']"
  let ?s2 = "full_server\<lparr>db := set_string ''k'' ''v'' None ((db full_server)\<lparr>ticks := 1\<rparr>)\<rparr>"
  obtain d3 where lim: "enforce_memory_limit (db ?s2) = (Inr [''a''], d3)"
    and d3: "evicted_keys d3 = 1" "key_set d3 = {''k''}" using full_limit by auto
  obtain l l' where l: "aof_append ?c (running_log Everysec) = (Inr (), l)" "aof_append [''DEL'', ''a''] l = (Inr (), l')"
    using full_append by blast
  obtain s4 where per: "persist ?ctx True [''a''] (?s2\<lparr>db := d3\<rparr>) = (Inr (), s4)" and s4: "db s4 = d3"
    using l by (simp add: persist_def client_context_def is_replica_def log_and_propagate_def log_command_def)
  have "execute 1 ?c full_server = after_dispatch ?ctx True (fst (prep True full_server)) (simple ''OK'') ?s2"
    using full_dispatch
    by (simp add: execute_def execute_inner_def prep_def client_context_def upper_name_def upper_names
        WRITE_COMMANDS_def split_beta)
  also have "\<dots> = (encode_reply (simple ''OK''), s4)"
    using lim per by (simp add: after_dispatch_def on_db_def simple_def)
  finally show ?thesis using s4 d3 by (simp add: ok_reply)
qed

theorem answered_write_is_logged_witness:
  "aof_file (aof (snd (execute 1 [''SET'', ''k'', ''v''] full_server)))
     = encode_command [''SET'', ''k'', ''v''] @ encode_command [''DEL'', ''a'']"
proof -
  let ?c = "[''SET'', ''k'', ''v'']"
  obtain s' where ex: "execute 1 ?c full_server = (Inr (Some (''+OK'' @ crlf)), s')"
    and s': "evicted_keys (db s') = 1" "key_set (db s') = {''k''}" using full_set_run by blast
  let ?d = "set_string ''k'' ''v'' None ((db full_server)\<lparr>ticks := 1\<rparr>)"
  have d: "evicted_keys ?d = 0" "key_set ?d = {''a'', ''k''}"
    by (simp_all add: full_server_def full_defs insert_commute)
  have "store_inv (db full_server)" by (simp add: full_server_def set_string_inv new_store_inv)
  then obtain v s2 evicted where
    s2: "dispatch create_default_registry (client_context 1 ?c) (snd (on_db snapshot full_server)) = (Inr v, s2)"
    and grown: "aof_file (aof s') = aof_file (aof full_server) @ encode_command ?c
      @ concat (map (\<lambda>k. encode_command [''DEL'', k]) evicted)"
    and ev: "set evicted \<subseteq> key_set (db s2)" "evicted_keys (db s') = evicted_keys (db s2) + length evicted"
    and gone: "\<forall>k. if k \<in> set evicted then k \<notin> key_set (db s')
           else dict_get (entries (db s')) k = dict_get (entries (db s2)) k
             \<or> k \<notin> key_set (db s')
               \<and> (\<exists>e. dict_get (entries (db s2)) k = Some e \<and> seen_expired (db s2) (db s') e)"
    using answered_write_is_logged [OF _ _ _ _ _ ex] running_log_ready full_set_command
    by (auto simp: full_server_simps)
  have "''k'' \<notin> set evicted" using spec [OF gone, of "''k''"] s'(2) by (auto split: if_splits)
  moreover have "db s2 = ?d" using s2 full_dispatch by auto
  ultimately have "evicted = [''a'']" using ev d s' by (cases evicted) auto
  with grown ex show ?thesis by (simp add: full_server_simps)
qed

end
