(* ===== verification/Aof_Rewrite.thy ===== *)
theory Aof_Rewrite
  imports Server_Persist
begin

text \<open>
  The rewrite of the append-only log against its replay: the commands \<open>_build_rewrite_payload\<close>
  emits for a snapshot, read back and executed on an empty server, restore the snapshot. Deadlines
  are written as whole seconds from the time of the rewrite, so a restored key lives at least as
  long as it had left, and less than a second longer.
\<close>

section \<open>Executing one logged command\<close>

definition loading_ctx :: "bytes list \<Rightarrow> command_context" where
  "loading_ctx c = (client_context 0 c)\<lparr>is_replica_client := True, is_loading := True\<rparr>"

lemma loading_ctx_simps [simp]: "argv (loading_ctx c) = c" "is_loading (loading_ctx c)" "is_replica_client (loading_ctx c)"
  by (simp_all add: loading_ctx_def client_context_def)

lemma apply_logged_dispatch:
  assumes "upper_name c \<in> set WRITE_COMMANDS"
    and d: "dispatch create_default_registry (loading_ctx c) (s\<lparr>db := purge_expired (db s)\<rparr>) = (Inr v, s2)"
    and v: "encode_value v = Inr b" and mx: "maxmemory_bytes (db s2) \<le> 0"
  shows "apply_logged_command c s = (Inr (), s2)"
proof -
  have "v \<noteq> PNoReply" using v by (auto simp: enc_simps)
  moreover have "persist (loading_ctx c) True [] s2 = (Inr (), s2)" by (simp add: persist_def)
  ultimately have ad: "after_dispatch (loading_ctx c) True before v s2 = (encode_reply v, s2)" for before
    using mx by (intro after_dispatch_ok)
  have p: "prep True s = (fst (snapshot (db s)), s\<lparr>db := purge_expired (db s)\<rparr>)"
    by (simp add: prep_def on_db_def split_beta snapshot_snd)
  have "execute_inner create_default_registry (loading_ctx c) s = (encode_reply v, s2)"
    using assms(1) d ad p
    by (simp add: execute_inner_def prep_def [symmetric])
  then show ?thesis
    using v by (simp add: apply_logged_command_def loading_ctx_def [symmetric] encode_reply_def)
qed

lemma apply_logged_step:
  assumes "c = name # args" and "py_upper name \<in> set WRITE_COMMANDS" and "dict_get default_handlers (py_upper name) = Some h"
    and run: "h (loading_ctx c) (s\<lparr>db := purge_expired (db s)\<rparr>) = (Inr v, s2)"
    and v: "encode_value v = Inr b" and mx: "maxmemory_bytes (db s2) \<le> 0"
  shows "apply_logged_command c s = (Inr (), s2)"
  using assms(1-3) run
  by (intro apply_logged_dispatch [OF _ _ v mx]) (simp_all add: upper_name_def dispatch_def reg_get_default)

lemma clock_step_maxmemory: "clock_step s t \<Longrightarrow> maxmemory_bytes t = maxmemory_bytes s"
  by (simp add: clock_step_def)

lemmas maxmemory_ops [simp] = store_clock_steps [THEN clock_step_maxmemory]

section \<open>The loading server\<close>

definition loading :: "server \<Rightarrow> bool" where
  "loading s \<longleftrightarrow> store_inv (db s) \<and> mono (clock (db s)) \<and> maxmemory_bytes (db s) \<le> 0"

text \<open>One step of loading: the keyspace as seen from the end of the step on is updated at \<open>k\<close>.\<close>

definition loads :: "server \<Rightarrow> server \<Rightarrow> bytes \<Rightarrow> key_entry \<Rightarrow> bool" where
  "loads s s' k e \<longleftrightarrow>
     loading s' \<and> clock_step (db s) (db s') \<and> (\<forall>m\<ge>reading (db s'). live m (db s') = (live m (db s))(k := alive m (Some e)))"

lemma loadsI:
  assumes s: "loading s" and s': "db s' = d" and d: "store_inv d" "clock_step (purge_expired (db s)) d"
    "maxmemory_bytes d = maxmemory_bytes (db s)"
    and view: "\<And>m. reading d \<le> m \<Longrightarrow> live m d = (live m (purge_expired (db s)))(k := alive m (Some e))"
  shows "loads s s' k e"
proof -
  have q: "quiet (db s) (purge_expired (db s))" by (rule quiet_purge)
  have step: "clock_step (db s) d" using clock_step_trans [OF _ d(2)] q by (simp add: quiet_def)
  have "live m d = (live m (db s))(k := alive m (Some e))" if "reading d \<le> m" for m
  proof -
    have "clock (purge_expired (db s)) = clock (db s)" by simp
    then have "reading (purge_expired (db s)) \<le> m"
      using reading_mono [OF _ d(2)] s that by (simp add: loading_def)
    then have "live m (purge_expired (db s)) = live m (db s)" using q s by (simp add: quiet_def loading_def)
    with view [OF that] show ?thesis by simp
  qed
  then show ?thesis using s s' d step by (auto simp: loads_def loading_def clock_step_def)
qed

lemma purged_reading:
  assumes "loading s" and "\<forall>m\<ge>reading (db s). live m (db s) k = x"
  shows "live (reading (purge_expired (db s))) (purge_expired (db s)) k = x"
proof -
  have q: "quiet (db s) (purge_expired (db s))" by (rule quiet_purge)
  then have "reading (db s) \<le> reading (purge_expired (db s))"
    using reading_mono [of "db s"] assms(1) by (simp add: quiet_def loading_def)
  with q assms show ?thesis by (simp add: quiet_def loading_def)
qed

lemma encode_small_int: "size_ok n \<Longrightarrow> \<exists>b. encode_value (PInt (int n)) = Inr b"
  by (auto simp: enc_simps encode_integer_def py_format_int_def size_ok_def dec_int_def)

lemma set_step:
  assumes "loading s"
  shows "\<exists>s'. apply_logged_command [''SET'', k, v] s = (Inr (), s') \<and> loads s s' k (KeyEntry STRING (VStr v) None)"
proof -
  let ?d = "set_string k v None (purge_expired (db s))"
  have run: "cmd_set (loading_ctx [''SET'', k, v]) (s\<lparr>db := purge_expired (db s)\<rparr>) = (Inr (simple ''OK''), s\<lparr>db := ?d\<rparr>)"
    by (simp add: cmd_set_def)
  have "is_ascii ''OK''" by code_simp
  then have enc: "encode_value (simple ''OK'') = Inr (''+OK'' @ crlf)"
    using utf8_encode_lit [of "''OK''"]
    by (simp add: simple_def enc_simps encode_simple_string_def as_bytes_def cr_def lf_def)
  have "apply_logged_command [''SET'', k, v] s = (Inr (), s\<lparr>db := ?d\<rparr>)"
    using assms by (intro apply_logged_step [where h = cmd_set, OF refl _ _ run enc])
      (simp_all add: upper_names default_lookup WRITE_COMMANDS_def loading_def)
  moreover have "loads s (s\<lparr>db := ?d\<rparr>) k (KeyEntry STRING (VStr v) None)"
    using assms
    by (intro loadsI [where d = ?d])
      (simp_all add: loading_def set_string_inv purge_inv store_clock_steps set_string_view set_spec_def)
  ultimately show ?thesis by blast
qed

lemma lpush_step:
  assumes s: "loading s" and k: "\<forall>m\<ge>reading (db s). live m (db s) k = None" and n: "size_ok (length els)" "els \<noteq> []"
  shows "\<exists>s'. apply_logged_command (''LPUSH'' # k # els) s = (Inr (), s')
    \<and> loads s s' k (KeyEntry LIST (VList (rev els)) None)"
proof -
  let ?p = "purge_expired (db s)"
  have inv: "store_inv ?p" using s by (simp add: loading_def purge_inv)
  obtain r d where op: "lpush k els ?p = (r, d)" by fastforce
  have none: "live (reading ?p) ?p k = None" by (rule purged_reading [OF s k])
  have r: "r = Inr (length els)"
    using lpush_op.op_result [OF inv, of k els] none op by (simp add: lpush_spec_def)
  have run: "cmd_lpush (loading_ctx (''LPUSH'' # k # els)) (s\<lparr>db := ?p\<rparr>) = (Inr (PInt (int (length els))), s\<lparr>db := d\<rparr>)"
    using n(2) op r by (cases els) (simp_all add: cmd_lpush_def store_call_def on_db_def)
  obtain b where enc: "encode_value (PInt (int (length els))) = Inr b" using encode_small_int [OF n(1)] by blast
  have mx: "maxmemory_bytes d = maxmemory_bytes (db s)" using maxmemory_ops(3) [of k els ?p] op by simp
  have "apply_logged_command (''LPUSH'' # k # els) s = (Inr (), s\<lparr>db := d\<rparr>)"
    using s mx by (intro apply_logged_step [where h = cmd_lpush, OF refl _ _ run enc])
      (simp_all add: upper_names default_lookup WRITE_COMMANDS_def loading_def)
  moreover have "loads s (s\<lparr>db := d\<rparr>) k (KeyEntry LIST (VList (rev els)) None)"
  proof (rule loadsI [OF s, where d = d])
    show "store_inv d" using lpush_op.op_inv [OF inv, of k els] op by simp
    show step: "clock_step ?p d" using store_clock_steps(3) [of ?p k els] op by simp
    fix m assume "reading d \<le> m"
    then have "reading ?p \<le> m" using reading_mono [OF _ step] s by (simp add: loading_def)
    from lpush_op.op_view [OF inv this, of k els] op none
    show "live m d = (live m ?p)(k := alive m (Some (KeyEntry LIST (VList (rev els)) None)))"
      by (simp add: lpush_spec_def)
  qed (use mx in simp_all)
  ultimately show ?thesis by blast
qed

lemma pair_up_flatten [simp]: "pair_up (flatten_pairs d) = d"
  by (induction d) (auto simp: flatten_pairs_def)

lemma length_flatten_pairs [simp]: "length (flatten_pairs d) = 2 * length d"
  by (induction d) (auto simp: flatten_pairs_def)

lemma hset_step:
  assumes s: "loading s" and k: "\<forall>m\<ge>reading (db s). live m (db s) k = None" and h: "h \<noteq> []" "dict_ok h"
    and n: "length h \<le> 32000000"
  shows "\<exists>s'. apply_logged_command (''HSET'' # k # flatten_pairs h) s = (Inr (), s')
    \<and> loads s s' k (KeyEntry HASH (VHash h) None)"
proof -
  let ?p = "purge_expired (db s)" and ?n = "card (fst ` set h)"
  have inv: "store_inv ?p" using s by (simp add: loading_def purge_inv)
  obtain r d where op: "hset k h ?p = (r, d)" by fastforce
  have none: "live (reading ?p) ?p k = None" by (rule purged_reading [OF s k])
  have r: "r = Inr ?n"
    using hset_op.op_result [OF inv, of k h] none op by (simp add: hset_spec_def)
  have run: "cmd_hset (loading_ctx (''HSET'' # k # flatten_pairs h)) (s\<lparr>db := ?p\<rparr>) = (Inr (PInt (int ?n)), s\<lparr>db := d\<rparr>)"
    using h(1) op r by (cases h) (simp_all add: cmd_hset_def store_call_def on_db_def)
  have "?n \<le> length h" by (metis card_length length_map list.set_map)
  with n obtain b where enc: "encode_value (PInt (int ?n)) = Inr b"
    using encode_small_int [OF size_ok_parser] by fastforce
  have mx: "maxmemory_bytes d = maxmemory_bytes (db s)" using maxmemory_ops(5) [of k h ?p] op by simp
  have "apply_logged_command (''HSET'' # k # flatten_pairs h) s = (Inr (), s\<lparr>db := d\<rparr>)"
    using s mx by (intro apply_logged_step [where h = cmd_hset, OF refl _ _ run enc])
      (simp_all add: upper_names default_lookup WRITE_COMMANDS_def loading_def)
  moreover have "loads s (s\<lparr>db := d\<rparr>) k (KeyEntry HASH (VHash h) None)"
  proof (rule loadsI [OF s, where d = d])
    show "store_inv d" using hset_op.op_inv [OF inv, of k h] op by simp
    show step: "clock_step ?p d" using store_clock_steps(5) [of ?p k h] op by simp
    fix m assume "reading d \<le> m"
    then have "reading ?p \<le> m" using reading_mono [OF _ step] s by (simp add: loading_def)
    from hset_op.op_view [OF inv this, of k h] op none fold_dict_set_self [OF h(2)]
    show "live m d = (live m ?p)(k := alive m (Some (KeyEntry HASH (VHash h) None)))"
      by (simp add: hset_spec_def)
  qed (use mx in simp_all)
  ultimately show ?thesis by blast
qed

lemma expire_step:
  assumes s: "loading s" and k: "\<forall>m\<ge>reading (db s). live m (db s) k = Some e" and secs: "0 < secs"
    and fmt: "py_format_int secs = Inr str"
  shows "\<exists>s' n. apply_logged_command [''EXPIRE'', k, str] s = (Inr (), s') \<and> reading (db s) \<le> n \<and> n \<le> reading (db s')
    \<and> loads s s' k (e\<lparr>expire_at_ms := Some (n + secs * 1000)\<rparr>)"
proof -
  let ?p = "purge_expired (db s)"
  have inv: "store_inv ?p" and mono: "mono (clock ?p)" using s by (simp_all add: loading_def purge_inv)
  obtain r d where op: "expire k secs ?p = (r, d)" by fastforce
  have some: "live (reading ?p) ?p k = Some e" by (rule purged_reading [OF s k])
  let ?t = "snd (touch k ?p)"
  let ?n = "reading ?t"
  have r: "r = 1" using expire_op(1) [OF inv, of k secs] some op by (simp add: expire_spec_def)
  have int: "py_int str = Some secs"
    using fmt py_int_dec_int [of secs] by (auto simp: py_format_int_def dec_int_def split: if_splits)
  have run: "cmd_expire (loading_ctx [''EXPIRE'', k, str]) (s\<lparr>db := ?p\<rparr>) = (Inr (PInt (int 1)), s\<lparr>db := d\<rparr>)"
    using op r int by (simp add: cmd_expire_def on_db_def)
  obtain b where enc: "encode_value (PInt (int 1)) = Inr b" using encode_small_int [of 1] size_ok_parser [of 1] by auto
  have mx: "maxmemory_bytes d = maxmemory_bytes (db s)" using maxmemory_ops(8) [of k secs ?p] op by simp
  have ap: "apply_logged_command [''EXPIRE'', k, str] s = (Inr (), s\<lparr>db := d\<rparr>)"
    using s mx by (intro apply_logged_step [where h = cmd_expire, OF refl _ _ run enc])
      (simp_all add: upper_names default_lookup WRITE_COMMANDS_def loading_def)
  have step: "clock_step ?p d" using store_clock_steps(8) [of ?p k secs] op by simp
  have touch: "clock_step ?p ?t" by (rule clock_step_touch) simp
  have td: "clock_step ?t d"
    using op secs some touch_result [of k ?p]
    by (cases "touch k ?p") (auto simp: expire_def now_ms_def split: option.splits)
  have view: "live m d = (live m ?p)(k := alive m (Some (e\<lparr>expire_at_ms := Some (?n + secs * 1000)\<rparr>)))"
    if "reading d \<le> m" for m
  proof -
    have "reading ?p \<le> m" using reading_mono [OF mono step] that by simp
    from expire_op(2) [OF inv this, of k secs] op some secs show ?thesis by (simp add: expire_spec_def)
  qed
  have "loads s (s\<lparr>db := d\<rparr>) k (e\<lparr>expire_at_ms := Some (?n + secs * 1000)\<rparr>)"
  proof (rule loadsI [OF s, where d = d])
    show "store_inv d" using expire_op(3) [OF inv, of k secs] op by simp
  qed (use mx step view in simp_all)
  moreover have "reading (db s) \<le> ?n"
    using reading_mono [OF mono touch] reading_mono [of "db s" ?p] quiet_purge [of "db s"] s
    by (simp add: quiet_def loading_def)
  moreover have "?n \<le> reading d" using reading_mono [OF _ td] mono touch by (simp add: clock_step_def)
  ultimately show ?thesis using ap by (intro exI [of _ "s\<lparr>db := d\<rparr>"] exI [of _ ?n]) simp
qed

section \<open>Executing the commands of one entry\<close>

text \<open>What a rewritten key comes back as, when \<open>EXPIRE\<close> read a clock value between \<open>lo\<close> and \<open>hi\<close>.\<close>

definition restored :: "int \<Rightarrow> int \<Rightarrow> int \<Rightarrow> key_entry \<Rightarrow> key_entry \<Rightarrow> bool" where
  "restored now lo hi e e' \<longleftrightarrow>
     ktype e' = ktype e \<and> kvalue e' = kvalue e
     \<and> (case expire_at_ms e of
          None \<Rightarrow> expire_at_ms e' = None
        | Some t \<Rightarrow>
            \<exists>n t'. lo \<le> n \<and> n \<le> hi \<and> expire_at_ms e' = Some t' \<and> t - now \<le> t' - n \<and> t' - n < t - now + 1000)"

lemma restored_mono: "restored now lo hi e e' \<Longrightarrow> lo' \<le> lo \<Longrightarrow> hi \<le> hi' \<Longrightarrow> restored now lo' hi' e e'"
  unfolding restored_def by (auto split: option.splits) (meson order_trans)

definition nonempty_value :: "key_entry \<Rightarrow> bool" where
  "nonempty_value e = (case kvalue e of VStr _ \<Rightarrow> True | VList xs \<Rightarrow> xs \<noteq> [] | VHash d \<Rightarrow> d \<noteq> [])"

text \<open>The entry's deadline lies after the time of the rewrite, by less than \<open>2 ^ 53\<close> ms.\<close>

definition expires_after :: "int \<Rightarrow> key_entry \<Rightarrow> bool" where
  "expires_after now e = (case expire_at_ms e of None \<Rightarrow> True | Some t \<Rightarrow> now < t \<and> t - now < 2 ^ 53)"

lemma apply_all_append:
  "apply_all f (a @ b) s = (case apply_all f a s of (Inl e, s1) \<Rightarrow> (Inl e, s1) | (Inr _, s1) \<Rightarrow> apply_all f b s1)"
  by (induction a arbitrary: s) (auto split: prod.splits sum.splits)

lemma loads_reading: "loading s \<Longrightarrow> loads s s' k e \<Longrightarrow> reading (db s) \<le> reading (db s')"
  using reading_mono [of "db s" "db s'"] by (simp add: loading_def loads_def)

lemma loads_trans:
  assumes "loading s" and "loads s s1 k e" and "loads s1 s2 k e'"
  shows "loads s s2 k e'"
proof -
  have "reading (db s1) \<le> reading (db s2)"
    using assms loads_reading [OF _ assms(3)] by (simp add: loads_def)
  with assms show ?thesis by (auto simp: loads_def intro: clock_step_trans)
qed

lemma loadable_short: "loadable mb c \<Longrightarrow> length c \<le> 1024"
  by (simp add: loadable_def command_fits_iff)

lemma value_step:
  assumes s: "loading s" and k: "\<forall>m\<ge>reading (db s). live m (db s) k = None"
    and e: "entry_ok e" "nonempty_value e" and cs: "rewrite_value k e = Inr cs" "\<forall>c\<in>set cs. loadable mb c"
  shows "\<exists>s'. apply_all apply_logged_command cs s = (Inr (), s') \<and> loads s s' k (KeyEntry (ktype e) (kvalue e) None)"
  using e(1)
proof (cases rule: entry_okE)
  case (str b)
  then have "cs = [[''SET'', k, b]]" using cs by (simp add: rewrite_value_def)
  with set_step [OF s, of k b] str show ?thesis by auto
next
  case (list xs)
  then have cs': "cs = [''LPUSH'' # k # rev xs]" and ne: "rev xs \<noteq> []"
    using cs e(2) by (simp_all add: rewrite_value_def nonempty_value_def)
  have "length xs \<le> 32000000" using cs(2) loadable_short [of mb "''LPUSH'' # k # rev xs"] cs' by simp
  with lpush_step [OF s k _ ne] cs' list show ?thesis by (auto simp: size_ok_parser)
next
  case (hash d)
  then have ne: "d \<noteq> []" using e(2) by (simp add: nonempty_value_def)
  then have "flatten_pairs d \<noteq> []" using length_flatten_pairs [of d] by (metis length_0_conv mult_is_0 zero_neq_numeral)
  with hash have cs': "cs = [''HSET'' # k # flatten_pairs d]" using cs ne by (simp add: rewrite_value_def)
  have "length d \<le> 32000000" using cs(2) loadable_short [of mb "''HSET'' # k # flatten_pairs d"] cs' by simp
  with hset_step [OF s k ne hash(3)] cs' hash show ?thesis by auto
qed

lemma ceil_exact:
  assumes "0 < r" and "r < 2 ^ 53"
  shows "ceil_thousandth r = Inr ((r + 999) div 1000)" and "1 \<le> (r + 999) div 1000"
    and "r \<le> (r + 999) div 1000 * 1000" and "(r + 999) div 1000 * 1000 < r + 1000"
  using assms by (simp_all add: ceil_thousandth_def)

lemma entry_step:
  assumes s: "loading s" and k: "\<forall>m\<ge>reading (db s). live m (db s) k = None"
    and e: "entry_ok e" "nonempty_value e" "expires_after now e"
    and cs: "rewrite_entry now (k, e) = Inr cs" "\<forall>c\<in>set cs. loadable mb c"
  shows "\<exists>s' e'. apply_all apply_logged_command cs s = (Inr (), s') \<and> loads s s' k e'
    \<and> restored now (reading (db s)) (reading (db s')) e e'"
proof -
  let ?e0 = "KeyEntry (ktype e) (kvalue e) None"
  from cs(1) obtain vs xs where vs: "rewrite_value k e = Inr vs" and xs: "rewrite_expiry now k e = Inr xs"
    and eq: "cs = vs @ xs" by (auto simp: rewrite_entry_def bind_res_Inr_iff)
  from value_step [OF s k e(1,2) vs] cs(2) eq obtain s1 where
    a1: "apply_all apply_logged_command vs s = (Inr (), s1)" and l1: "loads s s1 k ?e0" by auto
  show ?thesis
  proof (cases "expire_at_ms e")
    case None
    with xs have "xs = []" by (simp add: rewrite_expiry_def)
    with a1 l1 eq None show ?thesis by (auto simp: restored_def)
  next
    case (Some t)
    let ?r = "t - now" and ?c = "(t - now + 999) div 1000"
    have r: "0 < ?r" "?r < 2 ^ 53" using e(3) Some by (simp_all add: expires_after_def)
    note c = ceil_exact [OF r]
    from xs Some r(1) c(1,2) obtain str where fmt: "py_format_int ?c = Inr str" and xs': "xs = [[''EXPIRE'', k, str]]"
      by (auto simp: rewrite_expiry_def Let_def bind_res_Inr_iff max_def split: if_splits)
    have s1: "loading s1" using l1 by (simp add: loads_def)
    have "\<forall>m\<ge>reading (db s1). live m (db s1) k = Some ?e0" using l1 by (simp add: loads_def)
    from expire_step [OF s1 this _ fmt] c(2) obtain s2 n where
      a2: "apply_logged_command [''EXPIRE'', k, str] s1 = (Inr (), s2)"
      and n: "reading (db s1) \<le> n" "n \<le> reading (db s2)"
      and l2: "loads s1 s2 k (?e0\<lparr>expire_at_ms := Some (n + ?c * 1000)\<rparr>)" by auto
    have "apply_all apply_logged_command cs s = (Inr (), s2)"
      using a1 a2 by (simp add: eq xs' apply_all_append)
    moreover have "restored now (reading (db s)) (reading (db s2)) e (?e0\<lparr>expire_at_ms := Some (n + ?c * 1000)\<rparr>)"
      using Some n c(3,4) loads_reading [OF s l1] by (auto simp: restored_def intro!: exI [of _ n])
    ultimately show ?thesis using loads_trans [OF s l1 l2] by blast
  qed
qed

section \<open>Executing the whole rewritten log\<close>

text \<open>
  From \<open>s\<close> to \<open>s'\<close> the key was rebuilt from its entry in the snapshot, or left alone when it has none.
\<close>

definition rebuilt :: "int \<Rightarrow> server \<Rightarrow> server \<Rightarrow> key_entry option \<Rightarrow> bytes \<Rightarrow> bool" where
  "rebuilt now s s' x k =
     (case x of
        None \<Rightarrow> \<forall>m\<ge>reading (db s'). live m (db s') k = live m (db s) k
      | Some e \<Rightarrow> \<exists>e'. restored now (reading (db s)) (reading (db s')) e e'
                  \<and> (\<forall>m\<ge>reading (db s'). live m (db s') k = alive m (Some e')))"

lemma rebuilt_earlier:
  assumes "rebuilt now s1 s2 x k" and "reading (db s) \<le> reading (db s1)"
    and "\<forall>m\<ge>reading (db s2). live m (db s1) k = live m (db s) k"
  shows "rebuilt now s s2 x k"
  using assms by (auto simp: rebuilt_def intro: restored_mono split: option.splits)

lemma rebuilt_Cons:
  assumes s: "loading s" and l1: "loads s s1 k e'" and r1: "restored now (reading (db s)) (reading (db s1)) e e'"
    and rd: "reading (db s1) \<le> reading (db s2)" and k: "k \<notin> set (dict_keys es)"
    and v: "rebuilt now s1 s2 (dict_get es k') k'"
  shows "rebuilt now s s2 (dict_get ((k, e) # es) k') k'"
proof (cases "k' = k")
  case True
  then have "dict_get es k' = None" using k pydict.get_None [of es k] by simp
  with v have "\<forall>m\<ge>reading (db s2). live m (db s2) k = live m (db s1) k" using True by (simp add: rebuilt_def)
  then have "\<forall>m\<ge>reading (db s2). live m (db s2) k = alive m (Some e')" using l1 rd by (simp add: loads_def)
  then show ?thesis using True restored_mono [OF r1 order_refl rd] by (auto simp: dict_get_def rebuilt_def)
next
  case False
  then have "dict_get ((k, e) # es) k' = dict_get es k'" by (simp add: dict_get_def)
  moreover have "\<forall>m\<ge>reading (db s2). live m (db s1) k' = live m (db s) k'"
    using l1 False rd by (simp add: loads_def)
  ultimately show ?thesis using rebuilt_earlier [OF v loads_reading [OF s l1]] by simp
qed

lemma entries_step:
  assumes "loading s" and "map_res (rewrite_entry now) es = Inr css" and "\<forall>c\<in>set (concat css). loadable mb c"
    and "dict_ok es" and "\<forall>(k, e)\<in>set es. entry_ok e \<and> nonempty_value e \<and> expires_after now e"
    and "\<forall>k\<in>set (dict_keys es). \<forall>m\<ge>reading (db s). live m (db s) k = None"
  shows "\<exists>s'. apply_all apply_logged_command (concat css) s = (Inr (), s') \<and> loading s' \<and> clock_step (db s) (db s')
    \<and> (\<forall>k. rebuilt now s s' (dict_get es k) k)"
  using assms
proof (induction es arbitrary: s css)
  case Nil
  then show ?case by (simp add: pydict.get_empty rebuilt_def)
next
  case (Cons ke es)
  obtain k e where ke: "ke = (k, e)" by (cases ke)
  from Cons.prems(2) obtain cs css' where cs: "rewrite_entry now (k, e) = Inr cs"
    and css': "map_res (rewrite_entry now) es = Inr css'" and css: "css = cs # css'"
    by (auto simp: ke bind_res_Inr_iff)
  have k: "k \<notin> set (dict_keys es)" and es: "dict_ok es"
    using Cons.prems(4) by (auto simp: ke dict_ok_def dict_keys_def)
  have "\<forall>m\<ge>reading (db s). live m (db s) k = None" using Cons.prems(6) by (simp add: ke dict_keys_def)
  moreover have "entry_ok e" "nonempty_value e" "expires_after now e" "\<forall>c\<in>set cs. loadable mb c"
    using Cons.prems(3,5) by (simp_all add: ke css)
  ultimately obtain s1 e' where
    a1: "apply_all apply_logged_command cs s = (Inr (), s1)" and l1: "loads s s1 k e'"
    and r1: "restored now (reading (db s)) (reading (db s1)) e e'"
    using entry_step [OF Cons.prems(1) _ _ _ _ cs, of mb] by blast
  have s1: "loading s1" "clock_step (db s) (db s1)" using l1 by (simp_all add: loads_def)
  note rd1 = loads_reading [OF Cons.prems(1) l1]
  have absent: "\<forall>k'\<in>set (dict_keys es). \<forall>m\<ge>reading (db s1). live m (db s1) k' = None"
  proof (intro ballI allI impI)
    fix k' m assume "k' \<in> set (dict_keys es)" "reading (db s1) \<le> m"
    then show "live m (db s1) k' = None"
      using l1 k rd1 Cons.prems(6) by (auto simp: loads_def ke dict_keys_def)
  qed
  have rest: "\<forall>c\<in>set (concat css'). loadable mb c"
    "\<forall>(k, e)\<in>set es. entry_ok e \<and> nonempty_value e \<and> expires_after now e"
    using Cons.prems(3,5) by (simp_all add: css)
  obtain s2 where
    a2: "apply_all apply_logged_command (concat css') s1 = (Inr (), s2)" "loading s2" "clock_step (db s1) (db s2)"
    and v2: "\<forall>k'. rebuilt now s1 s2 (dict_get es k') k'"
    using Cons.IH [OF s1(1) css' rest(1) es rest(2) absent] by blast
  have rd2: "reading (db s1) \<le> reading (db s2)"
    using reading_mono [OF _ a2(3)] s1(1) by (simp add: loading_def)
  have "rebuilt now s s2 (dict_get (ke # es) k') k'" for k'
    using rebuilt_Cons [OF Cons.prems(1) l1 r1 rd2 k] v2 by (simp add: ke)
  moreover have "apply_all apply_logged_command (concat css) s = (Inr (), s2)"
    using a1 a2(1) by (simp add: css apply_all_append)
  ultimately show ?case using a2 clock_step_trans [OF s1(2) a2(3)] by blast
qed

lemma read_payload:
  assumes "\<forall>c\<in>set cs. loadable mb c" and "int (length (concat (map encode_command cs))) \<le> max_file"
    and "length (concat (map encode_command cs)) \<le> 32000000"
  shows "read_commands (Some (concat (map encode_command cs))) mb max_file = Inr cs"
proof -
  let ?data = "concat (map encode_command cs)"
  from read_torn [OF assms(1), of ?data "length ?data" max_file] assms(2,3) obtain k where
    k: "read_commands (Some ?data) mb max_file = Inr (take k cs)"
    "k < length cs \<longrightarrow> length ?data < length (concat (map encode_command (take (Suc k) cs)))" by auto
  have "length (concat (map encode_command (take j cs))) \<le> length ?data" for j
    by (metis append_take_drop_id concat_append le_add1 length_append map_append)
  with k have "length cs \<le> k" by (metis not_le)
  with k(1) show ?thesis by simp
qed

lemma aof_rewrite_file:
  assumes "aof_rewrite out now es l = (Inr n, l')"
  obtains cs where "rewrite_commands now es = Inr cs" "aof_file l' = concat (map encode_command cs)"
  using assms that
  by (auto simp: aof_rewrite_def build_rewrite_payload_def replace_file_sync_def bind_res_Inr_iff
      split: if_splits sum.splits prod.splits replace_outcome.splits)

text \<open>C5: A rewritten log restores the keyspace it was written from: when \<open>AOFLog.rewrite\<close> succeeds on
  a snapshot whose keys have not expired by then, replaying the file it left on an empty server
  executes every command, gives each key of the snapshot its type and value back, without a deadline
  when it had none and otherwise with at least the time it had left and less than a second more, and
  creates no other key. The commands are within the limits of the loading parser.\<close>

theorem rewrite_then_replay:
  assumes "aof_rewrite out now es l = (Inr n, l')" and "rewrite_commands now es = Inr cs"
    and "\<forall>c\<in>set cs. loadable mb c" and "int (length (aof_file l')) \<le> max_file" and "length (aof_file l') \<le> 32000000"
    and "dict_ok es" and "\<forall>(k, e)\<in>set es. entry_ok e \<and> nonempty_value e \<and> expires_after now e"
    and "store_inv (db s)" and "mono (clock (db s))" and "maxmemory_bytes (db s) \<le> 0" and "entries (db s) = []"
  shows "\<exists>s'. replay_aof apply_logged_command (Some (aof_file l')) mb max_file s = (Inr (length cs), s')
    \<and> store_inv (db s')
    \<and> (\<forall>k. dict_get es k = None \<longrightarrow> (\<forall>m\<ge>reading (db s'). live m (db s') k = None))
    \<and> (\<forall>k e. dict_get es k = Some e \<longrightarrow>
         (\<exists>e'. restored now (reading (db s)) (reading (db s')) e e'
             \<and> (\<forall>m\<ge>reading (db s'). live m (db s') k = alive m (Some e'))))"
proof -
  have payload: "aof_file l' = concat (map encode_command cs)"
    using aof_rewrite_file [OF assms(1)] assms(2) by force
  from assms(2) obtain css where css: "map_res (rewrite_entry now) es = Inr css" and cs: "cs = concat css"
    by (auto simp: rewrite_commands_def bind_res_Inr_iff)
  have empty: "live m (db s) k = None" for m k
    using assms(11) by (simp add: live_def pydict.get_empty alive_def)
  have "loading s" using assms(8-10) by (simp add: loading_def)
  from entries_step [OF this css _ assms(6,7)] assms(3) empty cs obtain s' where
    ap: "apply_all apply_logged_command cs s = (Inr (), s')" and l: "loading s'"
    and r: "\<forall>k. rebuilt now s s' (dict_get es k) k" by blast
  have rd: "read_commands (Some (aof_file l')) mb max_file = Inr cs"
    using read_payload [OF assms(3)] assms(4,5) payload by simp
  have "replay_aof apply_logged_command (Some (aof_file l')) mb max_file s = (Inr (length cs), s')"
    using ap rd by (simp add: replay_aof_def)
  moreover have "\<forall>m\<ge>reading (db s'). live m (db s') k = None" if "dict_get es k = None" for k
    using r [rule_format, of k] that empty by (simp add: rebuilt_def)
  moreover have "\<exists>e'. restored now (reading (db s)) (reading (db s')) e e'
      \<and> (\<forall>m\<ge>reading (db s'). live m (db s') k = alive m (Some e'))" if "dict_get es k = Some e" for k e
    using r [rule_format, of k] that by (simp add: rebuilt_def)
  ultimately show ?thesis using l by (auto simp: loading_def)
qed

text \<open>A list, and a string with a deadline, rewritten at the time 1000.\<close>

definition sample_snapshot :: "(bytes, key_entry) dict" where
  "sample_snapshot = [(''a'', KeyEntry LIST (VList [''x'', ''y'']) None), (''b'', KeyEntry STRING (VStr ''v'') (Some 2500))]"

lemma sample_rewrite:
  "rewrite_commands 1000 sample_snapshot = Inr [[''LPUSH'', ''a'', ''y'', ''x''], [''SET'', ''b'', ''v''], [''EXPIRE'', ''b'', ''2'']]"
  by code_simp

theorem rewrite_then_replay_witness:
  "\<exists>s' e'. live (reading (db s')) (db s') ''a'' = Some (KeyEntry LIST (VList [''x'', ''y'']) None)
     \<and> restored 1000 1000 (reading (db s')) (KeyEntry STRING (VStr ''v'') (Some 2500)) e'
     \<and> live (reading (db s')) (db s') ''c'' = None
     \<and> replay_aof apply_logged_command
         (Some (aof_file (snd (aof_rewrite (Replaced 7) 1000 sample_snapshot (running_log Everysec))))) 1024 1000
         (sample_server default_config) = (Inr 3, s')"
proof -
  let ?s = "sample_server default_config" and ?l = "snd (aof_rewrite (Replaced 7) 1000 sample_snapshot (running_log Everysec))"
  let ?cs = "[[''LPUSH'', ''a'', ''y'', ''x''], [''SET'', ''b'', ''v''], [''EXPIRE'', ''b'', ''2'']]"
  have en: "aof_enabled (running_log Everysec)" by (simp add: running_log_def start_background_fsync_def aof_open_def AOFLog_def)
  have rw: "aof_rewrite (Replaced 7) 1000 sample_snapshot (running_log Everysec)
      = (Inr (length (concat (map encode_command ?cs))), ?l)" and f: "aof_file ?l = concat (map encode_command ?cs)"
    using sample_rewrite en by (simp_all add: aof_rewrite_def build_rewrite_payload_def replace_file_sync_def)
  have len: "length (concat (map encode_command ?cs)) \<le> 1000" by code_simp
  have ld: "\<forall>c\<in>set ?cs. loadable 1024 c" by (auto intro!: loadable_small)
  have "dict_ok sample_snapshot" by code_simp
  moreover have "\<forall>(k, e)\<in>set sample_snapshot. entry_ok e \<and> nonempty_value e \<and> expires_after 1000 e"
    by (simp add: sample_snapshot_def nonempty_value_def expires_after_def)
  moreover have "store_inv (db ?s)" by (rule server_reachable_inv [OF sample_server_reachable])
  ultimately obtain s' where
    s': "replay_aof apply_logged_command (Some (aof_file ?l)) 1024 1000 ?s = (Inr (length ?cs), s')"
    and no: "\<forall>k. dict_get sample_snapshot k = None \<longrightarrow> (\<forall>m\<ge>reading (db s'). live m (db s') k = None)"
    and yes: "\<forall>k e. dict_get sample_snapshot k = Some e \<longrightarrow>
         (\<exists>e'. restored 1000 (reading (db ?s)) (reading (db s')) e e'
             \<and> (\<forall>m\<ge>reading (db s'). live m (db s') k = alive m (Some e')))"
    using rewrite_then_replay [OF rw sample_rewrite ld, of 1000 ?s] len f
    by (auto simp: mono_def new_store_def default_config_def)
  have get: "dict_get sample_snapshot ''a'' = Some (KeyEntry LIST (VList [''x'', ''y'']) None)"
    "dict_get sample_snapshot ''b'' = Some (KeyEntry STRING (VStr ''v'') (Some 2500))" "dict_get sample_snapshot ''c'' = None"
    by code_simp+
  from yes [rule_format, OF get(1)] obtain a where
    "restored 1000 (reading (db ?s)) (reading (db s')) (KeyEntry LIST (VList [''x'', ''y'']) None) a"
    "live (reading (db s')) (db s') ''a'' = alive (reading (db s')) (Some a)" by blast
  then have "live (reading (db s')) (db s') ''a'' = Some (KeyEntry LIST (VList [''x'', ''y'']) None)"
    by (cases a) (simp add: restored_def alive_def is_expired_def)
  moreover have "reading (db ?s) = 1000" by (simp add: reading_def new_store_def)
  ultimately show ?thesis using s' no get(3) yes [rule_format, OF get(2)] by auto
qed

text \<open>C39: A key that expires between the snapshot and the moment \<open>_build_rewrite_payload\<close> reads the
  clock is written to the new log without an expiry, so that a replay brings it back for good: from
  the end of the replay on it is alive at every later time, although it had expired before the
  rewrite.\<close>

theorem rewrite_revives_expired_key:
  assumes "aof_rewrite out now [(k, e)] l = (Inr n, l')" and "rewrite_commands now [(k, e)] = Inr cs"
    and "expire_at_ms e = Some t" and "t \<le> now" and "entry_ok e" and "nonempty_value e"
    and "\<forall>c\<in>set cs. loadable mb c" and "int (length (aof_file l')) \<le> max_file" and "length (aof_file l') \<le> 32000000"
    and "store_inv (db s)" and "mono (clock (db s))" and "maxmemory_bytes (db s) \<le> 0" and "entries (db s) = []"
  shows "\<exists>s'. replay_aof apply_logged_command (Some (aof_file l')) mb max_file s = (Inr (length cs), s')
    \<and> (\<forall>m\<ge>reading (db s'). live m (db s') k = Some (e\<lparr>expire_at_ms := None\<rparr>))"
proof -
  have payload: "aof_file l' = concat (map encode_command cs)"
    using aof_rewrite_file [OF assms(1)] assms(2) by force
  have "rewrite_value k e = Inr cs"
    using assms(2-4) by (auto simp: rewrite_commands_def rewrite_entry_def rewrite_expiry_def Let_def bind_res_Inr_iff)
  moreover have "\<forall>m\<ge>reading (db s). live m (db s) k = None"
    using assms(13) by (simp add: live_def pydict.get_empty alive_def)
  moreover have "loading s" using assms(10-12) by (simp add: loading_def)
  ultimately obtain s' where ap: "apply_all apply_logged_command cs s = (Inr (), s')"
    and l: "loads s s' k (KeyEntry (ktype e) (kvalue e) None)"
    using value_step [OF _ _ assms(5,6) _ assms(7)] by blast
  have "read_commands (Some (aof_file l')) mb max_file = Inr cs"
    using read_payload [OF assms(7)] assms(8,9) payload by simp
  then have "replay_aof apply_logged_command (Some (aof_file l')) mb max_file s = (Inr (length cs), s')"
    using ap by (simp add: replay_aof_def)
  moreover have "live m (db s') k = Some (e\<lparr>expire_at_ms := None\<rparr>)" if "reading (db s') \<le> m" for m
    using l that by (cases e) (simp add: loads_def alive_def is_expired_def)
  ultimately show ?thesis by blast
qed

theorem rewrite_revives_expired_key_witness:
  "\<exists>s'. replay_aof apply_logged_command
      (Some (aof_file (snd (aof_rewrite (Replaced 7) 2500 [(''b'', KeyEntry STRING (VStr ''v'') (Some 2500))]
         (running_log Everysec))))) 1024 1000 (sample_server default_config) = (Inr 1, s')
     \<and> live (reading (db s') + 3600000) (db s') ''b'' = Some (KeyEntry STRING (VStr ''v'') None)"
proof -
  let ?s = "sample_server default_config" and ?e = "KeyEntry STRING (VStr ''v'') (Some 2500)"
  let ?l = "snd (aof_rewrite (Replaced 7) 2500 [(''b'', ?e)] (running_log Everysec))"
  let ?cs = "[[''SET'', ''b'', ''v'']]"
  have cs: "rewrite_commands 2500 [(''b'', ?e)] = Inr ?cs" by code_simp
  have en: "aof_enabled (running_log Everysec)" by (simp add: running_log_def start_background_fsync_def aof_open_def AOFLog_def)
  have rw: "aof_rewrite (Replaced 7) 2500 [(''b'', ?e)] (running_log Everysec)
      = (Inr (length (concat (map encode_command ?cs))), ?l)" and f: "aof_file ?l = concat (map encode_command ?cs)"
    using cs en by (simp_all add: aof_rewrite_def build_rewrite_payload_def replace_file_sync_def)
  have len: "length (concat (map encode_command ?cs)) \<le> 1000" by code_simp
  have ld: "\<forall>c\<in>set ?cs. loadable 1024 c" by (auto intro!: loadable_small)
  have "store_inv (db ?s)" by (rule server_reachable_inv [OF sample_server_reachable])
  then obtain s' where "replay_aof apply_logged_command (Some (aof_file ?l)) 1024 1000 ?s = (Inr (length ?cs), s')"
    and "\<forall>m\<ge>reading (db s'). live m (db s') ''b'' = Some (?e\<lparr>expire_at_ms := None\<rparr>)"
    using rewrite_revives_expired_key [OF rw cs _ _ _ _ ld, of 2500 1000 ?s] len f
    by (auto simp: mono_def new_store_def default_config_def nonempty_value_def)
  then show ?thesis by auto
qed

end
