(* ===== verification/Recovery.thy ===== *)
theory Recovery
  imports Aof_Rewrite
begin

text \<open>
  A restart after a crash, as one composition: clients send requests to a running master, whose
  answered writes go to the log; the process dies and the file is cut at any byte; a fresh process
  loads what is left. The keyspace of commands that set no deadline is abstracted to a map, on which
  every such write command has a specification; the handlers implement it both for a client and
  when the log is loaded, so that loading a prefix of the log restores the map of that prefix.
\<close>

section \<open>The keyspace as a map\<close>

type_synonym kv = "bytes \<Rightarrow> key_entry option"

definition timeless :: "key_entry option \<Rightarrow> bool" where
  "timeless x \<longleftrightarrow> (\<forall>e. x = Some e \<longrightarrow> expire_at_ms e = None)"

lemma alive_timeless [simp]: "timeless x \<Longrightarrow> alive m x = x"
  by (cases x) (simp_all add: timeless_def)

lemma timeless_simps [simp]: "timeless None" "timeless (Some e) \<longleftrightarrow> expire_at_ms e = None"
  by (simp_all add: timeless_def)

text \<open>From now on every client sees exactly \<open>M\<close>, and no key of it has a deadline.\<close>

definition holds :: "store \<Rightarrow> kv \<Rightarrow> bool" where
  "holds d M \<longleftrightarrow>
     store_inv d \<and> mono (clock d) \<and> maxmemory_bytes d \<le> 0 \<and> (\<forall>k. timeless (M k)) \<and> (\<forall>m\<ge>reading d. live m d = M)"

lemma holds_now: "holds d M \<Longrightarrow> live (reading d) d = M"
  by (simp add: holds_def)

lemma holds_step:
  assumes "holds d M" and "clock_step d d'" and "store_inv d'" and "\<And>k. timeless (M' k)"
    and "\<And>m. reading d \<le> m \<Longrightarrow> live m d' = M'"
  shows "holds d' M'"
proof -
  have "reading d \<le> reading d'" using assms(1,2) by (simp add: holds_def reading_mono)
  then show ?thesis using assms by (auto simp: holds_def clock_step_def)
qed

lemma holds_quiet:
  assumes "holds d M" and "quiet d d'"
  shows "holds d' M"
proof -
  have "clock_step d d'" using assms(2) by (simp add: quiet_def)
  then have "reading d \<le> reading d'" using assms(1) by (simp add: holds_def reading_mono)
  then show ?thesis using assms by (auto simp: holds_def quiet_def clock_step_def)
qed

text \<open>A key operation that sets no deadline acts on the map as its specification says.\<close>

locale map_op = key_op oper spec for oper :: "bytes \<Rightarrow> store \<Rightarrow> 'r \<times> store" and spec +
  assumes spec_timeless: "timeless x \<Longrightarrow> timeless (snd (spec x))"
    and op_clock: "clock_step s (snd (oper k s))"
begin

lemma on_map:
  assumes "holds d M"
  shows "fst (oper k d) = fst (spec (M k))" and "holds (snd (oper k d)) (M(k := snd (spec (M k))))"
proof -
  have d: "store_inv d" "\<And>k. timeless (M k)" and M: "live (reading d) d = M"
    using assms holds_now by (auto simp: holds_def)
  show "fst (oper k d) = fst (spec (M k))" by (simp add: op_result [OF d(1)] M)
  show "holds (snd (oper k d)) (M(k := snd (spec (M k))))"
  proof (rule holds_step [OF assms op_clock op_inv [OF d(1)]])
    show "timeless ((M(k := snd (spec (M k)))) k')" for k' by (simp add: d(2) spec_timeless)
    fix m assume m: "reading d \<le> m"
    have "live m d = M" using assms m by (simp add: holds_def)
    then show "live m (snd (oper k d)) = M(k := snd (spec (M k)))"
      by (simp add: op_view [OF d(1) m] M d(2) spec_timeless)
  qed
qed

end

interpretation lpush_map: map_op "\<lambda>k. lpush k els" "lpush_spec els" for els
  by unfold_locales (auto simp: store_clock_steps lpush_spec_def split: option.splits redis_value.splits)

interpretation rpop_map: map_op rpop rpop_spec
  by unfold_locales (auto simp: store_clock_steps rpop_spec_def split: option.splits redis_value.splits)

interpretation hset_map: map_op "\<lambda>k. hset k items" "hset_spec items" for items
  by unfold_locales (auto simp: store_clock_steps hset_spec_def split: option.splits redis_value.splits)

lemma set_on_map: "holds d M \<Longrightarrow> holds (set_string k v None d) (M(k \<mapsto> KeyEntry STRING (VStr v) None))"
  by (rule holds_step) (auto simp: store_clock_steps set_string_inv set_string_view set_spec_def holds_def)

lemma drop_key_on_map: "holds d M \<Longrightarrow> holds (drop_key k d) (M(k := None))"
  by (rule holds_step) (auto simp: inv_drop_key holds_def)

lemma delete_on_map:
  assumes "holds d M"
  shows "fst (delete ks d) = card (set ks \<inter> dom M)" and "holds (snd (delete ks d)) (\<lambda>k. if k \<in> set ks then None else M k)"
proof -
  have "fst (delete_loop ks r d) = r + card (set ks \<inter> dom M)" for r
    using assms
  proof (induction ks r d arbitrary: M rule: delete_loop.induct)
    case (2 k ks r d)
    have M: "M k = live (reading d) d k" using holds_now [OF "2.prems"] by simp
    have cards: "card (insert k (set ks) \<inter> dom M) = (if M k = None then 0 else 1) + card (set ks \<inter> dom (M(k := None)))"
    proof (cases "M k")
      case (Some y)
      then have "insert k (set ks) \<inter> dom M = insert k (set ks \<inter> dom (M(k := None)))" by auto
      with Some show ?thesis by simp
    qed (auto intro!: arg_cong [of _ _ card])
    show ?case
    proof (cases "dict_get (entries d) k")
      case None
      then have "M k = None" using M by (simp add: live_def)
      then have "M(k := None) = M" by auto
      with "2.IH"(1) [OF None "2.prems"] None cards \<open>M k = None\<close> show ?thesis by simp
    next
      case (Some e)
      obtain x d1 where x: "is_expired_now (expire_at_ms e) d = (x, d1)" by fastforce
      have h: "holds (drop_key k d1) (M(k := None))"
        using drop_key_on_map [OF holds_quiet [OF "2.prems"], of d1 k] x quiet_tick [of d]
        by (auto simp: is_expired_now_eq split: if_splits)
      have "x \<longleftrightarrow> M k = None" using x M Some by (auto simp: is_expired_now_eq live_def alive_def)
      with "2.IH"(2,3) [OF Some x [symmetric] refl] h x Some cards show ?thesis by (cases x) auto
    qed
  qed simp
  from this [of 0] show "fst (delete ks d) = card (set ks \<inter> dom M)" by (simp add: delete_def)
  show "holds (snd (delete ks d)) (\<lambda>k. if k \<in> set ks then None else M k)"
    using assms by (intro holds_step [OF assms]) (auto simp: store_clock_steps delete_inv delete_view holds_def)
qed

section \<open>Write commands on the map\<close>

text \<open>The write commands that set no deadline, and what they promise.\<close>

definition kv_command :: "bytes list \<Rightarrow> bool" where
  "kv_command c \<longleftrightarrow>
     upper_name c \<in> {''SET'', ''LPUSH'', ''RPOP'', ''HSET'', ''DEL''} \<and> (upper_name c = ''SET'' \<longrightarrow> length c \<le> 3)"

definition kv_call :: "('r res \<times> key_entry option) \<Rightarrow> ('r \<Rightarrow> pyobj) \<Rightarrow> bytes \<Rightarrow> kv \<Rightarrow> pyobj res \<times> kv" where
  "kv_call out wrap k M =
     (case fst out of Inl WrongTypeError \<Rightarrow> Inl wrongtype | Inl e \<Rightarrow> Inl e | Inr r \<Rightarrow> Inr (wrap r), M(k := snd out))"

definition kv_write :: "bytes list \<Rightarrow> kv \<Rightarrow> pyobj res \<times> kv" where
  "kv_write c M =
     (let name = upper_name c; argc = length c; k = c ! 1
      in if name = ''SET'' then
           if argc < 3 then (Inl (wrong_arity ''set''), M)
           else (Inr (simple ''OK''), M(k \<mapsto> KeyEntry STRING (VStr (c ! 2)) None))
         else if name = ''LPUSH'' then
           if argc < 3 then (Inl (wrong_arity ''lpush''), M)
           else kv_call (lpush_spec (drop 2 c) (M k)) (\<lambda>n. PInt (int n)) k M
         else if name = ''RPOP'' then
           if argc \<noteq> 2 then (Inl (wrong_arity ''rpop''), M) else kv_call (rpop_spec (M k)) bulk_or_nil k M
         else if name = ''HSET'' then
           if argc < 4 \<or> argc mod 2 \<noteq> 0 then (Inl (wrong_arity ''hset''), M)
           else kv_call (hset_spec (pair_up (drop 2 c)) (M k)) (\<lambda>n. PInt (int n)) k M
         else if argc < 2 then (Inl (wrong_arity ''del''), M)
         else (Inr (PInt (int (card (set (drop 1 c) \<inter> dom M)))), \<lambda>k. if k \<in> set (drop 1 c) then None else M k))"

lemma kv_call_error: "fst (kv_call out wrap k M) = Inl e \<Longrightarrow> \<exists>e'. fst out = Inl e'"
  by (auto simp: kv_call_def split: sum.splits)

lemma kv_write_error: "kv_write c M = (Inl e, M') \<Longrightarrow> M' = M"
proof -
  have upd: "M' = M" if c: "kv_call out wrap k M = (Inl e, M')" and same: "\<And>e. fst out = Inl e \<Longrightarrow> snd out = M k"
    for out :: "'r res \<times> key_entry option" and wrap k
  proof -
    obtain e' where "fst out = Inl e'" using kv_call_error [of out wrap k M e] c by auto
    then show ?thesis using c same by (simp add: kv_call_def fun_upd_idem)
  qed
  show "kv_write c M = (Inl e, M') \<Longrightarrow> M' = M"
    by (auto simp: kv_write_def Let_def spec_errors intro: upd split: if_splits)
qed

lemma kv_call_replies: "fst (kv_call out wrap k M) = Inr v \<Longrightarrow> v \<in> range wrap"
  by (auto simp: kv_call_def split: sum.splits py_exn.splits)

lemma kv_write_replies: "fst (kv_write c M) \<noteq> Inr PNoReply"
proof
  have "PNoReply \<notin> range (\<lambda>n. PInt (int n))" "PNoReply \<notin> range bulk_or_nil"
    by (auto simp: bulk_or_nil_def split: option.splits)
  moreover assume "fst (kv_write c M) = Inr PNoReply"
  ultimately show False by (auto simp: kv_write_def Let_def simple_def dest!: kv_call_replies split: if_splits)
qed

lemma kv_command_write: "kv_command c \<Longrightarrow> upper_name c \<in> set WRITE_COMMANDS"
  by (auto simp: kv_command_def WRITE_COMMANDS_def)

lemma store_call_on_map:
  assumes "fst (f (db s)) = fst out" and "holds (snd (f (db s))) (M(k := snd out))"
  shows "\<exists>d. store_call f wrap s = (fst (kv_call out wrap k M), s\<lparr>db := d\<rparr>) \<and> holds d (snd (kv_call out wrap k M))"
  using assms by (cases "f (db s)") (auto simp: store_call_def on_db_def kv_call_def split: sum.splits py_exn.splits)

text \<open>The handlers implement the specification, whoever calls them.\<close>

lemma handlers_on_map:
  assumes "holds (db s) M" and "kv_command (argv ctx)" and "dict_get default_handlers (upper_name (argv ctx)) = Some h"
  shows "\<exists>d. h ctx s = (fst (kv_write (argv ctx) M), s\<lparr>db := d\<rparr>) \<and> holds d (snd (kv_write (argv ctx) M))"
proof -
  let ?c = "argv ctx"
  have same: "\<exists>d. (Inl e, s) = (Inl e, s\<lparr>db := d\<rparr>) \<and> holds d M" for e :: py_exn
    using assms(1) by (intro exI [of _ "db s"]) simp
  note maps = lpush_map.on_map [OF assms(1)] rpop_map.on_map [OF assms(1)] hset_map.on_map [OF assms(1)]
  consider "upper_name ?c = ''SET''" | "upper_name ?c = ''LPUSH''" | "upper_name ?c = ''RPOP''"
    | "upper_name ?c = ''HSET''" | "upper_name ?c = ''DEL''"
    using assms(2) by (auto simp: kv_command_def)
  then show ?thesis
  proof cases
    case 1
    then have "h = cmd_set" "length ?c < 3 \<or> length ?c = 3" using assms by (auto simp: default_lookup kv_command_def)
    then show ?thesis
      using 1 same set_on_map [OF assms(1)] by (auto simp: cmd_set_def kv_write_def)
  next
    case 2
    then have h: "h = cmd_lpush" using assms by (simp add: default_lookup)
    show ?thesis
      using 2 same maps(1,2) store_call_on_map [of "lpush (?c ! 1) (drop 2 ?c)" s "lpush_spec (drop 2 ?c) (M (?c ! 1))" M "?c ! 1"] by (simp add: h cmd_lpush_def kv_write_def Let_def)
  next
    case 3
    then have h: "h = cmd_rpop" using assms by (simp add: default_lookup)
    show ?thesis
      using 3 same maps(3,4) store_call_on_map [of "rpop (?c ! 1)" s "rpop_spec (M (?c ! 1))" M "?c ! 1"] by (simp add: h cmd_rpop_def kv_write_def Let_def)
  next
    case 4
    then have h: "h = cmd_hset" using assms by (simp add: default_lookup)
    have "length (drop 2 ?c) mod 2 = 0" if "length ?c mod 2 = 0" using that by simp presburger
    then show ?thesis
      using 4 same maps(5,6) store_call_on_map [of "hset (?c ! 1) (pair_up (drop 2 ?c))" s "hset_spec (pair_up (drop 2 ?c)) (M (?c ! 1))" M "?c ! 1"] by (auto simp: h cmd_hset_def kv_write_def Let_def)
  next
    case 5
    then have h: "h = cmd_del" using assms by (simp add: default_lookup)
    obtain n d where "delete (drop 1 ?c) (db s) = (n, d)" by fastforce
    with 5 same delete_on_map [OF assms(1), of "drop 1 ?c"] show ?thesis
      by (auto simp: h cmd_del_def kv_write_def on_db_def)
  qed
qed

lemma dispatch_on_map:
  assumes "holds (db s) M" and "kv_command (argv ctx)" and "is_replica (config s) \<Longrightarrow> trusted ctx"
  shows "\<exists>d. dispatch create_default_registry ctx s = (fst (kv_write (argv ctx) M), s\<lparr>db := d\<rparr>)
    \<and> holds d (snd (kv_write (argv ctx) M))"
proof -
  obtain name args where c: "argv ctx = name # args" "upper_name (argv ctx) = py_upper name"
    using assms(2) by (auto simp: kv_command_def upper_name_def split: list.splits)
  obtain h where h: "dict_get default_handlers (py_upper name) = Some h"
    using assms(2) c(2) by (auto simp: kv_command_def default_lookup)
  with handlers_on_map [OF assms(1,2), of h] c assms(3) show ?thesis
    by (auto simp: dispatch_def reg_get_default)
qed

section \<open>Serving one request\<close>

text \<open>A running master whose log works.\<close>

definition serving :: "server \<Rightarrow> kv \<Rightarrow> bool" where
  "serving s M \<longleftrightarrow>
     holds (db s) M \<and> \<not> is_replica (config s) \<and> log_ready (aof s) \<and> full_writes (aof s)"

lemma read_serving:
  assumes "serving s M" and "upper_name c \<notin> set WRITE_COMMANDS" and "execute conn c s = (r, s')"
  shows "serving s' M" and "aof s' = aof s"
proof -
  let ?ctx = "client_context conn c"
  have nw: "\<not> is_write ?ctx" using assms(2) by (simp add: client_context_def)
  then have p: "prep (is_write ?ctx) s = ([], s)" by (simp add: prep_def)
  have q: "quiet (db s) (db (snd (dispatch create_default_registry ?ctx s)))"
    using dispatch_read_quiet [OF nw, of s] .
  have keep: "config (snd (dispatch create_default_registry ?ctx s)) = config s"
    "aof (snd (dispatch create_default_registry ?ctx s)) = aof s"
    by (simp_all add: dispatch.keeps_config dispatch.keeps_aof)
  have ex: "execute_inner create_default_registry ?ctx s = (r, s')" using assms(3) by (simp add: execute_def)
  have "quiet (db s) (db s') \<and> config s' = config s \<and> aof s' = aof s"
  proof (cases rule: execute_inner_cases [of s ?ctx create_default_registry])
    case (raised e s2 msg)
    then show ?thesis using ex p q keep by auto
  next
    case (ran v s2)
    have "after_dispatch ?ctx False [] v s2 = (r, s')" using ran ex p nw by simp
    then have "s' = s2" by (auto simp: after_dispatch_def persist_def split: if_splits)
    with ran q keep p show ?thesis by auto
  qed (use ex in auto)
  with assms(1) holds_quiet show "serving s' M" "aof s' = aof s" by (auto simp: serving_def)
qed

text \<open>The log changes only where \<open>_execute_inner\<close> persists a command.\<close>

lemma execute_aof:
  assumes "execute_inner create_default_registry ctx s = (r, s')"
  shows "aof s' = aof s \<or> (\<exists>w ev t. aof t = aof s \<and> aof s' = aof (snd (persist ctx w ev t)))"
proof (cases rule: execute_inner_cases [of s ctx create_default_registry])
  case (raised e s2 msg)
  then show ?thesis using assms dispatch.keeps_aof [of ctx "snd (prep (is_write ctx) s)"] by auto
next
  case (ran v s2)
  have s2: "aof s2 = aof s" using ran(1) dispatch.keeps_aof [of ctx "snd (prep (is_write ctx) s)"] by simp
  then have lim: "aof (snd (limit (is_write ctx) s2)) = aof s" by simp
  have ad: "after_dispatch ctx (is_write ctx) (fst (prep (is_write ctx) s)) v s2 = (r, s')" using ran(2) assms by simp
  have at: ?thesis if "persist ctx w ev t = (x, t')" "aof t = aof s" "aof s' = aof t'" for w ev t x t'
    using that by (metis snd_conv)
  show ?thesis
  proof (cases rule: after_dispatch_cases [of "is_write ctx" s2 ctx "fst (prep (is_write ctx) s)" v])
    case (misconf ev t m t')
    with ad lim show ?thesis by (intro at [OF misconf(3)]) auto
  next
    case (broken ev t e t')
    with ad lim show ?thesis by (intro at [OF broken(3)]) auto
  next
    case (ok ev t t')
    with ad lim show ?thesis by (intro at [OF ok(3)]) auto
  qed (use ad lim in auto)
qed (use assms in auto)

lemma log_all_ready: "log_ready (aof s) \<Longrightarrow> log_ready (aof (snd (log_all cs s)))"
proof (induction cs arbitrary: s)
  case (Cons c cs)
  obtain r l where a: "aof_append c (aof s) = (r, l)" by fastforce
  then have "log_ready l" using aof_append_frame [OF Cons.prems] by blast
  with a Cons.IH show ?case by (auto simp: log_and_propagate_def log_command_def split: sum.splits)
qed simp

lemma execute_log_ready:
  assumes "log_ready (aof s)" and "execute conn c s = (r, s')"
  shows "log_ready (aof s')"
proof -
  have "log_ready (aof (snd (persist (client_context conn c) w ev t)))" if "aof t = aof s" for w ev t
    using that assms(1) log_all_ready [of t] by (simp add: persist_def client_context_def del: log_all.simps)
  with execute_aof [OF assms(2) [unfolded execute_def]] assms(1) show ?thesis by auto
qed

text \<open>A failed log refuses every command and stays as it is.\<close>

lemma failed_log_stays:
  assumes "log_ready (aof s)" and "failure (aof s) \<noteq> None" and "execute conn c s = (r, s')"
  shows "aof s' = aof s"
proof -
  obtain e where "aof_append c (aof s) = (Inl e, aof s)" using aof_append_failed [OF assms(1,2)] by blast
  then have "aof (snd (persist (client_context conn c) w ev t)) = aof s" if "aof t = aof s" for w ev t
    using that by (simp add: persist_def log_and_propagate_def log_command_def client_context_def)
  with execute_aof [OF assms(3) [unfolded execute_def]] show ?thesis by auto
qed

lemma log_failed:
  assumes "log_ready (aof s)" and "full_writes (aof s)" and "log_and_propagate c s = (Inl e, s')"
  shows "failure (aof s') \<noteq> None"
  using assms aof_append_error(1) [OF assms(1)]
  by (cases "aof_append c (aof s)") (auto simp: log_and_propagate_def log_command_def split: sum.splits)

text \<open>One answered write: it took effect and is in the log, or it did neither.\<close>

lemma write_serving:
  assumes s: "serving s M" and c: "kv_command c" and ex: "execute conn c s = (Inr r, s')" and ok: "failure (aof s') = None"
  obtains (refused) "serving s' M" "aof_file (aof s') = aof_file (aof s)"
  | (logged) v b M' where "kv_write c M = (Inr v, M')" "encode_value v = Inr b" "serving s' M'"
      "aof_file (aof s') = aof_file (aof s) @ encode_command c"
proof -
  let ?ctx = "client_context conn c"
  let ?s1 = "snd (prep True s)"
  have w: "is_write ?ctx" and a: "argv ?ctx = c" using kv_command_write [OF c] by (simp_all add: client_context_def)
  have s1: "holds (db ?s1) M" "config ?s1 = config s" "aof ?s1 = aof s"
    using s holds_quiet [OF _ prep_frame(5) [of s True]] by (simp_all add: serving_def)
  obtain d where d: "dispatch create_default_registry ?ctx ?s1 = (fst (kv_write c M), ?s1\<lparr>db := d\<rparr>)"
    "holds d (snd (kv_write c M))"
    using dispatch_on_map [OF s1(1), of ?ctx] c s s1(2) by (auto simp: a serving_def)
  have same: "serving (count_failed s) M" using s by (simp add: serving_def)
  have ex': "execute_inner create_default_registry ?ctx s = (Inr r, s')" using ex by (simp add: execute_def)
  show thesis
  proof (cases rule: execute_inner_cases [of s ?ctx create_default_registry])
    case (raised e s2 msg)
    then have e: "fst (kv_write c M) = Inl e" and s2: "s2 = ?s1\<lparr>db := d\<rparr>" using d(1) w by auto
    from kv_write_error [of c M e] e have "snd (kv_write c M) = M" by (metis prod.collapse)
    moreover have "s' = count_failed s2" using raised(2) ex' by simp
    ultimately show ?thesis using d(2) s s1 s2 by (intro refused) (simp_all add: serving_def)
  next
    case (ran v s2)
    then have v: "fst (kv_write c M) = Inr v" and s2: "s2 = ?s1\<lparr>db := d\<rparr>" using d(1) w by auto
    have mx: "maxmemory_bytes (db s2) \<le> 0" using d(2) s2 by (simp add: holds_def)
    have ad: "after_dispatch ?ctx True (fst (prep True s)) v s2 = (Inr r, s')" using ran(2) ex' w by simp
    have persisted: "persist ?ctx True [] t = (case log_and_propagate c t of (Inl e, t1) \<Rightarrow> (Inl e, t1) | (Inr u, t1) \<Rightarrow> (Inr (), t1))"
      if "\<not> is_replica (config t)" for t
      using that by (auto simp: persist_def client_context_def split: prod.splits sum.splits)
    have pl: "plain v" using dispatch_plain [OF ran(1)] .
    show ?thesis
    proof (cases rule: after_dispatch_cases [of True s2 ?ctx "fst (prep True s)" v])
      case (silent ev t1)
      with v show ?thesis using kv_write_replies [of c M] by auto
    next
      case (misconf ev t1 m t2)
      then have "log_and_propagate c s2 = (Inl (OSError m), t2)"
        using limit_off [OF mx] persisted [of s2] s s1 s2 by (auto simp: serving_def split: prod.splits sum.splits)
      then have "failure (aof t2) \<noteq> None" using log_failed [of s2] s s1 s2 by (simp add: serving_def)
      with misconf ad assms(4) show ?thesis by simp
    next
      case (ok ev t1 t2)
      then have l: "log_and_propagate c s2 = (Inr (), t2)"
        using limit_off [OF mx] persisted [of s2] s s1 s2 by (auto simp: serving_def split: prod.splits sum.splits)
      from log_and_propagate_file [OF _ _ this] s s1 s2 log_and_propagate_frame(1,2) [of c s2, unfolded l snd_conv] d(2)
      have t2: "serving t2 (snd (kv_write c M))" "aof_file (aof t2) = aof_file (aof s) @ encode_command c"
        by (simp_all add: serving_def)
      from ok ad have "encode_reply v = Inr r" "s' = t2" by simp_all
      then obtain b where "encode_value v = Inr b"
        using plain_encode [OF pl ok(2)] by (auto simp: encode_reply_def split: sum.splits py_exn.splits)
      with t2 v \<open>s' = t2\<close> show ?thesis by (intro logged [of v "snd (kv_write c M)" b]) (simp_all add: prod_eq_iff)
    qed (use ad limit_off [OF mx, of True] in auto)
  qed (use ex' same refused in auto)
qed

section \<open>A run of requests and its log\<close>

text \<open>The requests of all clients in the order the server takes them, with its replies.\<close>

fun serve_requests :: "(nat \<times> bytes list) list \<Rightarrow> server \<Rightarrow> bytes option res list \<times> server" where
  "serve_requests [] s = ([], s)"
| "serve_requests ((conn, c) # reqs) s =
     (let (r, s1) = execute conn c s; (rs, s2) = serve_requests reqs s1 in (r # rs, s2))"

text \<open>What a log means: its commands, one after the other, on the map.\<close>

inductive kv_run :: "kv \<Rightarrow> bytes list list \<Rightarrow> kv \<Rightarrow> bool" where
  run_nil: "kv_run M [] M"
| run_step: "kv_command c \<Longrightarrow> kv_write c M = (Inr v, M1) \<Longrightarrow> encode_value v = Inr b \<Longrightarrow> kv_run M1 cs M2 \<Longrightarrow>
    kv_run M (c # cs) M2"

inductive_cases kv_run_ConsE: "kv_run M (c # cs) M'"

lemma kv_run_append: "kv_run M cs M1 \<Longrightarrow> kv_run M1 ds M2 \<Longrightarrow> kv_run M (cs @ ds) M2"
  by (induction rule: kv_run.induct) (auto intro: kv_run.intros)

definition admissible :: "bytes list \<Rightarrow> bool" where
  "admissible c \<longleftrightarrow> upper_name c \<notin> set WRITE_COMMANDS \<or> kv_command c"

lemma serve_requests_append:
  "snd (serve_requests (xs @ ys) s) = snd (serve_requests ys (snd (serve_requests xs s)))"
  "fst (serve_requests (xs @ ys) s) = fst (serve_requests xs s) @ fst (serve_requests ys (snd (serve_requests xs s)))"
  by (induction xs arbitrary: s) (auto simp: split_beta Let_def)

lemma serve_requests_ready: "log_ready (aof s) \<Longrightarrow> log_ready (aof (snd (serve_requests reqs s)))"
proof (induction reqs arbitrary: s)
  case (Cons req reqs)
  have "log_ready (aof (snd (execute conn c s)))" for conn c
    by (rule execute_log_ready [OF Cons.prems, of conn c "fst (execute conn c s)"]) simp
  with Cons.IH show ?case by (cases req) (simp add: split_beta Let_def)
qed simp

lemma failed_requests_stay:
  "log_ready (aof s) \<Longrightarrow> failure (aof s) \<noteq> None \<Longrightarrow> aof (snd (serve_requests reqs s)) = aof s"
proof (induction reqs arbitrary: s)
  case (Cons req reqs)
  obtain conn c where req: "req = (conn, c)" by fastforce
  obtain r s1 where ex: "execute conn c s = (r, s1)" by fastforce
  with failed_log_stays [OF Cons.prems] have "aof s1 = aof s" by blast
  with Cons.IH [of s1] Cons.prems ex show ?case by (simp add: req split_beta Let_def)
qed simp

text \<open>
  When the log is still healthy at the end, it holds exactly the writes that took effect, at most
  one for each request, and their run is what happened to the keyspace.
\<close>

lemma requests_run:
  assumes "serving s M" and "\<forall>(conn, c)\<in>set reqs. admissible c" and "serve_requests reqs s = (rs, s')"
    and "\<forall>r\<in>set rs. \<exists>b. r = Inr b" and "failure (aof s') = None"
  shows "\<exists>cs M'. serving s' M' \<and> kv_run M cs M' \<and> aof_file (aof s') = aof_file (aof s) @ concat (map encode_command cs)
    \<and> length cs \<le> length reqs \<and> set cs \<subseteq> snd ` set reqs"
  using assms
proof (induction reqs arbitrary: s M rs)
  case Nil
  then show ?case by (auto intro: run_nil)
next
  case (Cons req reqs)
  obtain conn c where req: "req = (conn, c)" by fastforce
  obtain r s1 where ex: "execute conn c s = (r, s1)" by fastforce
  obtain rs1 where rs: "serve_requests reqs s1 = (rs1, s')" "rs = r # rs1"
    using Cons.prems(3) ex by (auto simp: req split: prod.splits)
  obtain b where r: "r = Inr b" using Cons.prems(4) rs by auto
  have adm: "admissible c" "\<forall>(conn, c)\<in>set reqs. admissible c" using Cons.prems(2) by (simp_all add: req)
  have rest: "\<forall>r\<in>set rs1. \<exists>b. r = Inr b" using Cons.prems(4) rs by simp
  note IH = Cons.IH [OF _ adm(2) rs(1) rest Cons.prems(5)]
  have unlogged: ?case if s1: "serving s1 M" "aof_file (aof s1) = aof_file (aof s)"
  proof -
    from IH [OF s1(1)] obtain cs M' where "serving s' M'" "kv_run M cs M'" "length cs \<le> length reqs"
      "aof_file (aof s') = aof_file (aof s1) @ concat (map encode_command cs)" "set cs \<subseteq> snd ` set reqs" by blast
    with s1(2) show ?thesis by (intro exI [of _ cs] exI [of _ M']) auto
  qed
  show ?case
  proof (cases "upper_name c \<in> set WRITE_COMMANDS")
    case False
    from read_serving [OF Cons.prems(1) this ex] show ?thesis by (intro unlogged) simp_all
  next
    case True
    then have c: "kv_command c" using adm(1) by (simp add: admissible_def)
    have ready: "log_ready (aof s1)"
      using Cons.prems(1) execute_log_ready [OF _ ex] by (simp add: serving_def)
    then have ok: "failure (aof s1) = None"
      using failed_requests_stay [of s1 reqs] rs(1) Cons.prems(5) by force
    show ?thesis
    proof (cases rule: write_serving [OF Cons.prems(1) c ex [unfolded r] ok])
      case 1
      then show ?thesis by (rule unlogged)
    next
      case (2 v b' M1)
      from IH [OF 2(3)] obtain cs M' where cs: "serving s' M'" "kv_run M1 cs M'"
        "aof_file (aof s') = aof_file (aof s1) @ concat (map encode_command cs)" "length cs \<le> length reqs"
        "set cs \<subseteq> snd ` set reqs" by blast
      with 2 c show ?thesis by (intro exI [of _ "c # cs"] exI [of _ M']) (auto simp: req intro: run_step)
    qed
  qed
qed

section \<open>Loading the log again\<close>

lemma load_on_map:
  assumes "holds (db t) M" and "kv_command c" and "kv_write c M = (Inr v, M')" and "encode_value v = Inr b"
  shows "\<exists>d. apply_logged_command c t = (Inr (), t\<lparr>db := d\<rparr>) \<and> holds d M'"
proof -
  let ?t = "t\<lparr>db := purge_expired (db t)\<rparr>"
  have "holds (db ?t) M" using holds_quiet [OF assms(1) quiet_purge] by simp
  from dispatch_on_map [OF this, of "loading_ctx c"] assms(2,3) obtain d where
    d: "dispatch create_default_registry (loading_ctx c) ?t = (Inr v, ?t\<lparr>db := d\<rparr>)" "holds d M'" by auto
  then have "apply_logged_command c t = (Inr (), ?t\<lparr>db := d\<rparr>)"
    by (intro apply_logged_dispatch [OF kv_command_write [OF assms(2)] _ assms(4)]) (simp_all add: holds_def)
  with d(2) show ?thesis by auto
qed

lemma load_run:
  "kv_run M cs M' \<Longrightarrow> holds (db t) M \<Longrightarrow>
   \<exists>d. apply_all apply_logged_command cs t = (Inr (), t\<lparr>db := d\<rparr>) \<and> holds d M'"
proof (induction arbitrary: t rule: kv_run.induct)
  case (run_step c M v M1 b cs M2)
  from load_on_map [OF run_step.prems run_step.hyps(1-3)] obtain d where
    "apply_logged_command c t = (Inr (), t\<lparr>db := d\<rparr>)" "holds d M1" by blast
  with run_step.IH [of "t\<lparr>db := d\<rparr>"] show ?case by auto
next
  case (run_nil M)
  then show ?case by (auto intro!: exI [of _ "db t"])
qed

lemma empty_holds:
  "store_inv d \<Longrightarrow> mono (clock d) \<Longrightarrow> maxmemory_bytes d \<le> 0 \<Longrightarrow> entries d = [] \<Longrightarrow> holds d (\<lambda>k. None)"
  by (simp add: holds_def live_def pydict.get_empty fun_eq_iff)

text \<open>Where a cut falls in a log that is one part followed by another.\<close>

lemma cut_between:
  fixes n :: nat
  assumes "length (concat (map f (take k (as @ bs)))) \<le> n"
    and "k < length (as @ bs) \<longrightarrow> n < length (concat (map f (take (Suc k) (as @ bs))))"
    and "length (concat (map f as)) \<le> n" and "bs = [] \<or> (\<exists>b bs'. bs = b # bs' \<and> n < length (concat (map f (as @ [b]))))"
  shows "take k (as @ bs) = as"
proof -
  have sub: "length (concat (map f (take i zs))) \<le> length (concat (map f (take j zs)))" if "i \<le> j" for i j zs
  proof -
    have "take j zs = take i zs @ drop i (take j zs)" using that by (metis append_take_drop_id min.absorb1 take_take)
    then show ?thesis by (metis concat_append le_add1 length_append map_append)
  qed
  consider "k < length as" | "k = length as" | "k > length as" by linarith
  then show ?thesis
  proof cases
    case 1
    then have "n < length (concat (map f (take (Suc k) as)))" using assms(2) by simp
    with sub [of "Suc k" "length as" as] 1 assms(3) show ?thesis by simp
  next
    case 3
    show ?thesis
    proof (cases bs)
      case (Cons b bs')
      then have "n < length (concat (map f (take (Suc (length as)) (as @ bs))))" using assms(4) by simp
      with sub [of "Suc (length as)" k "as @ bs"] 3 assms(1) show ?thesis by simp
    qed (use 3 in simp)
  qed simp
qed

abbreviation after :: "nat \<Rightarrow> (nat \<times> bytes list) list \<Rightarrow> server \<Rightarrow> server" where
  "after j reqs s \<equiv> snd (serve_requests (take j reqs) s)"

lemma after_parts:
  assumes "serve_requests reqs s = (rs, s')" and "\<forall>r\<in>set rs. \<exists>b. r = Inr b"
  obtains rs1 rs2 where "serve_requests (take j reqs) s = (rs1, after j reqs s)"
    "serve_requests (drop j reqs) (after j reqs s) = (rs2, s')" "\<forall>r\<in>set rs1. \<exists>b. r = Inr b" "\<forall>r\<in>set rs2. \<exists>b. r = Inr b"
proof -
  have "rs = fst (serve_requests (take j reqs) s) @ fst (serve_requests (drop j reqs) (after j reqs s))"
    "s' = snd (serve_requests (drop j reqs) (after j reqs s))"
    using serve_requests_append [of "take j reqs" "drop j reqs" s] assms(1) by simp_all
  with assms(2) show thesis
    by (intro that [of "fst (serve_requests (take j reqs) s)" "fst (serve_requests (drop j reqs) (after j reqs s))"])
      (simp_all add: prod_eq_iff)
qed

text \<open>The log of a run, split behind any number of its requests.\<close>

lemma requests_split:
  assumes s: "serving s M" and adm: "\<forall>(conn, c)\<in>set reqs. admissible c" and run: "serve_requests reqs s = (rs, s')"
    and ans: "\<forall>r\<in>set rs. \<exists>b. r = Inr b" and ok: "failure (aof s') = None"
  obtains cs ds M1 where "serving (after j reqs s) M1" "kv_run M cs M1"
    "aof_file (aof (after j reqs s)) = aof_file (aof s) @ concat (map encode_command cs)"
    "aof_file (aof s') = aof_file (aof (after j reqs s)) @ concat (map encode_command ds)"
    "set (cs @ ds) \<subseteq> snd ` set reqs" "length cs \<le> j"
proof -
  let ?a = "after j reqs s"
  from after_parts [OF run ans, of j] obtain rs1 rs2 where
    parts: "serve_requests (take j reqs) s = (rs1, ?a)" "serve_requests (drop j reqs) ?a = (rs2, s')"
      "\<forall>r\<in>set rs1. \<exists>b. r = Inr b" "\<forall>r\<in>set rs2. \<exists>b. r = Inr b" by blast
  have adm': "\<forall>(conn, c)\<in>set (take j reqs). admissible c" "\<forall>(conn, c)\<in>set (drop j reqs). admissible c"
    using adm by (auto dest: in_set_takeD in_set_dropD)
  have "log_ready (aof ?a)" using s serve_requests_ready by (simp add: serving_def)
  from failed_requests_stay [OF this, of "drop j reqs"] parts(2) ok have "failure (aof ?a) = None" by fastforce
  from requests_run [OF s adm'(1) parts(1,3) this] obtain cs M1 where
    1: "serving ?a M1" "kv_run M cs M1" "aof_file (aof ?a) = aof_file (aof s) @ concat (map encode_command cs)"
      "set cs \<subseteq> snd ` set (take j reqs)" "length cs \<le> length (take j reqs)" by blast
  from requests_run [OF 1(1) adm'(2) parts(2,4) ok] obtain ds where
    2: "aof_file (aof s') = aof_file (aof ?a) @ concat (map encode_command ds)" "set ds \<subseteq> snd ` set (drop j reqs)" by blast
  have "set (cs @ ds) \<subseteq> snd ` set reqs"
    using 1(4) 2(2) set_take_subset [of j reqs] set_drop_subset [of j reqs] by fastforce
  with 1 2 show thesis by (intro that) auto
qed

section \<open>Restart after a crash\<close>

text \<open>A store nobody has written to, with a clock that is never set back and no memory limit.\<close>

definition fresh :: "store \<Rightarrow> bool" where
  "fresh d \<longleftrightarrow> store_inv d \<and> mono (clock d) \<and> maxmemory_bytes d \<le> 0 \<and> entries d = []"

lemma fresh_holds: "fresh d \<Longrightarrow> holds d (\<lambda>k. None)"
  by (simp add: fresh_def empty_holds)

lemma last_within:
  fixes size :: "nat \<Rightarrow> nat"
  assumes "size 0 \<le> n"
  shows "\<exists>j\<le>len. size j \<le> n \<and> (j < len \<longrightarrow> n < size (Suc j))"
proof (induction len)
  case (Suc len)
  then obtain j where "j \<le> len" "size j \<le> n" "j < len \<longrightarrow> n < size (Suc j)" by blast
  then show ?case
  proof (cases "size (Suc len) \<le> n")
    case False
    with \<open>j \<le> len\<close> \<open>size j \<le> n\<close> \<open>j < len \<longrightarrow> n < size (Suc j)\<close> show ?thesis
      by (intro exI [of _ j]) (auto simp: less_Suc_eq not_le)
  qed (auto intro: exI [of _ "Suc len"])
qed (use assms in simp)

lemma recovered_prefix:
  assumes run: "kv_run (\<lambda>k. None) cs M1" and cut: "data = take n (concat (map encode_command (cs @ ds)))"
    and fits: "length (concat (map encode_command cs)) \<le> n"
      "ds = [] \<or> (\<exists>d ds'. ds = d # ds' \<and> n < length (concat (map encode_command (cs @ [d]))))"
    and lim: "int (length data) \<le> mx" "length data \<le> 32000000" and ld: "\<forall>c\<in>set (cs @ ds). loadable mb c"
    and t: "fresh (db t)"
  shows "\<exists>d. replay_aof apply_logged_command (Some data) mb mx t = (Inr (length cs), t\<lparr>db := d\<rparr>) \<and> holds d M1"
proof -
  let ?f = "concat (map encode_command (cs @ ds))"
  from read_torn [OF ld cut lim] obtain k where k: "read_commands (Some data) mb mx = Inr (take k (cs @ ds))"
    "length (concat (map encode_command (take k (cs @ ds)))) \<le> length data"
    "k < length (cs @ ds) \<longrightarrow> length data < length (concat (map encode_command (take (Suc k) (cs @ ds))))" by blast
  have "length (concat (map encode_command cs)) \<le> length data" using fits(1) by (simp add: cut)
  moreover have "ds = [] \<or> (\<exists>d ds'. ds = d # ds' \<and> length data < length (concat (map encode_command (cs @ [d]))))"
    using fits(2) by (auto simp: cut min_def)
  ultimately have "take k (cs @ ds) = cs" by (rule cut_between [OF k(2,3)])
  with k(1) have rd: "read_commands (Some data) mb mx = Inr cs" by simp
  from load_run [OF run fresh_holds [OF t]] obtain d where
    "apply_all apply_logged_command cs t = (Inr (), t\<lparr>db := d\<rparr>)" "holds d M1" by blast
  with rd show ?thesis by (auto simp: replay_aof_def)
qed

text \<open>Where a cut of the log falls among the requests of the run.\<close>

lemma log_cut:
  assumes s: "serving s (\<lambda>k. None)" "aof_file (aof s) = []"
    and run: "serve_requests reqs s = (rs, s')" "\<forall>r\<in>set rs. \<exists>b. r = Inr b" "failure (aof s') = None"
    and adm0: "\<forall>(conn, c)\<in>set reqs. admissible c"
  shows "\<exists>j cs ds M1. j \<le> length reqs \<and> length (aof_file (aof (after j reqs s))) \<le> n
    \<and> (j < length reqs \<longrightarrow> n < length (aof_file (aof (after (Suc j) reqs s))))
    \<and> serving (after j reqs s) M1 \<and> kv_run (\<lambda>k. None) cs M1 \<and> length (concat (map encode_command cs)) \<le> n
    \<and> (ds = [] \<or> (\<exists>d ds'. ds = d # ds' \<and> n < length (concat (map encode_command (cs @ [d])))))
    \<and> aof_file (aof s') = concat (map encode_command (cs @ ds)) \<and> set (cs @ ds) \<subseteq> snd ` set reqs"
proof -
  have size0: "length (aof_file (aof (after 0 reqs s))) \<le> n" by (simp add: s(2))
  from last_within [where size = "\<lambda>j. length (aof_file (aof (after j reqs s)))", OF size0] obtain j where
    j: "j \<le> length reqs" "length (aof_file (aof (after j reqs s))) \<le> n"
    and nxt: "j < length reqs \<longrightarrow> n < length (aof_file (aof (after (Suc j) reqs s)))" by blast
  have adm: "\<forall>(conn, c)\<in>set reqs. admissible c" "\<forall>(conn, c)\<in>set (drop j reqs). admissible c"
    using adm0 by (auto dest: in_set_dropD)
  obtain cs ds0 M1 where 1: "serving (after j reqs s) M1" "kv_run (\<lambda>k. None) cs M1"
    "aof_file (aof (after j reqs s)) = aof_file (aof s) @ concat (map encode_command cs)"
    "aof_file (aof s') = aof_file (aof (after j reqs s)) @ concat (map encode_command ds0)"
    "set (cs @ ds0) \<subseteq> snd ` set reqs" "length cs \<le> j"
    by (rule requests_split [OF s(1) adm(1) run])
  then have whole: "aof_file (aof (after j reqs s)) = concat (map encode_command cs)" by (simp add: s(2))
  obtain rs1 rs2 where "serve_requests (take j reqs) s = (rs1, after j reqs s)"
    and rest1: "serve_requests (drop j reqs) (after j reqs s) = (rs2, s')"
    and "\<forall>r\<in>set rs1. \<exists>b. r = Inr b" and rest2: "\<forall>r\<in>set rs2. \<exists>b. r = Inr b"
    by (rule after_parts [OF run(1,2)])
  note rest = rest1 rest2
  have after_Suc: "after 1 (drop j reqs) (after j reqs s) = after (Suc j) reqs s"
    using serve_requests_append(1) [of "take j reqs" "take 1 (drop j reqs)" s] by (simp add: take_add [symmetric])
  obtain ds es M2 where ext: "serving (after (Suc j) reqs s) M2" "kv_run M1 ds M2"
    "aof_file (aof (after (Suc j) reqs s)) = aof_file (aof (after j reqs s)) @ concat (map encode_command ds)"
    "aof_file (aof s') = aof_file (aof (after (Suc j) reqs s)) @ concat (map encode_command es)"
    "set (ds @ es) \<subseteq> snd ` set (drop j reqs)" "length ds \<le> 1"
    by (rule requests_split [OF 1(1) adm(2) rest run(3), of 1, unfolded after_Suc])
  then have 2: "aof_file (aof (after (Suc j) reqs s)) = concat (map encode_command cs) @ concat (map encode_command ds)"
      "aof_file (aof s') = concat (map encode_command (cs @ ds @ es))" "set (ds @ es) \<subseteq> snd ` set (drop j reqs)"
      "length ds \<le> 1" using whole by simp_all
  have "ds @ es = [] \<or> (\<exists>d ds'. ds @ es = d # ds' \<and> n < length (concat (map encode_command (cs @ [d]))))"
  proof (cases "j < length reqs")
    case True
    with nxt 2(1) j(2) whole have "ds \<noteq> []" by auto
    with 2(4) obtain d where "ds = [d]" by (cases ds) auto
    with True nxt 2(1) show ?thesis by simp
  qed (use 2(3) in auto)
  moreover have "snd ` set (drop j reqs) \<subseteq> snd ` set reqs" by (intro image_mono set_drop_subset)
  then have "set (cs @ ds @ es) \<subseteq> snd ` set reqs" using 1(5) 2(3) by (simp, blast)
  moreover have "length (concat (map encode_command cs)) \<le> n" using j(2) whole by simp
  ultimately show ?thesis using j nxt 1(1,2) 2(2)
    by (intro exI [of _ j] exI [of _ cs] exI [of _ "ds @ es"] exI [of _ M1]) simp
qed

lemma recovered_after_crash:
  assumes s: "fresh (db s)" "\<not> is_replica (config s)" "log_ready (aof s)" "full_writes (aof s)" "aof_file (aof s) = []"
    and run: "serve_requests reqs s = (rs, s')" "\<forall>r\<in>set rs. \<exists>b. r = Inr b" "failure (aof s') = None"
    and reqs: "\<forall>(conn, c)\<in>set reqs. admissible c \<and> loadable (cfg_proto_max_bulk_len (config t)) c"
    and t: "fresh (db t)" "cfg_aof_enabled (config t)" "aof_file (aof t) \<noteq> [] \<or> rdb_file t = None"
    and crash: "aof_file (aof t) = take n (aof_file (aof s'))"
    and lim: "int (length (aof_file (aof t))) \<le> cfg_persistence_max_load_bytes (config t)"
      "length (aof_file (aof t)) \<le> 32000000"
  shows "\<exists>j t'. j \<le> length reqs \<and> load_persistence t = (Inr (), t')
    \<and> length (aof_file (aof (after j reqs s))) \<le> n
    \<and> (j < length reqs \<longrightarrow> n < length (aof_file (aof (after (Suc j) reqs s))))
    \<and> (\<forall>m\<ge>reading (db t'). \<forall>m'\<ge>reading (db (after j reqs s)). live m (db t') = live m' (db (after j reqs s)))"
proof -
  have adm: "\<forall>(conn, c)\<in>set reqs. admissible c" using reqs by auto
  have "serving s (\<lambda>k. None)" using s fresh_holds by (simp add: serving_def)
  from log_cut [OF this s(5) run adm, of n] obtain j cs ds M1 where
    j: "j \<le> length reqs" "length (aof_file (aof (after j reqs s))) \<le> n"
      "j < length reqs \<longrightarrow> n < length (aof_file (aof (after (Suc j) reqs s)))"
    and M1: "serving (after j reqs s) M1" "kv_run (\<lambda>k. None) cs M1"
    and fits: "length (concat (map encode_command cs)) \<le> n"
      "ds = [] \<or> (\<exists>d ds'. ds = d # ds' \<and> n < length (concat (map encode_command (cs @ [d]))))"
    and file': "aof_file (aof s') = concat (map encode_command (cs @ ds))" and sub: "set (cs @ ds) \<subseteq> snd ` set reqs"
    by (elim exE conjE) (rule that)
  have "loadable (cfg_proto_max_bulk_len (config t)) c" if "c \<in> set (cs @ ds)" for c
  proof -
    from that sub obtain conn where "(conn, c) \<in> set reqs" by fastforce
    with reqs show ?thesis by blast
  qed
  then have ld: "\<forall>c\<in>set (cs @ ds). loadable (cfg_proto_max_bulk_len (config t)) c" by blast
  obtain d where d: "replay_aof apply_logged_command (Some (aof_file (aof t)))
      (cfg_proto_max_bulk_len (config t)) (cfg_persistence_max_load_bytes (config t)) t = (Inr (length cs), t\<lparr>db := d\<rparr>)"
    "holds d M1"
    using recovered_prefix [OF M1(2) crash [unfolded file'] fits lim ld t(1)] by blast
  define t' where "t' = t\<lparr>db := d\<rparr>"
  with d have t': "replay_aof apply_logged_command (Some (aof_file (aof t)))
      (cfg_proto_max_bulk_len (config t)) (cfg_persistence_max_load_bytes (config t)) t = (Inr (length cs), t')"
    "holds (db t') M1" by simp_all
  have "load_persistence t = (Inr (), t')"
    using t' t(2,3) by (cases "aof_file (aof t) = []") (auto simp: load_persistence_def replay_aof_def read_commands_def Let_def)
  moreover have "\<forall>m\<ge>reading (db t'). \<forall>m'\<ge>reading (db (after j reqs s)). live m (db t') = live m' (db (after j reqs s))"
    using t'(2) M1(1) by (simp add: serving_def holds_def)
  ultimately show ?thesis using j by blast
qed


text \<open>The process that finds what is left of a log after the crash.\<close>

definition restarted :: "config \<Rightarrow> bytes \<Rightarrow> server" where
  "restarted c left = RedisServer c (lit ''0.2.2'') (lit ''def'') (\<lambda>i. 9000 + int i)
     (AOFLog Everysec True left (\<lambda>i. Inr None) (\<lambda>i. Inr 1)) None (\<lambda>i. Inr ())"

lemma restarted_fresh: "fresh (db (restarted default_config left))"
  by (simp add: restarted_def RedisServer_def fresh_def new_store_inv, simp add: new_store_def mono_def default_config_def)

definition sample_run :: server where
  "sample_run = snd (serve_requests [(1, [''SET'', ''k'', ''v''])] (sample_server default_config))"


section \<open>Deadlines across a restart\<close>

text \<open>C36: The log keeps the seconds an \<open>EXPIRE\<close> was given, not the deadline it set: a process that loads
  \<open>SET k v\<close> and \<open>EXPIRE k secs\<close> gives the key the full \<open>secs\<close> again, counted from a moment \<open>n\<close> of the load,
  however long before the restart the command was executed, and even when the key had expired.\<close>

theorem restart_renews_ttl:
  assumes t: "fresh (db t)" "cfg_aof_enabled (config t)"
    and left: "aof_file (aof t) = encode_command [''SET'', k, v] @ encode_command [''EXPIRE'', k, str]"
    and secs: "0 < secs" "py_format_int secs = Inr str"
    and ld: "loadable (cfg_proto_max_bulk_len (config t)) [''SET'', k, v]"
      "loadable (cfg_proto_max_bulk_len (config t)) [''EXPIRE'', k, str]"
    and lim: "int (length (aof_file (aof t))) \<le> cfg_persistence_max_load_bytes (config t)"
      "length (aof_file (aof t)) \<le> 32000000"
  shows "\<exists>n t'. load_persistence t = (Inr (), t') \<and> reading (db t) \<le> n \<and> n \<le> reading (db t')
    \<and> (\<forall>m\<ge>reading (db t'). live m (db t') k =
         (if m < n + secs * 1000 then Some (KeyEntry STRING (VStr v) (Some (n + secs * 1000))) else None))"
proof -
  let ?cs = "[[''SET'', k, v], [''EXPIRE'', k, str]]" and ?e = "KeyEntry STRING (VStr v) None"
  have l: "loading t" using t(1) by (simp add: fresh_def loading_def)
  from set_step [OF l, of k v] obtain t1 where
    t1: "apply_logged_command [''SET'', k, v] t = (Inr (), t1)" "loads t t1 k ?e" by blast
  then have "loading t1" "\<forall>m\<ge>reading (db t1). live m (db t1) k = Some ?e" by (simp_all add: loads_def)
  from expire_step [OF this secs] obtain t2 n where
    t2: "apply_logged_command [''EXPIRE'', k, str] t1 = (Inr (), t2)" "reading (db t1) \<le> n" "n \<le> reading (db t2)"
      "loads t1 t2 k (?e\<lparr>expire_at_ms := Some (n + secs * 1000)\<rparr>)" by blast
  have rd: "read_commands (Some (aof_file (aof t))) (cfg_proto_max_bulk_len (config t))
      (cfg_persistence_max_load_bytes (config t)) = Inr ?cs"
    using read_payload [of ?cs] ld lim by (simp add: left)
  have "aof_file (aof t) \<noteq> []" by (simp add: left encode_command_def array_header_def)
  then have "load_persistence t = (Inr (), t2)"
    using t(2) t1(1) t2(1) rd by (simp add: load_persistence_def replay_aof_def Let_def)
  moreover have "reading (db t) \<le> n" using loads_reading [OF l t1(2)] t2(2) by simp
  ultimately show ?thesis
    using t2(3,4) by (intro exI [of _ n] exI [of _ t2]) (auto simp: loads_def alive_def is_expired_def)
qed

theorem restart_renews_ttl_witness:
  "\<exists>n t'. load_persistence (restarted default_config (encode_command [''SET'', ''k'', ''v''] @ encode_command [''EXPIRE'', ''k'', ''10'']))
      = (Inr (), t') \<and> 9000 \<le> n \<and> (reading (db t') < n + 10000 \<longrightarrow> live (reading (db t')) (db t') ''k'' \<noteq> None)"
proof -
  let ?t = "restarted default_config (encode_command [''SET'', ''k'', ''v''] @ encode_command [''EXPIRE'', ''k'', ''10''])"
  have simps: "aof_file (aof ?t) = encode_command [''SET'', ''k'', ''v''] @ encode_command [''EXPIRE'', ''k'', ''10'']"
    "config ?t = default_config" "reading (db ?t) = 9000"
    by (simp_all add: restarted_def RedisServer_def AOFLog_def reading_def new_store_def)
  have len: "length (encode_command [''SET'', ''k'', ''v''] @ encode_command [''EXPIRE'', ''k'', ''10'']) \<le> 1000" by code_simp
  have "py_format_int 10 = Inr ''10''" by code_simp
  moreover have "loadable 16777216 [''SET'', ''k'', ''v'']" "loadable 16777216 [''EXPIRE'', ''k'', ''10'']"
    by (auto intro!: loadable_small)
  moreover have cfg: "cfg_aof_enabled default_config" "cfg_proto_max_bulk_len default_config = 16777216"
    "cfg_persistence_max_load_bytes default_config = 1073741824" by (simp_all add: default_config_def)
  ultimately obtain n t' where "load_persistence ?t = (Inr (), t')" "9000 \<le> n"
    "\<forall>m\<ge>reading (db t'). live m (db t') ''k'' =
       (if m < n + 10 * 1000 then Some (KeyEntry STRING (VStr ''v'') (Some (n + 10 * 1000))) else None)"
    using restart_renews_ttl [OF restarted_fresh _ simps(1), of 10] len unfolding simps cfg by auto
  then show ?thesis by (intro exI [of _ n] exI [of _ t']) simp
qed

end
