(* ===== verification/Connection.thy ===== *)
theory Connection
  imports Recovery
begin

text \<open>
  One client connection from its acceptance to its end: \<open>handle_client\<close> and
  \<open>_hold_replica_connection\<close> of \<open>byo_redis/server.py\<close>, with the idle timeout and the timeout of an
  incomplete frame.

  The world the connection runs in is a record: what each read of the socket gives (\<open>incoming\<close>, which
  is told the timeout the program passes), the successive values of \<open>time.monotonic()\<close>, and what the
  other tasks have done to the server while a read waits. Times are Python floats: \<open>Finite m e\<close> is
  \<open>m * 2 ^ e\<close>, and a subtraction is the exact difference rounded to 53 bits.
\<close>

section \<open>Float arithmetic\<close>

text \<open>Round to nearest, ties to even; a result of \<open>2 ^ 1024\<close> or more is infinite.\<close>

definition round_double :: "int \<Rightarrow> int \<Rightarrow> pyfloat" where
  "round_double m e =
     (let k = bit_length (nat \<bar>m\<bar>) - 53;
          q = round_half_even \<bar>m\<bar> (2 ^ k);
          x = e + int k
      in if 0 \<le> x \<and> 2 ^ 1024 \<le> q * 2 ^ nat x then (if m < 0 then NegInf else PosInf)
         else Finite (sgn m * q) x)"

fun float_sub :: "pyfloat \<Rightarrow> pyfloat \<Rightarrow> pyfloat" where
  "float_sub (Finite m1 e1) (Finite m2 e2) =
     (let e = min e1 e2 in round_double (m1 * 2 ^ nat (e1 - e) - m2 * 2 ^ nat (e2 - e)) e)"
| "float_sub NaN y = NaN"
| "float_sub x NaN = NaN"
| "float_sub PosInf PosInf = NaN"
| "float_sub NegInf NegInf = NaN"
| "float_sub PosInf y = PosInf"
| "float_sub NegInf y = NegInf"
| "float_sub x PosInf = NegInf"
| "float_sub x NegInf = PosInf"

fun float_less :: "pyfloat \<Rightarrow> pyfloat \<Rightarrow> bool" where
  "float_less (Finite m1 e1) (Finite m2 e2) \<longleftrightarrow>
     (let e = min e1 e2 in m1 * 2 ^ nat (e1 - e) < m2 * 2 ^ nat (e2 - e))"
| "float_less NaN y \<longleftrightarrow> False"
| "float_less x NaN \<longleftrightarrow> False"
| "float_less NegInf y \<longleftrightarrow> y \<noteq> NegInf"
| "float_less x PosInf \<longleftrightarrow> x \<noteq> PosInf"
| "float_less x y \<longleftrightarrow> False"

text \<open>\<open>min(a, b)\<close>, which returns its first argument unless the second is smaller.\<close>

definition float_min :: "pyfloat \<Rightarrow> pyfloat \<Rightarrow> pyfloat" where
  "float_min a b = (if float_less b a then b else a)"

text \<open>\<open>f"{x:.0f}"\<close>: the exact value rounded to an integer, ties to even.\<close>

definition format_0f :: "pyfloat \<Rightarrow> pystr" where
  "format_0f x =
     (case x of
        PosInf \<Rightarrow> lit ''inf'' | NegInf \<Rightarrow> lit ''-inf'' | NaN \<Rightarrow> lit ''nan''
      | Finite m e \<Rightarrow>
          (let q = (if 0 \<le> e then \<bar>m\<bar> * 2 ^ nat e else round_half_even \<bar>m\<bar> (2 ^ nat (- e)))
           in (if m < 0 then lit ''-'' else []) @ lit (dec_int q)))"

section \<open>The connection\<close>

datatype read_outcome = ReadData bytes | ReadTimeout | ReadError

record conn_env =
  incoming :: "nat \<Rightarrow> pyfloat option \<Rightarrow> read_outcome"
  monotonic :: "nat \<Rightarrow> pyfloat"
  others :: "nat \<Rightarrow> server \<Rightarrow> server"

text \<open>The local variables of \<open>handle_client\<close>, the reads and clock readings so far, and the bytes sent.\<close>

record conn_state =
  conn_id :: nat
  conn_parser :: resp_parser
  partial_since :: "pyfloat option"
  reads_done :: nat
  clock_reads :: nat
  sent :: bytes

definition new_conn :: "nat \<Rightarrow> config \<Rightarrow> conn_state" where
  "new_conn conn cfg =
     \<lparr>conn_id = conn, conn_parser = client_parser cfg, partial_since = None, reads_done = 0, clock_reads = 0, sent = []\<rparr>"

definition send :: "bytes \<Rightarrow> conn_state \<Rightarrow> conn_state" where
  "send b c = c\<lparr>sent := sent c @ b\<rparr>"

text \<open>The reply of the outer \<open>except ProtocolError\<close>; an error while replying is dropped.\<close>

definition send_protocol_error :: "pystr \<Rightarrow> conn_state \<Rightarrow> conn_state" where
  "send_protocol_error msg c =
     (case encode_error (AStr (lit ''ERR protocol error: '' @ msg)) of Inr b \<Rightarrow> send b c | Inl _ \<Rightarrow> c)"

definition timed_out :: "config \<Rightarrow> conn_state \<Rightarrow> conn_state" where
  "timed_out cfg =
     send_protocol_error (lit ''incomplete RESP frame timed out after '' @ format_0f (cfg_partial_timeout_sec cfg) @ lit ''s'')"

text \<open>The time an incomplete frame has left, when there is one; the clock is read for it.\<close>

definition partial_remaining :: "conn_env \<Rightarrow> config \<Rightarrow> conn_state \<Rightarrow> pyfloat option \<times> conn_state" where
  "partial_remaining env cfg c =
     (case partial_since c of
        Some t0 \<Rightarrow>
          if 0 < buffered_size (conn_parser c)
          then (Some (float_sub (cfg_partial_timeout_sec cfg) (float_sub (monotonic env (clock_reads c)) t0)),
                c\<lparr>clock_reads := Suc (clock_reads c)\<rparr>)
          else (None, c)
      | None \<Rightarrow> (None, c))"

text \<open>After a read: start the timer of an incomplete frame, or stop it when nothing is buffered.\<close>

definition update_partial :: "conn_env \<Rightarrow> conn_state \<Rightarrow> conn_state" where
  "update_partial env c =
     (if 0 < buffered_size (conn_parser c)
      then (case partial_since c of
              None \<Rightarrow> c\<lparr>partial_since := Some (monotonic env (clock_reads c)), clock_reads := Suc (clock_reads c)\<rparr>
            | Some _ \<Rightarrow> c)
      else c\<lparr>partial_since := None\<rparr>)"

text \<open>
  One round of the loop of \<open>handle_client\<close>; the verdict \<open>Continue\<close> means another round. The timer is
  updated between the parse and the first command in the source; nothing the commands do depends
  on it, and after a parse error it is never looked at again.
\<close>

definition client_round :: "conn_env \<Rightarrow> conn_state \<Rightarrow> server \<Rightarrow> verdict \<times> conn_state \<times> server" where
  "client_round env c s =
     (let cfg = config s; (remaining, c1) = partial_remaining env cfg c
      in if remaining \<noteq> None \<and> float_nonpos (the remaining) then (Close, timed_out cfg c1, s)
         else
           (let timeout = (case remaining of
                             None \<Rightarrow> cfg_client_idle_timeout_sec cfg
                           | Some r \<Rightarrow> float_min (cfg_client_idle_timeout_sec cfg) r);
                c2 = c1\<lparr>reads_done := Suc (reads_done c1)\<rparr>; s1 = others env (reads_done c1) s
            in (case incoming env (reads_done c1) (Some timeout) of
                  ReadTimeout \<Rightarrow>
                    if buffered_size (conn_parser c2) = 0 then (Close, c2, s1) else (Close, timed_out cfg c2, s1)
                | ReadError \<Rightarrow> (Close, c2, s1)
                | ReadData data \<Rightarrow>
                    (let (out, v, p, s2) = client_data (conn_id c2) (conn_parser c2) data s1
                     in (v, send out (update_partial env (c2\<lparr>conn_parser := p\<rparr>)), s2)))))"

partial_function (option) client_loop ::
  "conn_env \<Rightarrow> conn_state \<Rightarrow> server \<Rightarrow> (verdict \<times> conn_state \<times> server) option" where
  "client_loop env c s =
     (case client_round env c s of
        (Continue, c1, s1) \<Rightarrow> client_loop env c1 s1
      | (v, c1, s1) \<Rightarrow> Some (v, c1, s1))"

text \<open>\<open>_hold_replica_connection\<close>: read and drop, without a timeout, until the replica is gone.\<close>

partial_function (option) hold_replica_connection ::
  "conn_env \<Rightarrow> nat \<Rightarrow> server \<Rightarrow> (nat \<times> server) option" where
  "hold_replica_connection env i s =
     (let s1 = others env i s
      in (case incoming env i None of
            ReadData data \<Rightarrow> if data = [] then Some (Suc i, s1) else hold_replica_connection env (Suc i) s1
          | _ \<Rightarrow> Some (Suc i, s1)))"

text \<open>How a connection that was accepted ends: the bytes sent, the exception that leaves the task.\<close>

definition finish_client :: "conn_env \<Rightarrow> verdict \<Rightarrow> conn_state \<Rightarrow> server \<Rightarrow> (bytes \<times> py_exn option \<times> server) option" where
  "finish_client env v c s =
     (case v of
        HoldReplica \<Rightarrow>
          map_option (\<lambda>(i, s1). (sent c, None, close_client (conn_id c) s1)) (hold_replica_connection env (reads_done c) s)
      | Crash (ProtocolError e) \<Rightarrow>
          Some (sent (send_protocol_error (proto_text e) c), None, close_client (conn_id c) s)
      | Crash (OSError m) \<Rightarrow> Some (sent c, None, close_client (conn_id c) s)
      | Crash e \<Rightarrow> Some (sent c, Some e, close_client (conn_id c) s)
      | _ \<Rightarrow> Some (sent c, None, close_client (conn_id c) s))"

definition handle_client :: "conn_env \<Rightarrow> server \<Rightarrow> (bytes \<times> py_exn option \<times> server) option" where
  "handle_client env s =
     (case accept_client s of
        (Inl refusal, s1) \<Rightarrow> (case refusal of Inr b \<Rightarrow> Some (b, None, s1) | Inl e \<Rightarrow> Some ([], Some e, s1))
      | (Inr conn, s1) \<Rightarrow>
          Option.bind (client_loop env (new_conn conn (config s1)) s1) (\<lambda>(v, c, s2). finish_client env v c s2))"

section \<open>The loop as a sequence of rounds\<close>

fun client_rounds :: "conn_env \<Rightarrow> nat \<Rightarrow> conn_state \<Rightarrow> server \<Rightarrow> (conn_state \<times> server) option" where
  "client_rounds env 0 c s = Some (c, s)"
| "client_rounds env (Suc n) c s =
     (case client_rounds env n c s of
        None \<Rightarrow> None
      | Some (c1, s1) \<Rightarrow> (case client_round env c1 s1 of (Continue, c2, s2) \<Rightarrow> Some (c2, s2) | _ \<Rightarrow> None))"

lemma client_rounds_SucE:
  assumes "client_rounds env (Suc n) c s = Some (c2, s2)"
  obtains c1 s1 where "client_rounds env n c s = Some (c1, s1)" "client_round env c1 s1 = (Continue, c2, s2)"
  using assms by (auto split: option.splits prod.splits verdict.splits)

lemma client_loop_rounds: "client_rounds env n c s = Some (c1, s1) \<Longrightarrow> client_loop env c s = client_loop env c1 s1"
proof (induction n arbitrary: c1 s1)
  case (Suc n)
  from Suc.prems obtain c0 s0 where "client_rounds env n c s = Some (c0, s0)" "client_round env c0 s0 = (Continue, c1, s1)"
    by (rule client_rounds_SucE)
  with Suc.IH [of c0 s0] client_loop.simps [of env c0 s0] show ?case by simp
qed simp

lemma client_loop_last:
  assumes "client_rounds env n c s = Some (c1, s1)" and "client_round env c1 s1 = (v, c2, s2)" and "v \<noteq> Continue"
  shows "client_loop env c s = Some (v, c2, s2)"
  using client_loop_rounds [OF assms(1)] client_loop.simps [of env c1 s1] assms(2,3) by (cases v) simp_all

lemma client_loop_ends:
  assumes "client_rounds env n c s = None"
  shows "\<exists>v c' s'. client_loop env c s = Some (v, c', s') \<and> v \<noteq> Continue"
  using assms
proof (induction n)
  case (Suc n)
  show ?case
  proof (cases "client_rounds env n c s")
    case (Some cs)
    obtain c1 s1 where cs: "cs = (c1, s1)" by fastforce
    obtain v c2 s2 where r: "client_round env c1 s1 = (v, c2, s2)" using prod_cases3 by blast
    with Suc.prems Some cs have "v \<noteq> Continue" by auto
    with client_loop_last [OF Some [unfolded cs] r] show ?thesis by blast
  qed (rule Suc.IH)
qed simp

text \<open>Induction over the rounds of a loop that returns.\<close>

lemma client_loop_induct:
  assumes "client_loop env c s = Some r"
    and last: "\<And>env c s v c1 s1. client_round env c s = (v, c1, s1) \<Longrightarrow> v \<noteq> Continue \<Longrightarrow> P env c s (v, c1, s1)"
    and more: "\<And>env c s c1 s1 r. client_round env c s = (Continue, c1, s1) \<Longrightarrow> P env c1 s1 r \<Longrightarrow> P env c s r"
  shows "P env c s r"
proof (rule client_loop.raw_induct [OF _ assms(1)])
  fix loop env c s r
  assume IH: "\<And>env c s r. loop env c s = Some r \<Longrightarrow> P env c s r"
    and body: "(case client_round env c s of (Continue, c1, s1) \<Rightarrow> loop env c1 s1 | (v, c1, s1) \<Rightarrow> Some (v, c1, s1)) = Some r"
  obtain v c1 s1 where rd: "client_round env c s = (v, c1, s1)" using prod_cases3 by blast
  show "P env c s r"
  proof (cases "v = Continue")
    case True
    with body rd IH more [of env c s c1 s1 r] show ?thesis by simp
  next
    case False
    with body rd have "r = (v, c1, s1)" by (cases v) auto
    with last [OF rd False] show ?thesis by simp
  qed
qed

section \<open>Parts of the server no command changes\<close>

text \<open>A part of the server that no handler changes, and that is neither data nor log nor a counter of commands.\<close>

locale command_frame =
  fixes f :: "server \<Rightarrow> 'a"
  assumes frame_db: "f (s\<lparr>db := d\<rparr>) = f s"
    and frame_aof: "f (s\<lparr>aof := l\<rparr>) = f s"
    and frame_master: "f (s\<lparr>master := m\<rparr>) = f s"
    and frame_failed: "f (s\<lparr>total_commands_failed := n\<rparr>) = f s"
    and frame_processed: "f (s\<lparr>total_commands_processed := n\<rparr>) = f s"
    and frame_dispatch: "f (snd (dispatch create_default_registry ctx s)) = f s"
begin

lemma frame_log: "f (snd (log_all cs s)) = f s"
  by (induction cs arbitrary: s)
    (auto simp: log_and_propagate_def log_command_def propagate_command_def Let_def frame_aof frame_master
      split: prod.splits sum.splits)

lemma frame_persist: "f (snd (persist ctx w ev s)) = f s"
  by (simp add: persist_def frame_log log_command_def frame_aof split_beta Let_def del: log_all.simps)

lemma frame_after: "f (snd (after_dispatch ctx w before v s)) = f s"
proof -
  have l: "f (snd (limit w s)) = f s" by (simp add: limit_def on_db_simps frame_db)
  show ?thesis
  proof (cases rule: after_dispatch_cases [of w s ctx before v])
    case (misconf ev t m t')
    with l frame_persist [of ctx w ev t] show ?thesis by (simp add: count_failed_def frame_failed)
  next
    case (broken ev t e t')
    with l frame_persist [of ctx w ev t] show ?thesis by simp
  next
    case (ok ev t t')
    with l frame_persist [of ctx w ev t] show ?thesis by simp
  qed (use l in \<open>simp_all add: count_failed_def frame_failed frame_db\<close>)
qed

lemma frame_execute: "f (snd (execute_inner create_default_registry ctx s)) = f s"
proof -
  have p: "f (snd (prep w s)) = f s" for w by (simp add: prep_def on_db_simps frame_db)
  show ?thesis
  proof (cases rule: execute_inner_cases [of s ctx create_default_registry])
    case (raised e s2 msg)
    with frame_dispatch [of ctx "snd (prep (is_write ctx) s)"] p show ?thesis by (simp add: count_failed_def frame_failed)
  next
    case (ran v s2)
    with frame_dispatch [of ctx "snd (prep (is_write ctx) s)"] p frame_after show ?thesis by simp
  qed (simp_all add: count_failed_def frame_failed)
qed

lemma frame_messages: "f (snd (snd (serve_messages conn msgs s))) = f s"
proof (induction msgs arbitrary: s)
  case (Cons msg msgs)
  have cmd: "f (snd (snd (serve_command conn c t))) = f t" for c t
    using frame_execute [of "client_context conn c" t]
    by (cases "execute conn c t")
      (auto simp: serve_command_def serve_psync_def execute_def Let_def frame_db frame_master split: sum.splits prod.splits)
  have "f (snd (snd (serve_message conn msg s))) = f s"
    using cmd frame_processed by (auto simp: serve_message_def Let_def split: sum.splits py_exn.splits)
  with Cons.IH show ?case by (auto split: prod.splits verdict.splits) (metis snd_conv)+
qed simp

lemma frame_data: "client_data conn p data s = (out, v, p', s') \<Longrightarrow> f s' = f s"
  using frame_messages
  by (auto simp: client_data_def Let_def split: if_splits prod.splits sum.splits py_exn.splits) (metis snd_conv)+

lemma frame_round:
  assumes "\<And>i s. f (others env i s) = f s" and "client_round env c s = (v, c', s')"
  shows "f s' = f s"
  using assms frame_data
  by (auto simp: client_round_def Let_def split: if_splits prod.splits read_outcome.splits)

lemma frame_loop:
  assumes "\<And>i s. f (others env i s) = f s" and "client_loop env c s = Some r"
  shows "f (snd (snd r)) = f s"
proof -
  let ?P = "\<lambda>env c s r. (\<forall>i s. f (others env i s) = f s) \<longrightarrow> f (snd (snd r)) = f s"
  have "?P env c s r"
  proof (rule client_loop_induct [OF assms(2), where P = ?P])
    fix env c s v c1 s1 assume rd: "client_round env c s = (v, c1, s1)"
    show "?P env c s (v, c1, s1)" using frame_round [OF _ rd] by auto
  next
    fix env c s c1 s1 r assume rd: "client_round env c s = (Continue, c1, s1)" and "?P env c1 s1 r"
    then show "?P env c s r" using frame_round [OF _ rd] by auto
  qed
  with assms(1) show ?thesis by blast
qed

lemma frame_hold:
  assumes "\<And>i s. f (others env i s) = f s" and "hold_replica_connection env i s = Some r"
  shows "f (snd r) = f s"
proof -
  let ?P = "\<lambda>env i s r. (\<forall>i s. f (others env i s) = f s) \<longrightarrow> f (snd r) = f s"
  have "?P env i s r"
  proof (rule hold_replica_connection.raw_induct [OF _ assms(2), where P = ?P])
    fix hold env i s r
    assume IH: "\<And>env i s r. hold env i s = Some r \<Longrightarrow> ?P env i s r"
      and body: "(let s1 = others env i s
        in case incoming env i None of
             ReadData data \<Rightarrow> if data = [] then Some (Suc i, s1) else hold env (Suc i) s1
           | _ \<Rightarrow> Some (Suc i, s1)) = Some r"
    show "?P env i s r"
      using body IH [of env "Suc i" "others env i s" r] by (auto simp: Let_def split: read_outcome.splits if_splits)
  qed
  with assms(1) show ?thesis by blast
qed

end

interpretation config_frame: command_frame config
  by unfold_locales (simp_all add: dispatch.keeps_config)

section \<open>The timer of an incomplete frame\<close>

lemma buffered_send [simp]: "conn_parser (send b c) = conn_parser c" "partial_since (send b c) = partial_since c"
  "clock_reads (send b c) = clock_reads c" "reads_done (send b c) = reads_done c" "conn_id (send b c) = conn_id c"
  by (simp_all add: send_def)

lemma update_partial_simps [simp]:
  "conn_parser (update_partial env c) = conn_parser c" "reads_done (update_partial env c) = reads_done c"
  "conn_id (update_partial env c) = conn_id c"
  by (simp_all add: update_partial_def split: option.splits)

text \<open>The timer runs exactly while bytes of an unfinished frame are buffered.\<close>

definition timer_ok :: "conn_state \<Rightarrow> bool" where
  "timer_ok c \<longleftrightarrow> (partial_since c = None \<longleftrightarrow> buffered_size (conn_parser c) = 0)"

lemma new_conn_ok: "timer_ok (new_conn conn cfg)"
  by (simp add: timer_ok_def new_conn_def client_parser_def RespParser_def buffered_size_def)

lemma update_partial_ok: "timer_ok (update_partial env c)"
  by (auto simp: timer_ok_def update_partial_def split: option.splits)

lemma round_continues:
  assumes "client_round env c s = (Continue, c', s')"
  obtains data out p where "client_data (conn_id c) (conn_parser c) data (others env (reads_done c) s) = (out, Continue, p, s')"
    "c' = send out (update_partial env ((snd (partial_remaining env (config s) c))\<lparr>reads_done := Suc (reads_done c), conn_parser := p\<rparr>))"
    "incoming env (reads_done c) (Some (case fst (partial_remaining env (config s) c) of
       None \<Rightarrow> cfg_client_idle_timeout_sec (config s)
     | Some r \<Rightarrow> float_min (cfg_client_idle_timeout_sec (config s)) r)) = ReadData data"
    "\<And>r. fst (partial_remaining env (config s) c) = Some r \<Longrightarrow> \<not> float_nonpos r"
proof -
  obtain rem c1 where pr: "partial_remaining env (config s) c = (rem, c1)" by fastforce
  then have c1: "reads_done c1 = reads_done c" "conn_id c1 = conn_id c" "conn_parser c1 = conn_parser c"
    by (auto simp: partial_remaining_def split: option.splits if_splits)
  from assms pr c1 show thesis
    by (auto simp: client_round_def Let_def split: if_splits read_outcome.splits prod.splits intro: that)
qed

lemma rounds_timer_ok: "client_rounds env n c s = Some (c', s') \<Longrightarrow> timer_ok c \<Longrightarrow> timer_ok c'"
proof (induction n arbitrary: c' s')
  case (Suc n)
  from Suc.prems(1) obtain c1 s1 where "client_rounds env n c s = Some (c1, s1)" and r: "client_round env c1 s1 = (Continue, c', s')"
    by (rule client_rounds_SucE)
  from round_continues [OF r] obtain out d where "c' = send out (update_partial env d)" by metis
  then show ?case using update_partial_ok [of env d] by (simp add: timer_ok_def)
qed simp

text \<open>A connection that has bytes of an unfinished frame at the end of every round keeps its first timer.\<close>

lemma partial_rounds:
  assumes "client_rounds env (Suc n) (new_conn conn cfg) s = Some (c', s')"
    and busy: "\<forall>n c' s'. client_rounds env (Suc n) (new_conn conn cfg) s = Some (c', s') \<longrightarrow> 0 < buffered_size (conn_parser c')"
    and oth: "\<forall>i s. config (others env i s) = config s"
  shows "partial_since c' = Some (monotonic env 0) \<and> clock_reads c' = Suc n \<and> config s' = config s"
  using assms(1)
proof (induction n arbitrary: c' s')
  case 0
  then have r: "client_round env (new_conn conn cfg) s = (Continue, c', s')"
    by (auto split: prod.splits verdict.splits)
  have b: "0 < buffered_size (conn_parser c')" using busy 0 by blast
  from round_continues [OF r] obtain data out p where
    1: "client_data (conn_id (new_conn conn cfg)) (conn_parser (new_conn conn cfg)) data
      (others env (reads_done (new_conn conn cfg)) s) = (out, Continue, p, s')"
    and 2: "c' = send out (update_partial env ((snd (partial_remaining env (config s) (new_conn conn cfg)))
      \<lparr>reads_done := Suc (reads_done (new_conn conn cfg)), conn_parser := p\<rparr>))" by metis
  have "config s' = config s" using config_frame.frame_data [OF 1] oth by simp
  moreover have "0 < buffered_size p" using b 2 by simp
  ultimately show ?case by (simp add: 2 partial_remaining_def new_conn_def update_partial_def)
next
  case (Suc n)
  from Suc.prems obtain c1 s1 where 0: "client_rounds env (Suc n) (new_conn conn cfg) s = Some (c1, s1)"
    and r: "client_round env c1 s1 = (Continue, c', s')"
    by (rule client_rounds_SucE)
  have c1: "partial_since c1 = Some (monotonic env 0)" "clock_reads c1 = Suc n" "config s1 = config s"
    using Suc.IH [OF 0] by simp_all
  have b: "0 < buffered_size (conn_parser c')" "0 < buffered_size (conn_parser c1)" using busy 0 Suc.prems by blast+
  from round_continues [OF r] obtain data out p where
    1: "client_data (conn_id c1) (conn_parser c1) data (others env (reads_done c1) s1) = (out, Continue, p, s')"
    and 2: "c' = send out (update_partial env ((snd (partial_remaining env (config s1) c1))
      \<lparr>reads_done := Suc (reads_done c1), conn_parser := p\<rparr>))" by metis
  have "config s' = config s" using config_frame.frame_data [OF 1] oth c1 by simp
  moreover have "0 < buffered_size p" using b(1) 2 by simp
  ultimately show ?case using b(2) c1 by (simp add: 2 partial_remaining_def update_partial_def)
qed

text \<open>C9: A client that never lets its input buffer run empty is disconnected: when some bytes of an
  unfinished frame are left over after every read, the connection loop ends as soon as the
  monotonic clock has passed the first such moment by \<open>partial_timeout_sec\<close> (at its \<open>i\<close>-th later reading),
  whatever else happens on the server meanwhile; unless it ended before, it answers with the timeout
  error and closes. The timer is not restarted when a frame is completed, so this also hits a client
  all of whose frames arrive in time.\<close>

theorem partial_frame_times_out:
  assumes busy: "\<forall>n c' s'. client_rounds env (Suc n) (new_conn conn cfg) s = Some (c', s') \<longrightarrow> 0 < buffered_size (conn_parser c')"
    and oth: "\<forall>i s. config (others env i s) = config s"
    and clk: "0 < i" "float_nonpos (float_sub (cfg_partial_timeout_sec (config s)) (float_sub (monotonic env i) (monotonic env 0)))"
  shows "\<exists>v c' s'. client_loop env (new_conn conn cfg) s = Some (v, c', s') \<and> v \<noteq> Continue
    \<and> (client_rounds env i (new_conn conn cfg) s \<noteq> None \<longrightarrow> v = Close \<and> (\<exists>c1. c' = timed_out (config s) c1))"
proof (cases "client_rounds env i (new_conn conn cfg) s")
  case None
  with client_loop_ends [OF None] show ?thesis by auto
next
  case (Some cs)
  obtain c1 s1 where cs: "cs = (c1, s1)" by fastforce
  obtain n where n: "i = Suc n" using clk(1) by (cases i) auto
  have at: "client_rounds env (Suc n) (new_conn conn cfg) s = Some (c1, s1)" using Some cs n by simp
  have b: "0 < buffered_size (conn_parser c1)" using busy at by blast
  from partial_rounds [OF at busy oth] have c1: "partial_since c1 = Some (monotonic env 0)" "clock_reads c1 = i"
    "config s1 = config s" by (simp_all add: n)
  have "client_round env c1 s1 = (Close, timed_out (config s) (c1\<lparr>clock_reads := Suc i\<rparr>), s1)"
    using c1 b clk(2) by (simp add: client_round_def partial_remaining_def)
  from client_loop_last [OF Some [unfolded cs] this] show ?thesis by blast
qed

text \<open>A client that pipelines \<open>PING\<close>s so that every read ends with the first byte of the next one.\<close>

definition chatty :: conn_env where
  "chatty =
     \<lparr>incoming = (\<lambda>k timeout. ReadData ((if k = 0 then [CHR ''*''] else []) @ tl (encode_command [''PING'']) @ [CHR ''*''])),
      monotonic = (\<lambda>i. Finite (int i) 0), others = (\<lambda>i s. s)\<rparr>"

lemma chatty_feed:
  assumes "p = (client_parser default_config)\<lparr>buf := b\<rparr>" and "b @ d = encode_command [''PING''] @ [CHR ''*'']"
  shows "feed p d = (Inr [command_msg [''PING'']], p\<lparr>buf := [CHR ''*'']\<rparr>)"
proof -
  let ?p = "client_parser default_config"
  have fits: "command_fits p [''PING'']"
    using assms(1) by (auto simp: command_fits_iff client_parser_def default_config_def RespParser_def intro!: size_ok_parser)
  have "length (encode_command [''PING''] @ [CHR ''*'']) \<le> 100" by code_simp
  then have lim: "int (length (buf p) + length d) \<le> max_buffer_bytes p"
    using arg_cong [OF assms(2), of length] assms(1) by (simp add: client_parser_def default_config_def RespParser_def)
  have "parse_at p [CHR ''*''] = Inr (PNone, 0)"
    by (simp add: parse_at_def assms(1) client_parser_def RespParser_def default_config_def try_parse.simps parse_array_def
        read_line_def find_crlf_def)
  then have "drain_at p ([CHR ''*'']) ms = (Inr ms, [CHR ''*''])" for ms by (rule resp.drain_incomplete)
  then have "drain_at p (b @ d) [] = (Inr [command_msg [''PING'']], [CHR ''*''])"
    using drain_commands [of "[[''PING'']]" p "[CHR ''*'']" "[]"] fits assms(2) by simp
  with feed_within_limit [OF lim] assms(1) show ?thesis by simp
qed

lemma chatty_rounds:
  "client_rounds chatty n (new_conn 1 default_config) s = Some (c, s') \<Longrightarrow>
   reads_done c = n \<and> conn_parser c = (client_parser default_config)\<lparr>buf := if n = 0 then [] else [CHR ''*'']\<rparr>"
proof (induction n arbitrary: c s')
  case 0
  then show ?case by (auto simp: new_conn_def client_parser_def RespParser_def)
next
  case (Suc n)
  obtain c1 s1 where c1: "client_rounds chatty n (new_conn 1 default_config) s = Some (c1, s1)"
    and r: "client_round chatty c1 s1 = (Continue, c, s')" using client_rounds_SucE [OF Suc.prems] by blast
  let ?b = "if n = 0 then [] else [CHR ''*'']" and ?d = "(if n = 0 then [CHR ''*''] else []) @ tl (encode_command [''PING'']) @ [CHR ''*'']"
  note IH = Suc.IH [OF c1]
  from round_continues [OF r] obtain data out p where
    1: "client_data (conn_id c1) (conn_parser c1) data (others chatty (reads_done c1) s1) = (out, Continue, p, s')"
    and 2: "c = send out (update_partial chatty ((snd (partial_remaining chatty (config s1) c1))
      \<lparr>reads_done := Suc (reads_done c1), conn_parser := p\<rparr>))"
    and 3: "\<exists>t. incoming chatty (reads_done c1) t = ReadData data" by metis
  have d: "data = ?d" using 3 IH by (simp add: chatty_def)
  have "CHR ''*'' # tl (encode_command [''PING'']) = encode_command [''PING'']" by code_simp
  then have "?b @ ?d = encode_command [''PING''] @ [CHR ''*'']" by (cases "n = 0") simp_all
  then have "feed (conn_parser c1) data = (Inr [command_msg [''PING'']], (conn_parser c1)\<lparr>buf := [CHR ''*'']\<rparr>)"
    using chatty_feed [of "conn_parser c1" ?b ?d] IH d by simp
  moreover have "data \<noteq> []" using d by simp
  ultimately have "p = (conn_parser c1)\<lparr>buf := [CHR ''*'']\<rparr>"
    using 1 by (auto simp: client_data_def Let_def split: prod.splits)
  with 2 IH show ?case by simp
qed

theorem partial_frame_times_out_witness:
  "\<exists>v c' s'. client_loop chatty (new_conn 1 default_config) (sample_server default_config) = Some (v, c', s') \<and> v \<noteq> Continue"
proof -
  have "0 < buffered_size (conn_parser c')"
    if "client_rounds chatty (Suc n) (new_conn 1 default_config) (sample_server default_config) = Some (c', s')" for n c' s'
    using chatty_rounds [OF that] by (simp add: buffered_size_def)
  moreover have "float_nonpos (float_sub (Finite 30 0) (float_sub (Finite 30 0) (Finite 0 0)))" by code_simp
  ultimately show ?thesis
    using partial_frame_times_out [of chatty 1 default_config "sample_server default_config" 30]
    by (auto simp: chatty_def default_config_def)
qed

section \<open>Connection slots\<close>

text \<open>No handler touches the number of connected clients.\<close>

lemma save_count: "client_count (snd (save_rdb_sync s)) = client_count s"
  by (auto simp: save_rdb_sync_def dump_rdb_def write_rdb_def server_now_def on_db_def Let_def split_beta split: sum.splits)

lemma info_count: "client_count (snd (cmd_info ctx s)) = client_count s"
proof -
  have up: "client_count (snd (uptime_seconds t)) = client_count t" for t
    using uptime_frame(2) [of t] by force
  have on: "client_count (snd (on_db f t)) = client_count t" for f :: "store \<Rightarrow> 'r \<times> store" and t
    by (simp add: on_db_simps)
  obtain st s1 where 1: "on_db keyspace_stats s = (st, s1)" by fastforce
  obtain u s2 where 2: "uptime_seconds s1 = (u, s2)" by fastforce
  obtain us s3 where 3: "on_db memory_usage s2 = (us, s3)" by fastforce
  have "client_count s3 = client_count s"
    using on_db_simps(2) [of keyspace_stats s] up [of s1] on_db_simps(2) [of memory_usage s2] 1 2 3 by auto
  then show ?thesis by (auto simp: cmd_info_def 1 2 3 split: sum.splits)
qed

lemma handler_count:
  assumes "(name, h) \<in> set default_handlers"
  shows "client_count (snd (h ctx s)) = client_count s"
proof -
  have st: "client_count (snd (h' ctx s)) = client_count s" if "store_handler h'" for h'
    by (rule store_handlerE [OF that, of ctx s]) simp
  have "client_count (snd (cmd_save ctx s)) = client_count s"
    using save_count [of s] by (auto simp: cmd_save_def split: prod.splits sum.splits py_exn.splits)
  moreover have "client_count (snd (cmd_auth ctx s)) = client_count s"
    by (auto simp: cmd_auth_def authenticate_def split: option.splits sum.splits)
  moreover have "client_count (snd (cmd_psync ctx s)) = client_count s"
    by (auto simp: cmd_psync_def handle_psync_def split: prod.splits sum.splits)
  moreover have "client_count (snd (cmd_bgsave ctx s)) = client_count s" "client_count (snd (cmd_bgrewriteaof ctx s)) = client_count s"
    by (simp_all add: cmd_bgsave_def cmd_bgrewriteaof_def schedule_bgsave_def schedule_aof_rewrite_def)
  moreover have "client_count (snd (cmd_get ctx s)) = client_count s" "client_count (snd (cmd_hgetall ctx s)) = client_count s"
    "client_count (snd (cmd_ttl ctx s)) = client_count s" "client_count (snd (cmd_dbsize ctx s)) = client_count s"
    by (simp_all add: cmd_get_def cmd_hgetall_def cmd_ttl_def cmd_dbsize_def store_call_snd on_db_def split_beta Let_def)
  moreover have "snd (cmd_ping ctx s) = s" "snd (cmd_echo ctx s) = s" "snd (cmd_select ctx s) = s"
    "snd (cmd_command ctx s) = s" "snd (cmd_config ctx s) = s" "snd (cmd_replconf ctx s) = s"
    by (simp_all add: cmd_ping_def cmd_echo_def cmd_select_def cmd_command_def cmd_config_def cmd_replconf_def Let_def
        split: option.splits)
  ultimately show ?thesis
    using assms info_count [of ctx s] store_call_handlers [THEN st] total_handlers [THEN st] st [OF hset_handler]
    by (auto simp: default_handlers_def)
qed

lemma dispatch_count: "client_count (snd (dispatch create_default_registry ctx s)) = client_count s"
proof (cases "argv ctx")
  case (Cons name args)
  show ?thesis
  proof (cases "reg_get create_default_registry name")
    case (Some h)
    then have "(py_upper name, h) \<in> set default_handlers"
      using dict_get_SomeD by (fastforce simp: reg_get_def create_default_registry_eq)
    from handler_count [OF this] Cons Some show ?thesis by (simp add: dispatch_def)
  qed (simp add: dispatch_def Cons)
qed (simp add: dispatch_def)

interpretation count_frame: command_frame client_count
  by unfold_locales (simp_all add: dispatch_count)

lemma round_conn_id: "client_round env c s = (v, c', s') \<Longrightarrow> conn_id c' = conn_id c"
  by (auto simp: client_round_def Let_def partial_remaining_def timed_out_def send_protocol_error_def
      split: if_splits prod.splits read_outcome.splits option.splits sum.splits)

lemma loop_conn_id: "client_loop env c s = Some r \<Longrightarrow> conn_id (fst (snd r)) = conn_id c"
  by (erule client_loop_induct) (auto dest: round_conn_id)

lemma unregistered: "dict_get (replicas (unregister conn m)) conn = None"
  by (simp add: unregister_def update_link_def dict_simps split: option.splits)

lemma finish_client_closes:
  assumes "finish_client env v c s = Some (out, e, s')" and "\<And>i s. client_count (others env i s) = client_count s"
  shows "\<exists>s1. s' = close_client (conn_id c) s1 \<and> client_count s1 = client_count s"
  using assms count_frame.frame_hold [OF assms(2)]
  by (auto simp: finish_client_def split: verdict.splits py_exn.splits)

text \<open>C22: However a connection ends (end of file, idle or partial-frame timeout, protocol error, too many
  wrong passwords, a replica that goes away, an exception in a command), the slot it took is given
  back: the number of connected clients is what it was before, the connection is no longer among
  the open writers, the authenticated connections and the replicas. A connection over the limit is
  refused and takes no slot, and no connection ever makes the count exceed \<open>max_clients\<close>.\<close>

theorem connection_slot_returned:
  assumes h: "handle_client env s = Some (out, e, s')" and oth: "\<And>i s. client_count (others env i s) = client_count s"
    and conn: "conn = Suc (conn_seq s)"
  shows "client_count s' = client_count s
    \<and> (int (client_count s) < cfg_max_clients (config s) \<longrightarrow>
         conn \<notin> open_writers s' \<and> conn \<notin> authenticated s' \<and> dict_get (authentication_failures s') conn = None
         \<and> dict_get (replicas (master s')) conn = None \<and> int (client_count (snd (accept_client s))) \<le> cfg_max_clients (config s))
    \<and> (\<not> int (client_count s) < cfg_max_clients (config s) \<longrightarrow> rejected_connections s' = Suc (rejected_connections s))"
proof (cases "int (client_count s) < cfg_max_clients (config s)")
  case True
  obtain s1 where a: "accept_client s = (Inr conn, s1)" and s1: "client_count s1 = Suc (client_count s)"
    using True conn by (simp add: accept_client_def)
  from h a obtain v c s2 where l: "client_loop env (new_conn conn (config s1)) s1 = Some (v, c, s2)"
    and f: "finish_client env v c s2 = Some (out, e, s')" by (auto simp: handle_client_def bind_eq_Some_conv)
  have c: "conn_id c = conn" using loop_conn_id [OF l] by (simp add: new_conn_def)
  from finish_client_closes [OF f oth] obtain s3 where s': "s' = close_client conn s3" and "client_count s3 = client_count s2"
    by (auto simp: c)
  moreover have "client_count s2 = client_count s1" using count_frame.frame_loop [OF oth l] by simp
  ultimately show ?thesis using True a s1 unregistered by (auto simp: close_client_def dict_simps)
next
  case False
  then show ?thesis using h by (auto simp: handle_client_def accept_client_def split: sum.splits)
qed

text \<open>A client that connects and hangs up.\<close>

definition hang_up :: conn_env where
  "hang_up = \<lparr>incoming = (\<lambda>k timeout. ReadData []), monotonic = (\<lambda>i. Finite (int i) 0), others = (\<lambda>i s. s)\<rparr>"

theorem connection_slot_returned_witness:
  "\<exists>s'. handle_client hang_up (sample_server default_config) = Some ([], None, s')
     \<and> client_count s' = client_count (sample_server default_config) \<and> 1 \<notin> open_writers s'"
proof -
  let ?s = "sample_server default_config"
  have s: "client_count ?s = 0" "conn_seq ?s = 0" "cfg_max_clients default_config = 1000"
    by (simp_all add: sample_server_def RedisServer_def default_config_def)
  let ?s1 = "snd (accept_client ?s)"
  have "client_round hang_up (new_conn 1 (config ?s1)) ?s1
      = (Close, (new_conn 1 (config ?s1))\<lparr>reads_done := 1, conn_parser := client_parser (config ?s1), partial_since := None\<rparr>, ?s1)"
    by (simp add: client_round_def partial_remaining_def new_conn_def hang_up_def client_data_def update_partial_def
        send_def buffered_size_def client_parser_def RespParser_def)
  from client_loop_last [where n = 0, OF _ this] have "\<exists>s'. handle_client hang_up ?s = Some ([], None, s')"
    using s by (simp add: handle_client_def accept_client_def finish_client_def new_conn_def)
  then obtain s' where h: "handle_client hang_up ?s = Some ([], None, s')" ..
  have "client_count (others hang_up i t) = client_count t" for i t by (simp add: hang_up_def)
  from connection_slot_returned [OF h this refl] s h show ?thesis by simp
qed

end
