(* ===== verification/Lifecycle.thy ===== *)
theory Lifecycle
  imports Connection Network
begin

text \<open>
  The life of the process: \<open>start\<close> and \<open>stop\<close> of \<open>byo_redis/server.py\<close> and \<open>_run\<close> and \<open>main\<close> of
  \<open>byo_redis/cli.py\<close>. A node is the server with what exists only while it runs: the listening socket,
  the background tasks in the event loop, the link to a master, and threads that outlive the task that
  started them. What the operating system answers to the calls that
  can fail is given by an environment.
\<close>

section \<open>Start\<close>

datatype bg_task = ReplicaTask | ActiveExpire | PeriodicSave
datatype task_state = Running | Cancelling | Finished

text \<open>
  \<open>loop_tasks\<close> are the tasks the event loop was given, in order of creation; \<open>bg_tasks\<close> is the server's list,
  with the positions of its tasks in \<open>loop_tasks\<close>, and \<open>replica_task\<close> the task of its \<open>ReplicaClient\<close>.
  \<open>save_threads\<close> are the snapshots that worker threads of \<open>asyncio.to_thread\<close> still write although no task
  waits for them any more.
\<close>

record node =
  srv :: server
  listening :: bool
  loop_tasks :: "(bg_task \<times> task_state) list"
  bg_tasks :: "nat list"
  replica_task :: "nat option"
  save_threads :: "bytes list"

definition new_node :: "server \<Rightarrow> node" where
  "new_node s = \<lparr>srv = s, listening = False, loop_tasks = [], bg_tasks = [], replica_task = None, save_threads = []\<rparr>"

text \<open>\<open>self._bg_tasks.append(asyncio.create_task(...))\<close>.\<close>

definition create_task :: "bg_task \<Rightarrow> node \<Rightarrow> node" where
  "create_task k n =
     n\<lparr>loop_tasks := loop_tasks n @ [(k, Running)], bg_tasks := bg_tasks n @ [length (loop_tasks n)]\<rparr>"

text \<open>\<open>task.cancel()\<close> and \<open>await task\<close>. The background tasks are endless loops that end when they are cancelled,
  so waiting for one that was not cancelled does not return.\<close>

definition cancel_task :: "nat \<Rightarrow> node \<Rightarrow> node" where
  "cancel_task i n =
     (let (k, st) = loop_tasks n ! i
      in n\<lparr>loop_tasks := (loop_tasks n)[i := (k, if st = Running then Cancelling else st)]\<rparr>)"

definition await_task :: "nat \<Rightarrow> node \<Rightarrow> node option" where
  "await_task i n =
     (if i < length (loop_tasks n) \<and> snd (loop_tasks n ! i) = Running then None
      else Some (n\<lparr>loop_tasks := (loop_tasks n)[i := (fst (loop_tasks n ! i), Finished)]\<rparr>))"

fun await_tasks :: "nat list \<Rightarrow> node \<Rightarrow> node option" where
  "await_tasks [] n = Some n"
| "await_tasks (i # is) n = Option.bind (await_task i n) (await_tasks is)"

record start_env =
  ip_mapped :: bool
  mkdir_result :: "pystr + unit"
  open_result :: "pystr + unit"
  bind_result :: "pystr + unit"

text \<open>The background tasks of every server, in the order they are created.\<close>

definition start_tasks :: "config \<Rightarrow> bg_task list" where
  "start_tasks cfg =
     ActiveExpire # (if cfg_rdb_save_seconds cfg > 0 then [PeriodicSave] else [])"

text \<open>\<open>ReplicaClient.start\<close>, whose task joins the others, and \<open>ReplicaClient.stop\<close>; the finished task stays in
  the list until \<open>stop\<close> of the server clears it.\<close>

definition replica_start :: "node \<Rightarrow> node" where
  "replica_start n = (create_task ReplicaTask n)\<lparr>replica_task := Some (length (loop_tasks n))\<rparr>"

definition replica_stop :: "nat \<Rightarrow> node \<Rightarrow> node option" where
  "replica_stop i n =
     map_option (\<lambda>n1. n1\<lparr>replica_task := None, srv := (srv n1)\<lparr>replica_link_status := lit ''down''\<rparr>\<rparr>)
       (await_task i (cancel_task i n))"

text \<open>The second half of \<open>start\<close>: listen, and create the tasks.\<close>

definition begin_serving :: "start_env \<Rightarrow> node \<Rightarrow> unit res \<times> node" where
  "begin_serving env n =
     (let cfg = config (srv n)
      in case bind_result env of
           Inl m \<Rightarrow> (Inl (OSError m), n)
         | Inr _ \<Rightarrow>
             if is_replica cfg \<and> (cfg_replicaof_host cfg \<in> {None, Some []} \<or> cfg_replicaof_port cfg \<in> {None, Some 0})
             then (Inl AssertionError, n\<lparr>listening := True\<rparr>)
             else
               (let n1 = n\<lparr>listening := True\<rparr>; n2 = (if is_replica cfg then replica_start n1 else n1);
                    n3 = fold create_task (start_tasks cfg) n2
                in (Inr (), n3\<lparr>srv := (srv n3)\<lparr>started := True\<rparr>\<rparr>)))"

text \<open>The log is opened, and its writer started, once the files are loaded.\<close>

definition open_log :: "start_env \<Rightarrow> server \<Rightarrow> unit res \<times> server" where
  "open_log env s =
     (case (if aof_enabled (aof s) then open_result env else Inr ()) of
        Inl m \<Rightarrow> (Inl (OSError m), s)
      | Inr _ \<Rightarrow> (Inr (), s\<lparr>aof := start_background_fsync (aof_open (aof s))\<rparr>))"

definition start :: "start_env \<Rightarrow> node \<Rightarrow> unit res \<times> node" where
  "start env n =
     (if started (srv n) then (Inr (), n)
      else
        (case validate_network_security (ip_mapped env) (config (srv n)) of
           Inl _ \<Rightarrow> (Inl ValueError, n)
         | Inr _ \<Rightarrow>
             (let (now, s1) = server_now (srv n); s2 = s1\<lparr>started_at := now\<rparr>
              in case mkdir_result env of
                   Inl m \<Rightarrow> (Inl (OSError m), n\<lparr>srv := s2\<rparr>)
                 | Inr _ \<Rightarrow>
                     (case load_persistence s2 of
                        (Inl e, s3) \<Rightarrow> (Inl e, n\<lparr>srv := s3\<rparr>)
                      | (Inr _, s3) \<Rightarrow>
                          (case open_log env s3 of
                             (Inl e, s4) \<Rightarrow> (Inl e, n\<lparr>srv := s4\<rparr>)
                           | (Inr _, s4) \<Rightarrow> begin_serving env (n\<lparr>srv := s4\<rparr>))))))"

section \<open>Background tasks\<close>

text \<open>\<open>bgsave\<close>: start a save, or join the one under way; either way the save is over when it returns.\<close>

definition bgsave :: "server \<Rightarrow> server" where
  "bgsave s = bgsave_worker (snd (schedule_bgsave s))"

text \<open>One round of \<open>_active_expire_loop\<close> and of \<open>_periodic_save_loop\<close>, after the sleep.\<close>

definition active_expire_round :: "bytes list \<Rightarrow> server \<Rightarrow> server" where
  "active_expire_round sample s = s\<lparr>db := snd (active_expire_cycle 20 sample (db s))\<rparr>"

definition periodic_save_round :: "server \<Rightarrow> server" where
  "periodic_save_round s = bgsave s"

lemma background_rounds_inv:
  assumes "store_inv (db s)"
  shows "store_inv (db (active_expire_round sample s))" "store_inv (db (periodic_save_round s))"
proof -
  show "store_inv (db (active_expire_round sample s))"
    unfolding active_expire_round_def by (rule server_step_inv [OF step_active_expiry assms])
  have "store_inv (db (snd (schedule_bgsave s)))" using assms by (simp add: schedule_bgsave_def)
  then show "store_inv (db (periodic_save_round s))"
    unfolding periodic_save_round_def bgsave_def bgsave_worker_def by (intro server_step_inv [OF step_bgsave])
qed

section \<open>Stop\<close>

text \<open>
  \<open>rewrite_outcome\<close> tells how a rewrite under way ends, \<open>in_flight\<close> what the client tasks still do with
  input they have already read. \<open>Server.wait_closed\<close>, which \<open>stop\<close> awaits before it closes the client
  connections, waits for them from Python 3.12.1 on (\<open>waits_for_clients\<close>); \<open>clients_leave\<close> says that the
  clients hang up by themselves. \<open>None\<close> means that \<open>stop\<close> does not return.
\<close>

record stop_env =
  rewrite_outcome :: replace_outcome
  in_flight :: "server \<Rightarrow> server"
  waits_for_clients :: bool
  clients_leave :: bool

text \<open>
  Cancelling a background save ends its task at the \<open>await\<close> it has reached. A thread that is encoding is
  ignored; one that is writing the file goes on, and nobody waits for it.
\<close>

definition cancel_bgsave :: "node \<Rightarrow> node" where
  "cancel_bgsave n =
     n\<lparr>srv := (srv n)\<lparr>bgsave_phase := SaveIdle\<rparr>,
       save_threads := save_threads n @ (case bgsave_phase (srv n) of SaveWriting payload \<Rightarrow> [payload] | _ \<Rightarrow> [])\<rparr>"

text \<open>The end of the oldest such thread, which may come at any later time, and the end of all of them, which
  \<open>asyncio.run\<close> waits for before it returns. The time of the last save is not updated.\<close>

definition thread_ends :: "node \<Rightarrow> node" where
  "thread_ends n =
     (case save_threads n of
        [] \<Rightarrow> n
      | payload # rest \<Rightarrow> n\<lparr>srv := snd (write_rdb payload (srv n)), save_threads := rest\<rparr>)"

definition join_threads :: "node \<Rightarrow> node" where
  "join_threads n = (thread_ends ^^ length (save_threads n)) n"

definition end_rewrite :: "stop_env \<Rightarrow> server \<Rightarrow> server" where
  "end_rewrite env s = (if rewrite_running s then aof_rewrite_worker (rewrite_outcome env) s else s)"

definition close_clients :: "server \<Rightarrow> server" where
  "close_clients s = fold close_client (sorted_list_of_set (open_writers s)) s"

text \<open>The part of \<open>stop\<close> that ends the tasks, up to \<open>self._bg_tasks.clear()\<close>, and the rest.\<close>

definition stop_tasks :: "stop_env \<Rightarrow> node \<Rightarrow> node option" where
  "stop_tasks env n =
     Option.bind (case replica_task n of None \<Rightarrow> Some n | Some i \<Rightarrow> replica_stop i n) (\<lambda>n1.
       let n2 = cancel_bgsave n1; n3 = n2\<lparr>srv := end_rewrite env (srv n2)\<rparr>
       in map_option (\<lambda>n4. n4\<lparr>bg_tasks := []\<rparr>) (await_tasks (bg_tasks n3) (fold cancel_task (bg_tasks n3) n3)))"

definition stop :: "stop_env \<Rightarrow> node \<Rightarrow> node option" where
  "stop env n =
     Option.bind (stop_tasks env n) (\<lambda>n1.
       if listening n1 \<and> waits_for_clients env \<and> open_writers (srv n1) \<noteq> {} \<and> \<not> clients_leave env then None
       else
         (let s2 = close_clients (in_flight env (srv n1))
          in Some (n1\<lparr>listening := False, srv := s2\<lparr>aof := aof_close (aof s2), started := False\<rparr>\<rparr>)))"

section \<open>The command line program\<close>

text \<open>
  How serving ends: a signal sets the stop event, the serving task fails, or the loop has no signal
  handlers and Ctrl-C cancels \<open>_run\<close> (\<open>Interrupted\<close>); a second Ctrl-C while \<open>_run\<close> is cleaning up raises
  \<open>KeyboardInterrupt\<close> there and cuts it off (\<open>InterruptedTwice\<close>). \<open>run_end\<close> is what \<open>asyncio.run(_run(argv))\<close> does.
\<close>

datatype serve_end = Signalled | ServeFails py_exn | Interrupted | InterruptedTwice
datatype run_end = Returned int | Raises py_exn | RaisesInterrupt | Never

text \<open>
  \<open>_run\<close> after the arguments are parsed. \<open>serve\<close> is what happens from the end of \<open>start\<close> on until serving
  ends; after a second interrupt its node is what that left. When the serving task fails, in \<open>start\<close> or
  later, the \<open>finally\<close> block awaits it a second time, which raises its exception again and skips
  \<open>server.stop()\<close>. A signal during \<open>start\<close>, which cancels it half-way, is not covered.
\<close>

definition run_server :: "start_env \<Rightarrow> stop_env \<Rightarrow> (node \<Rightarrow> serve_end \<times> node) \<Rightarrow> node \<Rightarrow> run_end \<times> node" where
  "run_server env senv serve n =
     (case start env n of
        (Inl e, n1) \<Rightarrow> (Raises e, n1)
      | (Inr _, n1) \<Rightarrow>
          (case serve n1 of
             (ServeFails e, n2) \<Rightarrow> (Raises e, n2)
           | (Signalled, n2) \<Rightarrow> (case stop senv n2 of None \<Rightarrow> (Never, n2) | Some n3 \<Rightarrow> (Returned 0, n3))
           | (Interrupted, n2) \<Rightarrow> (case stop senv n2 of None \<Rightarrow> (Never, n2) | Some n3 \<Rightarrow> (RaisesInterrupt, n3))
           | (InterruptedTwice, n2) \<Rightarrow> (RaisesInterrupt, n2)))"

text \<open>
  \<open>main\<close>. \<open>parse_args\<close> ends the process itself with 0 for \<open>--help\<close> and with 2 for options it does not
  understand, and a refused value ends it with 2 as well (\<open>parser.error\<close>). \<open>early\<close> is a
  \<open>KeyboardInterrupt\<close> before the server exists; \<open>build\<close> makes the server from the configuration.
\<close>

datatype command_line = ShowHelp | BadUsage | Options args
datatype exit = ExitCode int | Uncaught py_exn | Hangs

definition main_program ::
  "(pystr \<Rightarrow> pystr) \<Rightarrow> (config \<Rightarrow> server) \<Rightarrow> start_env \<Rightarrow> stop_env \<Rightarrow> (node \<Rightarrow> serve_end \<times> node) \<Rightarrow> bool \<Rightarrow> command_line \<Rightarrow>
   exit \<times> node option" where
  "main_program resolve build env senv serve early cmdline =
     (if early then (ExitCode 0, None)
      else
        (case cmdline of
           ShowHelp \<Rightarrow> (ExitCode 0, None)
         | BadUsage \<Rightarrow> (ExitCode 2, None)
         | Options a \<Rightarrow>
             (case config_from_args resolve a of
                Inl e \<Rightarrow> (ExitCode 2, None)
              | Inr cfg \<Rightarrow>
                  (case run_server env senv serve (new_node (build cfg)) of
                     (Returned c, n) \<Rightarrow> (ExitCode c, Some (join_threads n))
                   | (Raises e, n) \<Rightarrow> (Uncaught e, Some (join_threads n))
                   | (RaisesInterrupt, n) \<Rightarrow> (ExitCode 0, Some (join_threads n))
                   | (Never, n) \<Rightarrow> (Hangs, Some n)))))"

section \<open>What a start gives\<close>

definition env_ok :: "start_env \<Rightarrow> bool" where
  "env_ok env \<longleftrightarrow> mkdir_result env = Inr () \<and> open_result env = Inr () \<and> bind_result env = Inr ()"

text \<open>The server as \<open>start\<close> hands it to \<open>_load_persistence\<close>.\<close>

definition stamped :: "server \<Rightarrow> server" where
  "stamped s = (snd (server_now s))\<lparr>started_at := fst (server_now s)\<rparr>"

lemma stamped_simps [simp]:
  "config (stamped s) = config s" "aof (stamped s) = aof s" "rdb_file (stamped s) = rdb_file s"
  "rewrite_running (stamped s) = rewrite_running s" "db (stamped s) = (db s)\<lparr>ticks := Suc (ticks (db s))\<rparr>"
  by (simp_all add: stamped_def server_now_def on_db_simps now_ms_def)

lemma fresh_stamped: "fresh (db s) \<Longrightarrow> fresh (db (stamped s))"
  by (simp add: fresh_def)

lemma start_ok:
  assumes "\<not> started (srv n)" and "validate_network_security (ip_mapped env) (config (srv n)) = Inr ()" and "env_ok env"
    and load: "load_persistence (stamped (srv n)) = (Inr (), s)"
    and cfg: "config s = config (srv n)" "\<not> is_replica (config (srv n))"
  shows "start env n = (Inr (), (fold create_task (start_tasks (config (srv n))) (n\<lparr>listening := True\<rparr>))
    \<lparr>srv := s\<lparr>aof := start_background_fsync (aof_open (aof s)), started := True\<rparr>\<rparr>)"
proof -
  obtain now s1 where sn: "server_now (srv n) = (now, s1)" by fastforce
  then have "stamped (srv n) = s1\<lparr>started_at := now\<rparr>" by (simp add: stamped_def)
  with assms sn show ?thesis
    by (simp add: start_def env_ok_def open_log_def begin_serving_def)
      (simp add: start_tasks_def create_task_def)
qed

lemma fold_create [simp]:
  "listening (fold create_task ks n) = listening n" "srv (fold create_task ks n) = srv n"
  by (induction ks arbitrary: n) (simp_all add: create_task_def)

text \<open>A server that lost its start check never listens; a started one is left alone.\<close>

lemma start_refused:
  "\<not> started (srv n) \<Longrightarrow> validate_network_security (ip_mapped env) (config (srv n)) = Inl e \<Longrightarrow>
   start env n = (Inl ValueError, n)"
  by (simp add: start_def)

lemma start_idempotent: "started (srv n) \<Longrightarrow> start env n = (Inr (), n)"
  by (simp add: start_def)

lemma load_nothing: "aof_file (aof s) = [] \<Longrightarrow> rdb_file s = None \<Longrightarrow> load_persistence s = (Inr (), s)"
  by (simp add: load_persistence_def Let_def)

section \<open>What a stop leaves\<close>

lemma close_client_frame [simp]: "db (close_client conn s) = db s" "aof (close_client conn s) = aof s"
  "open_writers (close_client conn s) = open_writers s - {conn}" "rdb_file (close_client conn s) = rdb_file s"
  by (simp_all add: close_client_def)

lemma fold_close_frame:
  "db (fold close_client cs s) = db s" "aof (fold close_client cs s) = aof s" "rdb_file (fold close_client cs s) = rdb_file s"
  "open_writers (fold close_client cs s) = open_writers s - set cs"
  by (induction cs arbitrary: s) auto

lemma close_clients_frame [simp]:
  "db (close_clients s) = db s" "aof (close_clients s) = aof s" "rdb_file (close_clients s) = rdb_file s"
  "finite (open_writers s) \<Longrightarrow> open_writers (close_clients s) = {}"
  by (simp_all add: close_clients_def fold_close_frame)

lemma aof_close_closed: "\<not> fh_open (aof_close l)" "\<not> writer_task (aof_close l)" "aof_queue (aof_close l) = []"
proof -
  have "writer_task (drain_queue l \<lparr>writer_task := False\<rparr>) = False" by simp
  then show "\<not> fh_open (aof_close l)" "\<not> writer_task (aof_close l)" "aof_queue (aof_close l) = []"
    by (auto simp: aof_close_def Let_def fsync_sync_def split: sum.splits)
qed

lemma aof_close_file: "log_ready l \<Longrightarrow> aof_file (aof_close l) = aof_file l"
  by (auto simp: aof_close_def log_ready_def drain_queue.simps [of l] fsync_sync_def Let_def split: sum.splits)

section \<open>What a stop leaves in the event loop\<close>

lemma task_frames [simp]:
  "srv (create_task k n) = srv n" "listening (create_task k n) = listening n" "replica_task (create_task k n) = replica_task n"
  "save_threads (create_task k n) = save_threads n"
  "srv (cancel_task i n) = srv n" "listening (cancel_task i n) = listening n" "bg_tasks (cancel_task i n) = bg_tasks n"
  "replica_task (cancel_task i n) = replica_task n" "save_threads (cancel_task i n) = save_threads n"
  "length (loop_tasks (cancel_task i n)) = length (loop_tasks n)"
  by (simp_all add: create_task_def cancel_task_def split_beta)

lemma await_task_frame:
  assumes "await_task i n = Some n'"
  shows "srv n' = srv n" "listening n' = listening n" "bg_tasks n' = bg_tasks n" "replica_task n' = replica_task n"
    "save_threads n' = save_threads n" "length (loop_tasks n') = length (loop_tasks n)"
  using assms by (auto simp: await_task_def split: if_splits)

text \<open>Cancelling leaves no task running that is asked for; waiting finishes it and keeps the others.\<close>

definition task_at :: "node \<Rightarrow> nat \<Rightarrow> task_state" where
  "task_at n i = snd (loop_tasks n ! i)"

lemma cancel_task_at:
  "task_at (cancel_task i n) j =
     (if j = i \<and> i < length (loop_tasks n) \<and> task_at n i = Running then Cancelling else task_at n j)"
  by (cases "i < length (loop_tasks n)"; cases "j = i")
    (simp_all add: task_at_def cancel_task_def split_beta list_update_beyond)

lemma await_task_at:
  assumes "await_task i n = Some n'"
  shows "task_at n' j = (if j = i \<and> i < length (loop_tasks n) then Finished else task_at n j)"
proof -
  have "n' = n\<lparr>loop_tasks := (loop_tasks n)[i := (fst (loop_tasks n ! i), Finished)]\<rparr>"
    using assms unfolding await_task_def by (simp split: if_splits)
  then show ?thesis
    by (cases "i < length (loop_tasks n)"; cases "j = i") (simp_all add: task_at_def list_update_beyond)
qed

lemma fold_cancel:
  "srv (fold cancel_task is n) = srv n" "listening (fold cancel_task is n) = listening n"
  "bg_tasks (fold cancel_task is n) = bg_tasks n" "replica_task (fold cancel_task is n) = replica_task n"
  "save_threads (fold cancel_task is n) = save_threads n"
  "length (loop_tasks (fold cancel_task is n)) = length (loop_tasks n)"
  by (induction "is" arbitrary: n) simp_all

lemma fold_cancel_at:
  "task_at n j \<noteq> Running \<Longrightarrow> task_at (fold cancel_task is n) j = task_at n j"
proof (induction "is" arbitrary: n)
  case (Cons i "is")
  have "task_at (cancel_task i n) j = task_at n j" using Cons.prems by (auto simp: cancel_task_at)
  with Cons show ?case by simp
qed simp

lemma fold_cancel_stops:
  "i \<in> set is \<Longrightarrow> i < length (loop_tasks n) \<Longrightarrow> task_at (fold cancel_task is n) i \<noteq> Running"
proof (induction "is" arbitrary: n)
  case (Cons k ks)
  show ?case
  proof (cases "i = k")
    case True
    then have "task_at (cancel_task k n) i \<noteq> Running" using Cons.prems(2) by (auto simp: cancel_task_at)
    from fold_cancel_at [OF this, of ks] this show ?thesis by simp
  next
    case False
    with Cons show ?thesis by simp
  qed
qed simp

lemma await_tasks_ends:
  assumes "\<And>i. i \<in> set is \<Longrightarrow> i < length (loop_tasks n) \<Longrightarrow> task_at n i \<noteq> Running"
  shows "\<exists>n'. await_tasks is n = Some n' \<and> srv n' = srv n \<and> listening n' = listening n \<and> replica_task n' = replica_task n
    \<and> save_threads n' = save_threads n \<and> length (loop_tasks n') = length (loop_tasks n)
    \<and> (\<forall>i\<in>set is. i < length (loop_tasks n) \<longrightarrow> task_at n' i = Finished)
    \<and> (\<forall>j. task_at n j = Finished \<longrightarrow> task_at n' j = Finished)"
  using assms
proof (induction "is" arbitrary: n)
  case (Cons k ks)
  obtain n1 where a: "await_task k n = Some n1" using Cons.prems [of k] by (auto simp: await_task_def task_at_def)
  note fr = await_task_frame [OF a] and at = await_task_at [OF a]
  have "task_at n1 i \<noteq> Running" if "i \<in> set ks" "i < length (loop_tasks n1)" for i
    using that Cons.prems [of i] fr(6) by (simp add: at)
  from Cons.IH [OF this] obtain n' where n': "await_tasks ks n1 = Some n'" "srv n' = srv n1" "listening n' = listening n1"
    "replica_task n' = replica_task n1" "save_threads n' = save_threads n1" "length (loop_tasks n') = length (loop_tasks n1)"
    "\<forall>i\<in>set ks. i < length (loop_tasks n1) \<longrightarrow> task_at n' i = Finished"
    "\<forall>j. task_at n1 j = Finished \<longrightarrow> task_at n' j = Finished" by blast
  then show ?case using a fr by (intro exI [of _ n']) (simp add: at)
qed simp

text \<open>The tasks that are not finished are in the server's list.\<close>

definition tasks_ok :: "node \<Rightarrow> bool" where
  "tasks_ok n \<longleftrightarrow> (\<forall>i<length (loop_tasks n). task_at n i \<noteq> Finished \<longrightarrow> i \<in> set (bg_tasks n))"

lemma replica_stop_ends:
  "\<exists>n'. replica_stop i n = Some n' \<and> srv n' = (srv n)\<lparr>replica_link_status := lit ''down''\<rparr> \<and> listening n' = listening n
     \<and> bg_tasks n' = bg_tasks n \<and> replica_task n' = None \<and> save_threads n' = save_threads n
     \<and> length (loop_tasks n') = length (loop_tasks n) \<and> (\<forall>j. task_at n j = Finished \<longrightarrow> task_at n' j = Finished)"
proof -
  let ?n1 = "cancel_task i n"
  obtain n2 where n2: "await_task i ?n1 = Some n2"
    using cancel_task_at [of i n i] by (auto simp: await_task_def task_at_def)
  show ?thesis
    using n2 await_task_frame [OF n2] await_task_at [OF n2] cancel_task_at [of i n]
    by (auto simp: replica_stop_def task_at_def)
qed

definition written_by_thread :: "server \<Rightarrow> bytes list" where
  "written_by_thread s = (case bgsave_phase s of SaveWriting payload \<Rightarrow> [payload] | _ \<Rightarrow> [])"

lemma stop_tasks_ends:
  "\<exists>n' st. stop_tasks env n = Some n' \<and> bg_tasks n' = [] \<and> replica_task n' = None \<and> listening n' = listening n
     \<and> save_threads n' = save_threads n @ written_by_thread (srv n)
     \<and> srv n' = end_rewrite env ((srv n)\<lparr>replica_link_status := st, bgsave_phase := SaveIdle\<rparr>)
     \<and> (tasks_ok n \<longrightarrow> (\<forall>i<length (loop_tasks n'). task_at n' i = Finished))"
proof -
  obtain n1 st where n1: "(case replica_task n of None \<Rightarrow> Some n | Some i \<Rightarrow> replica_stop i n) = Some n1"
    "srv n1 = (srv n)\<lparr>replica_link_status := st\<rparr>" "listening n1 = listening n" "bg_tasks n1 = bg_tasks n"
    "replica_task n1 = None" "save_threads n1 = save_threads n" "length (loop_tasks n1) = length (loop_tasks n)"
    "\<forall>j. task_at n j = Finished \<longrightarrow> task_at n1 j = Finished"
  proof (cases "replica_task n")
    case None
    show thesis by (rule that [of n "replica_link_status (srv n)"]) (simp_all add: None)
  next
    case (Some i)
    with replica_stop_ends [of i n] show thesis by (auto intro: that)
  qed
  define n3 where "n3 = (cancel_bgsave n1)\<lparr>srv := end_rewrite env (srv (cancel_bgsave n1))\<rparr>"
  define n4 where "n4 = fold cancel_task (bg_tasks n3) n3"
  have at3: "task_at n3 j = task_at n1 j" for j by (simp add: n3_def cancel_bgsave_def task_at_def)
  have "task_at n4 i \<noteq> Running" if "i \<in> set (bg_tasks n3)" "i < length (loop_tasks n4)" for i
    using fold_cancel_stops [OF that(1), of n3] that(2) by (simp add: n4_def fold_cancel)
  from await_tasks_ends [OF this] obtain n5 where n5: "await_tasks (bg_tasks n3) n4 = Some n5" "srv n5 = srv n4"
    "listening n5 = listening n4" "replica_task n5 = replica_task n4" "save_threads n5 = save_threads n4"
    "length (loop_tasks n5) = length (loop_tasks n4)"
    "\<forall>i\<in>set (bg_tasks n3). i < length (loop_tasks n4) \<longrightarrow> task_at n5 i = Finished"
    "\<forall>j. task_at n4 j = Finished \<longrightarrow> task_at n5 j = Finished" by blast
  have fin: "task_at n5 i = Finished" if ok: "tasks_ok n" and i: "i < length (loop_tasks n5)" for i
  proof (cases "i \<in> set (bg_tasks n3)")
    case True
    with n5(6,7) i show ?thesis by simp
  next
    case False
    have "bg_tasks n3 = bg_tasks n" "length (loop_tasks n5) = length (loop_tasks n)"
      using n1(4,7) n5(6) by (simp_all add: n4_def n3_def fold_cancel cancel_bgsave_def)
    then have "task_at n i = Finished" using ok False i by (auto simp: tasks_ok_def)
    then have "task_at n3 i = Finished" using n1(8) at3 by simp
    then have "task_at n4 i = Finished" using fold_cancel_at [of n3 i] by (simp add: n4_def)
    with n5(8) show ?thesis by blast
  qed
  have "bg_tasks (cancel_bgsave n1) = bg_tasks n3" by (simp add: n3_def)
  then have "stop_tasks env n = Some (n5\<lparr>bg_tasks := []\<rparr>)"
    using n5(1) unfolding stop_tasks_def n1(1) by (simp add: Let_def n3_def [symmetric] n4_def [symmetric])
  moreover have "srv n5 = end_rewrite env ((srv n)\<lparr>replica_link_status := st, bgsave_phase := SaveIdle\<rparr>)"
    "listening n5 = listening n" "replica_task n5 = None" "save_threads n5 = save_threads n @ written_by_thread (srv n)"
    using n1 n5(2-5)
    by (simp_all add: n4_def n3_def fold_cancel cancel_bgsave_def written_by_thread_def)
  ultimately show ?thesis
    using fin by (intro exI [of _ "n5\<lparr>bg_tasks := []\<rparr>"] exI [of _ st]) (simp add: task_at_def)
qed

text \<open>The nodes that occur: a new one, and what \<open>start\<close>, anything the server does, the end of a thread and \<open>stop\<close>
  make of it.\<close>

inductive node_reachable :: "node \<Rightarrow> bool" where
  nr_new: "node_reachable (new_node s)"
| nr_start: "node_reachable n \<Longrightarrow> node_reachable (snd (start env n))"
| nr_serve: "node_reachable n \<Longrightarrow> node_reachable (n\<lparr>srv := s\<rparr>)"
| nr_thread: "node_reachable n \<Longrightarrow> node_reachable (thread_ends n)"
| nr_stop: "node_reachable n \<Longrightarrow> stop env n = Some n' \<Longrightarrow> node_reachable n'"

lemma tasks_ok_frame: "tasks_ok (n\<lparr>srv := s\<rparr>) = tasks_ok n" "tasks_ok (n\<lparr>listening := b\<rparr>) = tasks_ok n"
  "tasks_ok (n\<lparr>replica_task := r\<rparr>) = tasks_ok n" "tasks_ok (n\<lparr>save_threads := ps\<rparr>) = tasks_ok n"
  by (simp_all add: tasks_ok_def task_at_def)

lemma tasks_ok_create: "tasks_ok n \<Longrightarrow> tasks_ok (create_task k n)"
  by (auto simp: tasks_ok_def create_task_def task_at_def nth_append less_Suc_eq split: if_splits)

lemma tasks_ok_creates: "tasks_ok n \<Longrightarrow> tasks_ok (fold create_task ks n)"
  by (induction ks arbitrary: n) (simp_all add: tasks_ok_create)

lemma tasks_ok_start: "tasks_ok n \<Longrightarrow> tasks_ok (snd (start env n))"
  by (auto simp: start_def begin_serving_def open_log_def replica_start_def Let_def tasks_ok_frame
      intro!: tasks_ok_creates tasks_ok_create split: sum.splits prod.splits)

lemma node_reachable_tasks: "node_reachable n \<Longrightarrow> tasks_ok n"
proof (induction rule: node_reachable.induct)
  case (nr_thread n)
  then show ?case by (auto simp: thread_ends_def tasks_ok_frame split: list.splits)
next
  case (nr_stop n env n')
  obtain n1 where n1: "stop_tasks env n = Some n1" "\<forall>i<length (loop_tasks n1). task_at n1 i = Finished"
    using stop_tasks_ends [of env n] nr_stop.IH by blast
  then show ?case using nr_stop.hyps(2) by (auto simp: stop_def Let_def tasks_ok_def task_at_def split: if_splits)
next
  case (nr_new s)
  show ?case by (simp add: new_node_def tasks_ok_def)
qed (simp_all add: tasks_ok_frame tasks_ok_start)

lemma rewrite_writers: "open_writers (end_rewrite env s) = open_writers s"
  by (simp add: end_rewrite_def aof_rewrite_worker_def server_now_def on_db_def Let_def split_beta)

text \<open>\<open>stop\<close> does not return while the runtime waits for connected clients that do not leave, and otherwise
  returns: every task it waits for was cancelled.\<close>

lemma stop_hangs:
  "stop env n = None \<longleftrightarrow> listening n \<and> waits_for_clients env \<and> open_writers (srv n) \<noteq> {} \<and> \<not> clients_leave env"
proof -
  obtain n1 st where "stop_tasks env n = Some n1" "listening n1 = listening n"
    "srv n1 = end_rewrite env ((srv n)\<lparr>replica_link_status := st, bgsave_phase := SaveIdle\<rparr>)"
    using stop_tasks_ends [of env n] by blast
  then show ?thesis by (simp add: stop_def Let_def rewrite_writers)
qed

lemma stopE:
  assumes "stop env n = Some n'"
  obtains n1 st where "listening n1 = listening n" "bg_tasks n1 = []" "replica_task n1 = None"
    "save_threads n1 = save_threads n @ written_by_thread (srv n)"
    "srv n1 = end_rewrite env ((srv n)\<lparr>replica_link_status := st, bgsave_phase := SaveIdle\<rparr>)"
    "tasks_ok n \<longrightarrow> (\<forall>i<length (loop_tasks n1). task_at n1 i = Finished)"
    "n' = n1\<lparr>listening := False,
       srv := (close_clients (in_flight env (srv n1)))
         \<lparr>aof := aof_close (aof (in_flight env (srv n1))), started := False\<rparr>\<rparr>"
proof -
  obtain n1 st where n1: "stop_tasks env n = Some n1" "listening n1 = listening n" "bg_tasks n1 = []" "replica_task n1 = None"
    "save_threads n1 = save_threads n @ written_by_thread (srv n)"
    "srv n1 = end_rewrite env ((srv n)\<lparr>replica_link_status := st, bgsave_phase := SaveIdle\<rparr>)"
    "tasks_ok n \<longrightarrow> (\<forall>i<length (loop_tasks n1). task_at n1 i = Finished)"
    using stop_tasks_ends [of env n] by blast
  show thesis
  proof (rule that [OF n1(2-7)])
    show "n' = n1\<lparr>listening := False, srv := (close_clients (in_flight env (srv n1)))
        \<lparr>aof := aof_close (aof (in_flight env (srv n1))), started := False\<rparr>\<rparr>"
      using assms n1(1) by (simp add: stop_def Let_def split: if_splits)
  qed
qed

lemma stop_log:
  assumes "stop env n = Some n'" and "\<And>s. in_flight env s = s" and "\<not> rewrite_running (srv n)"
  shows "aof (srv n') = aof_close (aof (srv n))"
  by (rule stopE [OF assms(1)]) (simp add: assms(2,3) end_rewrite_def)

lemma rewrite_ends: "\<not> rewrite_running (end_rewrite env s)" "bgsave_phase (end_rewrite env s) = bgsave_phase s"
  "rdb_file (end_rewrite env s) = rdb_file s"
  by (simp_all add: end_rewrite_def aof_rewrite_worker_def server_now_def on_db_def Let_def split_beta)

lemma close_clients_jobs:
  "bgsave_phase (close_clients s) = bgsave_phase s" "rewrite_running (close_clients s) = rewrite_running s"
proof -
  have "bgsave_phase (fold close_client cs s) = bgsave_phase s \<and> rewrite_running (fold close_client cs s) = rewrite_running s" for cs
    by (induction cs arbitrary: s) (simp_all add: close_client_def)
  then show "bgsave_phase (close_clients s) = bgsave_phase s" "rewrite_running (close_clients s) = rewrite_running s"
    by (simp_all add: close_clients_def)
qed

text \<open>A node that is shut down: nothing of it is left in the event loop, no socket is open, the log is closed.\<close>

definition shut_down :: "node \<Rightarrow> bool" where
  "shut_down n \<longleftrightarrow>
     \<not> listening n \<and> bg_tasks n = [] \<and> (\<forall>t\<in>set (loop_tasks n). snd t = Finished) \<and> replica_task n = None
     \<and> \<not> started (srv n) \<and> open_writers (srv n) = {}
     \<and> \<not> fh_open (aof (srv n)) \<and> \<not> writer_task (aof (srv n)) \<and> aof_queue (aof (srv n)) = []"

lemma stopped:
  assumes "node_reachable n" and "stop env n = Some n'"
    and "finite (open_writers (srv n))" and "\<And>s. finite (open_writers s) \<Longrightarrow> finite (open_writers (in_flight env s))"
  shows "shut_down n'"
proof (rule stopE [OF assms(2)])
  fix n1 st
  assume n1: "bg_tasks n1 = []" "replica_task n1 = None"
    "tasks_ok n \<longrightarrow> (\<forall>i<length (loop_tasks n1). task_at n1 i = Finished)"
    and s1: "srv n1 = end_rewrite env ((srv n)\<lparr>replica_link_status := st, bgsave_phase := SaveIdle\<rparr>)"
    and n': "n' = n1\<lparr>listening := False, srv := (close_clients (in_flight env (srv n1)))
       \<lparr>aof := aof_close (aof (in_flight env (srv n1))), started := False\<rparr>\<rparr>"
  have "\<forall>t\<in>set (loop_tasks n1). snd t = Finished"
    using n1(3) node_reachable_tasks [OF assms(1)] by (simp add: task_at_def all_set_conv_all_nth)
  moreover have "finite (open_writers (in_flight env (srv n1)))"
    using assms(3,4) by (simp add: s1 rewrite_writers)
  ultimately show ?thesis using n1 n' by (simp add: shut_down_def aof_close_closed)
qed


definition quiet_stop :: stop_env where
  "quiet_stop = \<lparr>rewrite_outcome = Replaced 0, in_flight = (\<lambda>s. s),
     waits_for_clients = True, clients_leave = True\<rparr>"

section \<open>Exit\<close>

lemma thread_ends_frame:
  "listening (thread_ends n) = listening n" "loop_tasks (thread_ends n) = loop_tasks n" "bg_tasks (thread_ends n) = bg_tasks n"
  "replica_task (thread_ends n) = replica_task n" "save_threads (thread_ends n) = drop 1 (save_threads n)"
  "aof (srv (thread_ends n)) = aof (srv n)" "started (srv (thread_ends n)) = started (srv n)"
  "open_writers (srv (thread_ends n)) = open_writers (srv n)"
  by (auto simp: thread_ends_def write_rdb_def Let_def split: list.splits sum.splits)

lemma shut_down_threads: "shut_down (thread_ends n) = shut_down n"
  by (simp add: shut_down_def thread_ends_frame)

lemma join_shut_down: "shut_down n \<Longrightarrow> shut_down (join_threads n)"
proof -
  have "shut_down ((thread_ends ^^ k) n) = shut_down n" for k by (induction k) (simp_all add: shut_down_threads)
  then show "shut_down n \<Longrightarrow> shut_down (join_threads n)" by (simp add: join_threads_def)
qed

lemma join_no_threads: "save_threads (join_threads n) = []"
proof -
  have "save_threads ((thread_ends ^^ k) n) = drop k (save_threads n)" for k
    by (induction k) (simp_all add: thread_ends_frame drop_drop [symmetric] drop_Suc tl_drop [symmetric] del: drop_drop)
  then show ?thesis by (simp add: join_threads_def)
qed


section \<open>Restart\<close>

text \<open>A new process on the files another one left, with a configuration it can start with.\<close>

definition startable :: "start_env \<Rightarrow> server \<Rightarrow> bool" where
  "startable env s \<longleftrightarrow>
     env_ok env \<and> \<not> started s \<and> validate_network_security (ip_mapped env) (config s) = Inr () \<and> \<not> is_replica (config s)
     \<and> fresh (db s) \<and> cfg_aof_enabled (config s) \<and> aof_enabled (aof s) \<and> full_writes (aof s)"

lemma opened_log_ready: "aof_enabled l \<Longrightarrow> log_ready (start_background_fsync (aof_open l))"
  by (simp add: log_ready_def start_background_fsync_def aof_open_def)

lemma opened_log_frame [simp]:
  "aof_file (start_background_fsync (aof_open l)) = aof_file l"
  "full_writes (start_background_fsync (aof_open l)) = full_writes l"
  by (simp_all add: start_background_fsync_def aof_open_def full_writes_def)

lemma first_start:
  assumes "startable env s" and "aof_file (aof s) = []" and "rdb_file s = None"
  shows "\<exists>n. start env (new_node s) = (Inr (), n) \<and> fresh (db (srv n)) \<and> config (srv n) = config s
    \<and> log_ready (aof (srv n)) \<and> full_writes (aof (srv n)) \<and> aof_file (aof (srv n)) = [] \<and> listening n
    \<and> aof (srv n) = start_background_fsync (aof_open (aof s)) \<and> rewrite_running (srv n) = rewrite_running s"
proof -
  have "load_persistence (stamped s) = (Inr (), stamped s)" by (rule load_nothing) (simp_all add: assms)
  from start_ok [of "new_node s" env, OF _ _ _ _ _ _] this assms
  show ?thesis
    by (auto simp: new_node_def startable_def opened_log_ready intro: fresh_stamped [simplified])
qed

lemma log_grows:
  assumes "serving s M" and "\<forall>(conn, c)\<in>set reqs. admissible c" and "serve_requests reqs s = (rs, s')"
    and "\<forall>r\<in>set rs. \<exists>b. r = Inr b" and "failure (aof s') = None"
  shows "length (aof_file (aof (after j reqs s))) \<le> length (aof_file (aof s'))"
  by (rule requests_split [OF assms, of j]) simp

text \<open>The load of a log that was not cut restores the state at the end of the run.\<close>

lemma recovered_whole:
  assumes s: "fresh (db s)" "\<not> is_replica (config s)" "log_ready (aof s)" "full_writes (aof s)" "aof_file (aof s) = []"
    and run: "serve_requests reqs s = (rs, s')" "\<forall>r\<in>set rs. \<exists>b. r = Inr b" "failure (aof s') = None"
    and reqs: "\<forall>(conn, c)\<in>set reqs. admissible c \<and> loadable (cfg_proto_max_bulk_len (config t)) c"
    and t: "fresh (db t)" "cfg_aof_enabled (config t)" "aof_file (aof t) \<noteq> [] \<or> rdb_file t = None"
    and file': "aof_file (aof t) = aof_file (aof s')"
    and lim: "int (length (aof_file (aof t))) \<le> cfg_persistence_max_load_bytes (config t)"
      "length (aof_file (aof t)) \<le> 32000000"
  shows "\<exists>t'. load_persistence t = (Inr (), t')
    \<and> (\<forall>m\<ge>reading (db t'). \<forall>m'\<ge>reading (db s'). live m (db t') = live m' (db s'))"
proof -
  let ?n = "length (aof_file (aof s'))"
  have crash: "aof_file (aof t) = take ?n (aof_file (aof s'))" by (simp add: file')
  from recovered_after_crash [OF s run reqs t crash lim] obtain j t' where
    j: "j \<le> length reqs" "load_persistence t = (Inr (), t')"
      "j < length reqs \<longrightarrow> ?n < length (aof_file (aof (after (Suc j) reqs s)))"
      "\<forall>m\<ge>reading (db t'). \<forall>m'\<ge>reading (db (after j reqs s)). live m (db t') = live m' (db (after j reqs s))" by blast
  have "serving s (\<lambda>k. None)" using s fresh_holds by (simp add: serving_def)
  moreover have "\<forall>(conn, c)\<in>set reqs. admissible c" using reqs by auto
  ultimately have "length (aof_file (aof (after (Suc j) reqs s))) \<le> ?n" by (rule log_grows [OF _ _ run])
  with j(1,3) have "j = length reqs" by linarith
  with run(1) have "after j reqs s = s'" by simp
  with j(2,4) show ?thesis by auto
qed

lemma load_persistence_config: "config (snd (load_persistence s)) = config s"
proof -
  have one: "config (snd (apply_logged_command c t)) = config t" for c t
    using config_frame.frame_execute by (simp add: apply_logged_command_def split_beta Let_def)
  have "config (snd (apply_all apply_logged_command cs s)) = config s" for cs
    by (rule apply_all_induct [where P = "\<lambda>t. config t = config s"]) (simp_all add: one)
  then have "config (snd (replay_aof apply_logged_command f mb mx s)) = config s" for f mb mx
    by (auto simp: replay_aof_def split: sum.splits prod.splits) (metis snd_conv)+
  then show ?thesis
    by (auto simp: load_persistence_def load_rdb_into_def server_now_def on_db_def split_beta Let_def
        split: option.splits sum.splits)
qed


definition good_env :: start_env where
  "good_env = \<lparr>ip_mapped = False, mkdir_result = Inr (), open_result = Inr (), bind_result = Inr ()\<rparr>"

lemma restarted_startable: "startable good_env (restarted default_config left)"
proof -
  have "lit ''127.0.0.1'' = quad 127 0 0 1" by code_simp
  then have "validate_network_security False default_config = Inr ()"
    using quad_loopback [of 127 0 0 1 False] default_names_plain
    by (simp add: validate_network_security_def default_config_def)
  moreover have "fresh (db (restarted default_config left))" by (rule restarted_fresh)
  ultimately show ?thesis
    by (simp add: startable_def good_env_def env_ok_def)
      (simp add: restarted_def RedisServer_def AOFLog_def full_writes_def default_config_def is_replica_def)
qed

lemma set_answered:
  assumes s: "serving s M" "cfg_requirepass (config s) = None" "healthy (aof s)" and l: "aof_append [''SET'', k, v] (aof s) = (Inr (), l)"
  shows "\<exists>s'. execute conn [''SET'', k, v] s = (Inr (Some (''+OK'' @ crlf)), s') \<and> aof s' = l
    \<and> rewrite_running s' = rewrite_running s \<and> config s' = config s
    \<and> holds (db s') (M(k \<mapsto> KeyEntry STRING (VStr v) None))"
proof -
  let ?c = "[''SET'', k, v]"
  let ?ctx = "client_context conn ?c" and ?s1 = "snd (prep True s)"
  have s1: "holds (db ?s1) M" "config ?s1 = config s" "aof ?s1 = aof s" "rewrite_running ?s1 = rewrite_running s"
    using s holds_quiet [OF _ prep_frame(5) [of s True]] by (simp_all add: serving_def) (simp add: prep_def on_db_simps)
  have kv: "kv_command ?c" "upper_name ?c = ''SET''" "kv_write ?c M = (Inr (simple ''OK''), M(k \<mapsto> KeyEntry STRING (VStr v) None))"
    by (simp_all add: kv_command_def kv_write_def upper_name_def upper_names)
  obtain d where d: "dispatch create_default_registry ?ctx ?s1 = (Inr (simple ''OK''), ?s1\<lparr>db := d\<rparr>)"
    "holds d (snd (kv_write ?c M))"
    using dispatch_on_map [OF s1(1), of ?ctx] kv s s1(2) by (auto simp: client_context_def serving_def)
  let ?s2 = "?s1\<lparr>db := d\<rparr>"
  obtain s3 where p: "persist ?ctx True [] ?s2 = (Inr (), s3)" "aof s3 = l" "rewrite_running s3 = rewrite_running s"
    "config s3 = config s" "db s3 = d"
    using l s(1) s1
    by (simp add: persist_def client_context_def serving_def log_and_propagate_def log_command_def propagate_command_def)
  have "execute conn ?c s = after_dispatch ?ctx True (fst (prep True s)) (simple ''OK'') ?s2"
    using d(1) kv(2) s(2,3)
    by (simp add: execute_def execute_inner_def prep_def client_context_def WRITE_COMMANDS_def split_beta)
  also have "\<dots> = (encode_reply (simple ''OK''), s3)"
    using d(2) by (intro after_dispatch_ok [OF _ _ p(1)]) (simp_all add: holds_def simple_def)
  finally show ?thesis using p d(2) kv(3) by (simp add: ok_reply)
qed

text \<open>A started node that has answered one \<open>SET\<close>.\<close>

lemma restarted_simps:
  "aof_file (aof (restarted default_config f)) = f" "rdb_file (restarted default_config f) = None"
  "config (restarted default_config f) = default_config" "\<not> rewrite_running (restarted default_config f)"
  "open_writers (restarted default_config f) = {}"
  by (simp_all add: restarted_def RedisServer_def AOFLog_def)

lemma sample_run:
  obtains n s' l where "start good_env (new_node (restarted default_config [])) = (Inr (), n)" "listening n"
    "serve_requests [(1, [''SET'', ''k'', ''v''])] (srv n) = ([Inr (Some (''+OK'' @ crlf))], s')" "aof s' = l"
    "\<not> rewrite_running s'" "log_ready l" "failure l = None" "aof_file l = encode_command [''SET'', ''k'', ''v'']"
    "sync_marked l" "fsync_result l = (\<lambda>i. Inr 1)"
proof -
  let ?s = "restarted default_config []" and ?c = "[''SET'', ''k'', ''v'']"
  obtain n where n: "start good_env (new_node ?s) = (Inr (), n)" "fresh (db (srv n))" "config (srv n) = default_config"
    "log_ready (aof (srv n))" "full_writes (aof (srv n))" "aof_file (aof (srv n)) = []" "\<not> rewrite_running (srv n)"
    "aof (srv n) = start_background_fsync (aof_open (aof ?s))" "listening n"
    using first_start [OF restarted_startable, of "[]"] restarted_simps by auto
  have healthy: "healthy (aof (srv n))" and "\<exists>l. aof_append ?c (aof (srv n)) = (Inr (), l) \<and> sync_marked l \<and> fsync_result l = (\<lambda>i. Inr 1)"
    by (simp_all add: n(8) restarted_def RedisServer_def healthy_def append_defs start_background_fsync_def aof_open_def AOFLog_def
        sync_marked_def)
  then obtain l where l: "aof_append ?c (aof (srv n)) = (Inr (), l)" "sync_marked l" "fsync_result l = (\<lambda>i. Inr 1)" by blast
  have serving: "serving (srv n) (\<lambda>k. None)"
    using n fresh_holds by (simp add: serving_def default_config_def is_replica_def)
  from set_answered [OF this _ healthy l(1), of 1] n(3,7) obtain s' where
    s': "execute 1 ?c (srv n) = (Inr (Some (''+OK'' @ crlf)), s')" "aof s' = l" "\<not> rewrite_running s'"
    by (auto simp: default_config_def)
  note ok = aof_append_ok [OF n(4) l(1) n(5)]
  have ready: "log_ready l" using aof_append_frame [OF n(4) l(1)] by simp
  have "serve_requests [(1, ?c)] (srv n) = ([Inr (Some (''+OK'' @ crlf))], s')" using s'(1) by simp
  then show thesis by (rule that [OF n(1,9) _ s'(2,3) ready ok(2)]) (simp_all add: ok(3) n(6) l(2,3))
qed



text \<open>When the address cannot be bound, the process ends with the log open and its writer running: \<open>stop\<close> is
  never called.\<close>

lemma failed_bind_skips_stop:
  assumes "\<not> started s" and "validate_network_security (ip_mapped env) (config s) = Inr ()"
    and "mkdir_result env = Inr ()" and "open_result env = Inr ()" and "bind_result env = Inl m"
    and load: "load_persistence (stamped s) = (Inr (), s1)" and "aof_enabled (aof s1)"
  shows "\<exists>n. run_server env senv serve (new_node s) = (Raises (OSError m), n)
    \<and> fh_open (aof (srv n)) \<and> writer_task (aof (srv n)) \<and> \<not> listening n"
proof -
  obtain now s0 where sn: "server_now s = (now, s0)" by fastforce
  then have "stamped s = s0\<lparr>started_at := now\<rparr>" by (simp add: stamped_def)
  with assms sn opened_log_ready [OF assms(7)] show ?thesis
    by (simp add: run_server_def start_def open_log_def begin_serving_def new_node_def log_ready_def)
qed


end
