(* ===== verification/Replica.thy ===== *)
theory Replica
  imports Server
begin

text \<open>
  The replica's client of the replication stream, \<open>byo_redis/replication/replica.py\<close>, on the server
  it belongs to (\<open>RedisServer.start\<close> builds it from the configuration).

  The connection is seen from the replica: \<open>incoming\<close> holds the chunks its reads will return, one
  \<open>reader.read\<close> each, the end of the connection being the end of the list or an empty chunk;
  \<open>sent\<close> is what it has written. Exceptions of this component never leave it: \<open>_run\<close> logs them and
  retries, so they are their own type, one constructor per \<open>raise\<close>; \<open>Raised\<close> wraps an exception of
  a function it calls.
\<close>

section \<open>State\<close>

datatype replica_error =
    MasterClosedHandshake
  | MasterClosedSnapshot
  | MasterClosed
  | ExtraMessages
  | UnexpectedReply string pyobj
  | ExpectedFullresync pyobj
  | ExpectedRdbHeader bytes
  | BadRdbLength bytes
  | NullRdb
  | RdbOverLimit int
  | BadArgvElement
  | Raised py_exn

record replica_session =
  rparser :: resp_parser
  incoming :: "bytes list"
  sent :: bytes
  rserver :: server

type_synonym 'a action = "replica_session \<Rightarrow> (replica_error + 'a) \<times> replica_session"

definition return_act :: "'a \<Rightarrow> 'a action" where
  "return_act x s = (Inr x, s)"

definition raise_act :: "replica_error \<Rightarrow> 'a action" where
  "raise_act e s = (Inl e, s)"

definition bind_act :: "'a action \<Rightarrow> ('a \<Rightarrow> 'b action) \<Rightarrow> 'b action" where
  "bind_act m f s = (case m s of (Inl e, s1) \<Rightarrow> (Inl e, s1) | (Inr x, s1) \<Rightarrow> f x s1)"

definition lift_res :: "'a res \<Rightarrow> 'a action" where
  "lift_res r s = (case r of Inl e \<Rightarrow> (Inl (Raised e), s) | Inr x \<Rightarrow> (Inr x, s))"

section \<open>The handshake\<close>

definition send_cmd :: "bytes list \<Rightarrow> unit action" where
  "send_cmd parts s = (Inr (), s\<lparr>sent := sent s @ encode_command parts\<rparr>)"

text \<open>\<open>read_one\<close>: feed chunks to the parser until it reports a message, which must be the only one.\<close>

fun read_message :: "resp_parser \<Rightarrow> bytes list \<Rightarrow> (replica_error + pyobj) \<times> resp_parser \<times> bytes list" where
  "read_message p [] = (Inl MasterClosedHandshake, p, [])"
| "read_message p (c # cs) =
     (if c = [] then (Inl MasterClosedHandshake, p, cs)
      else
        (case feed p c of
           (Inl e, p1) \<Rightarrow> (Inl (Raised e), p1, cs)
         | (Inr msgs, p1) \<Rightarrow>
             (case msgs of
                [] \<Rightarrow> read_message p1 cs
              | [msg] \<Rightarrow> (Inr msg, p1, cs)
              | _ \<Rightarrow> (Inl ExtraMessages, p1, cs))))"

definition read_one :: "pyobj action" where
  "read_one s =
     (let (r, p, cs) = read_message (rparser s) (incoming s) in (r, s\<lparr>rparser := p, incoming := cs\<rparr>))"

definition expect :: "string \<Rightarrow> bytes \<Rightarrow> unit action" where
  "expect what word =
     bind_act read_one (\<lambda>reply.
       if reply \<noteq> PStr (lit word) \<and> reply \<noteq> PBytes word then raise_act (UnexpectedReply what reply) else return_act ())"

section \<open>The snapshot\<close>

fun ensure :: "nat \<Rightarrow> bytes \<Rightarrow> bytes list \<Rightarrow> (replica_error + bytes) \<times> bytes list" where
  "ensure n b [] = (if n \<le> length b then (Inr b, []) else (Inl MasterClosedSnapshot, []))"
| "ensure n b (c # cs) =
     (if n \<le> length b then (Inr b, c # cs)
      else if c = [] then (Inl MasterClosedSnapshot, cs)
      else ensure n (b @ c) cs)"

text \<open>The loop that looks for the end of the header; \<open>ensure(len(buf) + 1)\<close> reads one more chunk.\<close>

fun await_crlf :: "bytes \<Rightarrow> bytes list \<Rightarrow> (replica_error + nat \<times> bytes) \<times> bytes list" where
  "await_crlf b [] = (case find_crlf b 0 of Some i \<Rightarrow> (Inr (i, b), []) | None \<Rightarrow> (Inl MasterClosedSnapshot, []))"
| "await_crlf b (c # cs) =
     (case find_crlf b 0 of
        Some i \<Rightarrow> (Inr (i, b), c # cs)
      | None \<Rightarrow> if c = [] then (Inl MasterClosedSnapshot, cs) else await_crlf (b @ c) cs)"

definition rdb_header :: "int \<Rightarrow> nat \<Rightarrow> bytes \<Rightarrow> replica_error + nat" where
  "rdb_header limit i b =
     (let header = take (i - 1) (drop 1 b)
      in (case py_int header of
            None \<Rightarrow> Inl (BadRdbLength header)
          | Some n \<Rightarrow> if n < 0 then Inl NullRdb else if n > limit then Inl (RdbOverLimit n) else Inr (nat n)))"

text \<open>
  The loops over the buffer and the incoming chunks: the snapshot and the bytes behind it.
\<close>

definition receive_rdb :: "int \<Rightarrow> bytes \<Rightarrow> bytes list \<Rightarrow> (replica_error + bytes \<times> bytes) \<times> bytes list" where
  "receive_rdb limit b0 cs0 =
     (case ensure 1 b0 cs0 of
        (Inl e, cs) \<Rightarrow> (Inl e, cs)
      | (Inr b, cs) \<Rightarrow>
          if hd b \<noteq> CHR ''$'' then (Inl (ExpectedRdbHeader (take 20 b)), cs)
          else
            (case await_crlf b cs of
               (Inl e, cs1) \<Rightarrow> (Inl e, cs1)
             | (Inr (i, b1), cs1) \<Rightarrow>
                 (case rdb_header limit i b1 of
                    Inl e \<Rightarrow> (Inl e, cs1)
                  | Inr n \<Rightarrow>
                      (case ensure (i + 2 + n) b1 cs1 of
                         (Inl e, cs2) \<Rightarrow> (Inl e, cs2)
                       | (Inr b2, cs2) \<Rightarrow> (Inr (take n (drop (i + 2) b2), drop (i + 2 + n) b2), cs2)))))"

definition read_rdb_bulk :: "bytes action" where
  "read_rdb_bulk s =
     (let p = parser_reset (rparser s);
          (r, cs) = receive_rdb (cfg_persistence_max_load_bytes (config (rserver s))) (buf (rparser s)) (incoming s);
          s1 = s\<lparr>rparser := p, incoming := cs\<rparr>
      in (case r of
            Inl e \<Rightarrow> (Inl e, s1)
          | Inr (rdb, leftover) \<Rightarrow>
              if leftover = [] then (Inr rdb, s1)
              else (case feed p leftover of
                      (Inl e, p1) \<Rightarrow> (Inl (Raised e), s1\<lparr>rparser := p1\<rparr>)
                    | (Inr msgs, p1) \<Rightarrow> (Inr rdb, s1\<lparr>rparser := p1\<rparr>))))"

definition load_snapshot :: "bytes \<Rightarrow> unit action" where
  "load_snapshot rdb s =
     (let (now, srv) = server_now (rserver s)
      in (case load_rdb_bytes rdb (cfg_persistence_max_load_bytes (config srv)) now of
            Inl e \<Rightarrow> (Inl (Raised e), s\<lparr>rserver := srv\<rparr>)
          | Inr es \<Rightarrow>
              (Inr (), s\<lparr>rserver := srv\<lparr>db := load_entries es (db srv), replica_link_status := lit ''up''\<rparr>\<rparr>)))"

definition starts_fullresync :: "pyobj \<Rightarrow> bool" where
  "starts_fullresync v = (case v of PStr t \<Rightarrow> take 11 t = lit ''FULLRESYNC '' | _ \<Rightarrow> False)"

definition authenticate_to_master :: "unit action" where
  "authenticate_to_master s =
     (case cfg_masterauth (config (rserver s)) of
        None \<Rightarrow> return_act () s
      | Some pw \<Rightarrow>
          bind_act (lift_res (utf8_encode pw)) (\<lambda>b.
          bind_act (send_cmd [''AUTH'', b]) (\<lambda>_. expect ''AUTH'' ''OK'')) s)"

definition request_resync :: "unit action" where
  "request_resync =
     bind_act (send_cmd [''PSYNC'', ''?'', ''-1'']) (\<lambda>_.
     bind_act read_one (\<lambda>full.
     if \<not> starts_fullresync full then raise_act (ExpectedFullresync full)
     else bind_act read_rdb_bulk load_snapshot))"

definition handshake :: "unit action" where
  "handshake s =
     bind_act authenticate_to_master (\<lambda>_.
     bind_act (send_cmd [''PING'']) (\<lambda>_.
     bind_act (expect ''PING'' ''PONG'') (\<lambda>_.
     bind_act (send_cmd [''REPLCONF'', ''listening-port'', dec_int (cfg_port (config (rserver s)))]) (\<lambda>_.
     bind_act (expect ''REPLCONF'' ''OK'') (\<lambda>_.
     bind_act (send_cmd [''REPLCONF'', ''capa'', ''eof'']) (\<lambda>_.
     bind_act (expect ''REPLCONF capa'' ''OK'') (\<lambda>_.
     request_resync))))))) s"

section \<open>The command stream\<close>

definition stream_argv :: "pyobj list \<Rightarrow> (replica_error + bytes list)" where
  "stream_argv xs =
     (case map_res normalize_item xs of
        Inl (ProtocolError e) \<Rightarrow> Inl BadArgvElement
      | Inl e \<Rightarrow> Inl (Raised e)
      | Inr cmd \<Rightarrow> Inr cmd)"

fun apply_messages :: "pyobj list \<Rightarrow> unit action" where
  "apply_messages [] s = (Inr (), s)"
| "apply_messages (msg # msgs) s =
     (case msg of
        PList (x # xs) \<Rightarrow>
          (case stream_argv (x # xs) of
             Inl e \<Rightarrow> (Inl e, s)
           | Inr cmd \<Rightarrow>
               (case apply_replicated_command cmd (rserver s) of
                  (Inl e, srv) \<Rightarrow> (Inl (Raised e), s\<lparr>rserver := srv\<rparr>)
                | (Inr _, srv) \<Rightarrow> apply_messages msgs (s\<lparr>rserver := srv\<rparr>)))
      | _ \<Rightarrow> apply_messages msgs s)"

definition feed_and_apply :: "bytes \<Rightarrow> unit action" where
  "feed_and_apply data s =
     (case feed (rparser s) data of
        (Inl e, p) \<Rightarrow> (Inl (Raised e), s\<lparr>rparser := p\<rparr>)
      | (Inr msgs, p) \<Rightarrow> apply_messages msgs (s\<lparr>rparser := p\<rparr>))"

text \<open>
  The loop over the reads: it only ends by an exception, at the latest when the master closes the
  connection.
\<close>

fun stream_loop :: "bytes list \<Rightarrow> unit action" where
  "stream_loop [] s = (Inl MasterClosed, s\<lparr>incoming := []\<rparr>)"
| "stream_loop (c # cs) s =
     (if c = [] then (Inl MasterClosed, s\<lparr>incoming := cs\<rparr>)
      else
        (case feed_and_apply c (s\<lparr>incoming := cs\<rparr>) of
           (Inl e, s1) \<Rightarrow> (Inl e, s1)
         | (Inr _, s1) \<Rightarrow> stream_loop cs s1))"

definition read_loop :: "unit action" where
  "read_loop = bind_act (feed_and_apply []) (\<lambda>_ s. stream_loop (incoming s) s)"

section \<open>Sessions and retries\<close>

definition new_replica_session :: "bytes list \<Rightarrow> server \<Rightarrow> replica_session" where
  "new_replica_session cs srv =
     \<lparr>rparser = default_parser\<lparr>max_bulk_len := cfg_proto_max_bulk_len (config srv)\<rparr>, incoming = cs, sent = [],
      rserver = srv\<rparr>"

text \<open>\<open>_session\<close> once connected: the exception it ends with, and the state its \<open>finally\<close> leaves.\<close>

definition run_session :: "unit action" where
  "run_session s =
     (let (r, s1) = bind_act handshake (\<lambda>_. read_loop) s
      in (r, s1\<lparr>rserver := (rserver s1)\<lparr>replica_link_status := lit ''down''\<rparr>\<rparr>))"

text \<open>
  The waiting time of \<open>_run\<close> after a failed session, in units of half a second: 0.5 at first,
  doubled after every failure, at most 10.
\<close>

definition next_backoff :: "nat \<Rightarrow> nat" where
  "next_backoff b = min (b * 2) 20"

text \<open>The waits of \<open>_run\<close> between sessions with the given outcomes.\<close>

fun retry_waits :: "nat \<Rightarrow> (replica_error + unit) list \<Rightarrow> nat list" where
  "retry_waits b [] = []"
| "retry_waits b (r # rs) =
     (case r of Inr _ \<Rightarrow> retry_waits 1 rs | Inl e \<Rightarrow> b # retry_waits (next_backoff b) rs)"

end
