(* ===== verification/Replica_Correct.thy ===== *)
theory Replica_Correct
  imports Replica Server_Persist Rdb_Correct
begin

text \<open>
  The replica against the master: the snapshot and the commands the master writes, cut into reads
  in any way that respects the end of the snapshot, bring the replica to the state the same
  snapshot and commands give when applied directly. When a read crosses the end of the snapshot the
  commands behind it are lost.
\<close>

section \<open>Reading the status line\<close>

definition chunks :: "bytes list \<Rightarrow> bytes \<Rightarrow> bool" where
  "chunks cs data \<longleftrightarrow> concat cs = data \<and> [] \<notin> set cs"

lemma chunks_Cons [simp]: "chunks (c # cs) data \<longleftrightarrow> c \<noteq> [] \<and> (\<exists>rest. data = c @ rest \<and> chunks cs rest)"
  by (auto simp: chunks_def)

lemma chunks_Nil [simp]: "chunks [] data \<longleftrightarrow> data = []" "chunks cs [] \<longleftrightarrow> cs = []"
  by (auto simp: chunks_def) (metis list.set_intros(1) neq_Nil_conv)

lemma split_prefix:
  assumes "xs @ ys = us @ vs" and "length us \<le> length xs"
  shows "\<exists>t. xs = us @ t \<and> t @ ys = vs"
  using assms by (auto simp: append_eq_append_conv2)

lemma aof_parser_empty [simp]: "aof_parser mb\<lparr>buf := []\<rparr> = aof_parser mb"
  by (simp add: aof_parser_def default_parser_def RespParser_def)

lemma parse_at_line:
  assumes "cr \<notin> set w"
  shows "parse_at p (''+'' @ w @ crlf @ rest) = Inr (PStr (utf8_decode_replace w), length (''+'' @ w @ crlf))"
proof -
  let ?p = "p\<lparr>buf := ''+'' @ w @ crlf @ rest\<rparr>"
  have "buf ?p = [] @ CHR ''+'' # w @ crlf @ rest" by simp
  from read_line_at [OF this assms] nth_at [OF this] show ?thesis
    unfolding parse_at_def by (subst try_parse.simps) (simp add: parse_line_value_def crlf_def Let_def)
qed

lemma parse_at_bulk:
  assumes "int (length b) \<le> max_bulk_len p" and "length b \<le> 32000000"
  shows "parse_at p (bulk_of b @ rest) = Inr (PBytes b, length (bulk_of b))"
  using try_parse_encoded [of "PBytes b" "bulk_of b" "p\<lparr>buf := bulk_of b @ rest\<rparr>" 0 "[]" rest] assms size_ok_parser
  by (simp add: parse_at_def enc_simps)

lemma feed_incomplete:
  assumes "parse_at p (b @ c @ d) = Inr (v, n)" and "length (b @ c) < n" and "buf p = b"
    and "int (length (b @ c)) \<le> max_buffer_bytes p"
  shows "feed p c = (Inr [], p\<lparr>buf := b @ c\<rparr>)"
proof -
  obtain w where "parse_at p (b @ c) = Inr (w, 0)"
    using resp.proper_prefix_incomplete [of p "b @ c" d v n] assms(1,2) by auto
  then show ?thesis using assms(3,4) resp.drain_incomplete by (simp add: feed_within_limit)
qed

text \<open>
  The first message of a stream, in any chunks, when what follows it is only an incomplete value.
\<close>

lemma read_first_message:
  assumes line: "parse_at p line = Inr (msg, length line)" and v: "parse_at p (tail @ missing) = Inr (v, length (tail @ missing))"
    and missing: "missing \<noteq> []" and lim: "int (length (line @ tail)) \<le> max_buffer_bytes p"
    and cs: "chunks cs rest" "b @ rest = line @ tail" "length b < length line"
  shows "\<exists>b' cs'. read_message (p\<lparr>buf := b\<rparr>) cs = (Inr msg, p\<lparr>buf := b'\<rparr>, cs') \<and> (\<exists>r. chunks cs' r \<and> b' @ r = tail)"
  using cs
proof (induction cs arbitrary: b rest)
  case Nil
  then have "b = line @ tail" by simp
  with Nil show ?case by simp
next
  case (Cons c cs)
  let ?p = "p\<lparr>buf := b\<rparr>"
  from Cons.prems obtain r where c: "c \<noteq> []" "rest = c @ r" "chunks cs r" by auto
  then have eq: "(b @ c) @ r = line @ tail" using Cons.prems(2) by simp
  have "length (b @ c) \<le> length (line @ tail)" using eq by (metis le_add1 length_append)
  then have lim': "int (length (b @ c)) \<le> max_buffer_bytes p" using lim by linarith
  then have lim'': "int (length b) + int (length c) \<le> max_buffer_bytes p" by simp
  show ?case
  proof (cases "length (b @ c) < length line")
    case True
    have "parse_at p (line @ tail) = Inr (msg, length line)"
      using resp.parse_value_stable [OF line, of tail] True by fastforce
    then have "parse_at ?p (b @ c @ r) = Inr (msg, length line)" using eq by (simp add: parse_at_def)
    from feed_incomplete [OF this True] lim' have "feed ?p c = (Inr [], p\<lparr>buf := b @ c\<rparr>)" by simp
    with Cons.IH [OF c(3) eq True] c(1) show ?thesis by simp
  next
    case False
    then obtain t where t: "b @ c = line @ t" "t @ r = tail" using split_prefix [OF eq] by auto
    have "parse_at p (t @ r @ missing) = Inr (v, length (tail @ missing))" using v t(2) by (simp flip: append_assoc)
    moreover have "length t < length (tail @ missing)" using t(2) missing by auto
    ultimately obtain w where w: "parse_at p t = Inr (w, 0)"
      using resp.proper_prefix_incomplete [of p t "r @ missing"] by auto
    have ne: "0 < length line" using Cons.prems(3) by (rule le_less_trans [OF le0])
    have "parse_at p (line @ t) = Inr (msg, length line)" using resp.parse_value_stable [OF line ne] .
    then have "drain_at p (line @ t) [] = (Inr [msg], t)"
      using resp.drain_incomplete [OF w] ne by (simp add: resp.drain_unfold [of p "line @ t"])
    then have "feed ?p c = (Inr [msg], p\<lparr>buf := t\<rparr>)"
      using lim'' t(1) feed_within_limit [of ?p c] by simp
    with c t(2) show ?thesis by auto
  qed
qed

section \<open>Receiving the snapshot\<close>

lemma ensure_chunks:
  assumes "chunks cs rest" and "n \<le> length (b @ rest)"
  shows "\<exists>b' cs' r. ensure n b cs = (Inr b', cs') \<and> chunks cs' r \<and> b' @ r = b @ rest \<and> n \<le> length b' \<and> length b \<le> length b'"
  using assms
proof (induction cs arbitrary: b rest)
  case (Cons c cs)
  from Cons.prems(1) obtain r where c: "c \<noteq> []" "rest = c @ r" "chunks cs r" by auto
  show ?case
  proof (cases "n \<le> length b")
    case False
    obtain b' cs' r' where "ensure n (b @ c) cs = (Inr b', cs')" "chunks cs' r'" "b' @ r' = (b @ c) @ r"
      "n \<le> length b'" "length (b @ c) \<le> length b'"
      using Cons.IH [OF c(3), of "b @ c"] Cons.prems(2) c(2) by auto
    then show ?thesis using False c by (intro exI [of _ b'] exI [of _ cs'] exI [of _ r']) simp
  qed (use Cons.prems in auto)
qed simp

lemma await_crlf_chunks:
  assumes "chunks cs rest" and "find_crlf (b @ rest) 0 = Some i"
  shows "\<exists>b' cs' r. await_crlf b cs = (Inr (i, b'), cs') \<and> chunks cs' r \<and> b' @ r = b @ rest \<and> find_crlf b' 0 = Some i"
  using assms
proof (induction cs arbitrary: b rest)
  case (Cons c cs)
  from Cons.prems(1) obtain r where c: "c \<noteq> []" "rest = c @ r" "chunks cs r" by auto
  show ?case
  proof (cases "find_crlf b 0")
    case None
    obtain b' cs' r' where "await_crlf (b @ c) cs = (Inr (i, b'), cs')" "chunks cs' r'" "b' @ r' = (b @ c) @ r"
      "find_crlf b' 0 = Some i"
      using Cons.IH [OF c(3), of "b @ c"] Cons.prems(2) c(2) by auto
    then show ?thesis using None c by (intro exI [of _ b'] exI [of _ cs'] exI [of _ r']) simp
  next
    case (Some j)
    with find_crlf_append [OF Some, of rest] Cons.prems(2) have "j = i" by simp
    with Some Cons.prems(1) show ?thesis by (intro exI [of _ b] exI [of _ "c # cs"] exI [of _ rest]) auto
  qed
qed simp

definition rdb_bulk :: "bytes \<Rightarrow> bytes" where
  "rdb_bulk rdb = ''$'' @ dec_nat (length rdb) @ crlf @ rdb"

lemma rdb_bulk_crlf: "rdb_bulk rdb @ crlf = bulk_of rdb"
  by (simp add: rdb_bulk_def bulk_of_def)

lemma find_crlf_header:
  "find_crlf (rdb_bulk rdb @ extra) 0 = Some (Suc (length (dec_nat (length rdb))))"
proof -
  have "cr \<noteq> CHR ''$''" by (simp add: cr_def)
  then show ?thesis
    using find_crlf_line [of "''$'' @ dec_nat (length rdb)" "[]" "rdb @ extra"] by (simp add: rdb_bulk_def)
qed

lemma receive_rdb_chunks:
  assumes cs: "chunks cs rest" "b @ rest = rdb_bulk rdb @ extra"
    and n: "int (length rdb) \<le> lim" "length rdb \<le> 32000000"
  shows "\<exists>left cs' r. receive_rdb lim b cs = (Inr (rdb, left), cs') \<and> chunks cs' r \<and> left @ r = extra"
proof -
  let ?w = "rdb_bulk rdb @ extra" and ?i = "Suc (length (dec_nat (length rdb)))"
  have w: "?w = CHR ''$'' # dec_nat (length rdb) @ crlf @ rdb @ extra" by (simp add: rdb_bulk_def)
  obtain b1 cs1 r1 where e1: "ensure 1 b cs = (Inr b1, cs1)" "chunks cs1 r1" "b1 @ r1 = ?w" "1 \<le> length b1"
    using ensure_chunks [OF cs(1), of 1 b] cs(2) by (auto simp: rdb_bulk_def)
  then have hd: "hd b1 = CHR ''$''" using w by (cases b1) auto
  obtain b2 cs2 r2 where e2: "await_crlf b1 cs1 = (Inr (?i, b2), cs2)" "chunks cs2 r2" "b2 @ r2 = ?w" "find_crlf b2 0 = Some ?i"
    using await_crlf_chunks [OF e1(2), of b1 ?i] e1(3) find_crlf_header [of rdb extra] by auto
  have "b2 @ r2 = (''$'' @ dec_nat (length rdb) @ crlf) @ rdb @ extra" using e2(3) w by simp
  moreover have "length (''$'' @ dec_nat (length rdb) @ crlf) \<le> length b2"
    using find_crlf_bounds [OF e2(4)] by (simp add: crlf_def)
  ultimately obtain t where "b2 = (''$'' @ dec_nat (length rdb) @ crlf) @ t" using split_prefix by blast
  then have "take (?i - 1) (drop 1 b2) = dec_nat (length rdb)" by simp
  then have hdr: "rdb_header lim ?i b2 = Inr (length rdb)"
    using n py_int_size [OF size_ok_parser [OF n(2)]] by (simp add: rdb_header_def)
  have "length (b2 @ r2) = ?i + 2 + length rdb + length extra" using e2(3) w by (simp add: crlf_def)
  then obtain b3 cs3 r3 where e3: "ensure (?i + 2 + length rdb) b2 cs2 = (Inr b3, cs3)" "chunks cs3 r3" "b3 @ r3 = ?w"
      "?i + 2 + length rdb \<le> length b3"
    using ensure_chunks [OF e2(2), of "?i + 2 + length rdb" b2] e2(3) by auto
  have "length (rdb_bulk rdb) = ?i + 2 + length rdb" by (simp add: rdb_bulk_def crlf_def)
  with e3(4) obtain left where left: "b3 = rdb_bulk rdb @ left" "left @ r3 = extra"
    using split_prefix [OF e3(3)] by auto
  then have "take (length rdb) (drop (?i + 2) b3) = rdb" "drop (?i + 2 + length rdb) b3 = left"
    by (simp_all add: rdb_bulk_def crlf_def)
  then have "receive_rdb lim b cs = (Inr (rdb, left), cs3)"
    using e1(1) hd e2(1) hdr e3(1) by (simp add: receive_rdb_def)
  with e3(2) left(2) show ?thesis by blast
qed

text \<open>Chunks that arrive later do not matter.\<close>

lemma read_message_later: "read_message p cs = (Inr m, p', cs') \<Longrightarrow> read_message p (cs @ ds) = (Inr m, p', cs' @ ds)"
  by (induction p cs rule: read_message.induct) (auto split: if_splits prod.splits sum.splits list.splits)

lemma ensure_later: "ensure n b cs = (Inr b', cs') \<Longrightarrow> ensure n b (cs @ ds) = (Inr b', cs' @ ds)"
proof (induction n b cs rule: ensure.induct)
  case (1 n b)
  then show ?case by (cases ds) (auto split: if_splits)
qed (auto split: if_splits)

lemma await_crlf_later: "await_crlf b cs = (Inr x, cs') \<Longrightarrow> await_crlf b (cs @ ds) = (Inr x, cs' @ ds)"
proof (induction b cs rule: await_crlf.induct)
  case (1 b)
  then show ?case by (cases ds) (auto split: option.splits)
qed (auto split: if_splits option.splits)

lemma receive_rdb_later: "receive_rdb lim b cs = (Inr x, cs') \<Longrightarrow> receive_rdb lim b (cs @ ds) = (Inr x, cs' @ ds)"
  by (auto simp: receive_rdb_def ensure_later await_crlf_later split: prod.splits sum.splits if_splits)

section \<open>The full resynchronisation\<close>

text \<open>The replica's server with the snapshot loaded.\<close>

definition snapshot_loaded :: "(bytes, key_entry) dict \<Rightarrow> server \<Rightarrow> server" where
  "snapshot_loaded es srv =
     (let (now, srv1) = server_now srv
      in srv1\<lparr>db := load_entries (unexpired now es) (db srv1), replica_link_status := lit ''up''\<rparr>)"

lemma server_now_config [simp]: "config (snd (server_now srv)) = config srv"
  by (simp add: server_now_def on_db_simps)

lemma resync_payload_parts:
  assumes "resync_payload rid off es = Inr payload"
  obtains w rdb where "payload = (''+'' @ w @ crlf) @ rdb_bulk rdb" and "cr \<notin> set w"
    and "starts_fullresync (PStr (utf8_decode_replace w))" and "dump_rdb_entries es = Inr rdb"
proof -
  from assms obtain rdb off_s w where rdb: "dump_rdb_entries es = Inr rdb"
    and w: "utf8_encode (lit ''FULLRESYNC '' @ rid @ lit '' '' @ lit off_s) = Inr w" "cr \<notin> set w"
    and payload: "payload = (''+'' @ w @ crlf) @ rdb_bulk rdb"
    by (auto simp: resync_payload_def encode_simple_string_def as_bytes_def bind_res_Inr_iff rdb_bulk_def split: if_splits)
  have "take 11 (lit ''FULLRESYNC '' @ rid @ lit '' '' @ lit off_s) = lit ''FULLRESYNC ''"
    by (simp add: lit_def)
  with utf8_decode_encode [OF w(1)] have "starts_fullresync (PStr (utf8_decode_replace w))"
    by (simp add: starts_fullresync_def)
  with that payload w(2) rdb show thesis by blast
qed

lemma request_resync_ok:
  assumes payload: "resync_payload rid off es = Inr payload" and dump: "dump_rdb_entries es = Inr rdb"
    and es: "dict_ok es" "\<forall>ke\<in>set es. storable (snd ke)"
    and cs: "chunks pcs payload" "incoming s = pcs @ ccs" and p: "rparser s = aof_parser mb"
    and size: "length payload \<le> 32000000" "int (length rdb) \<le> mb"
      "int (length rdb) \<le> cfg_persistence_max_load_bytes (config (rserver s))"
  shows "request_resync s = (Inr (), s\<lparr>sent := sent s @ encode_command [''PSYNC'', ''?'', ''-1''], incoming := ccs,
    rserver := snapshot_loaded es (rserver s)\<rparr>)"
proof -
  let ?p = "aof_parser mb"
  obtain w where w: "payload = (''+'' @ w @ crlf) @ rdb_bulk rdb" "cr \<notin> set w"
    and full: "starts_fullresync (PStr (utf8_decode_replace w))"
    using resync_payload_parts [OF payload] dump by (metis Inr_inject)
  let ?line = "''+'' @ w @ crlf"
  have len: "length rdb \<le> 32000000" using size(1) w(1) by (simp add: rdb_bulk_def)
  have line: "parse_at ?p ?line = Inr (PStr (utf8_decode_replace w), length ?line)"
    using parse_at_line [OF w(2), of ?p "[]"] by simp
  have bulk: "parse_at ?p (rdb_bulk rdb @ crlf) = Inr (PBytes rdb, length (rdb_bulk rdb @ crlf))"
    using parse_at_bulk [of rdb ?p "[]"] size(2) len by (simp add: rdb_bulk_crlf)
  obtain b' cs' r where rm: "read_message ?p pcs = (Inr (PStr (utf8_decode_replace w)), ?p\<lparr>buf := b'\<rparr>, cs')"
    "chunks cs' r" "b' @ r = rdb_bulk rdb"
    using read_first_message [OF line bulk _ _ cs(1), of "[]"] size(1) w(1) by (auto simp: crlf_def)
  have one: "read_message ?p (pcs @ ccs) = (Inr (PStr (utf8_decode_replace w)), ?p\<lparr>buf := b'\<rparr>, cs' @ ccs)"
    by (rule read_message_later [OF rm(1)])
  let ?lim = "cfg_persistence_max_load_bytes (config (rserver s))"
  have "receive_rdb ?lim b' cs' = (Inr (rdb, []), [])"
    using receive_rdb_chunks [OF rm(2), of b' rdb "[]" ?lim] rm(3) size(3) len by auto
  then have rcv: "receive_rdb ?lim b' (cs' @ ccs) = (Inr (rdb, []), ccs)" using receive_rdb_later by fastforce
  have load: "load_rdb_bytes rdb ?lim now = Inr (unexpired now es)" for now
    by (rule load_dumped [OF dump es size(3)])
  show ?thesis
    using one rcv load full cs(2) p
    by (simp add: request_resync_def bind_act_def send_cmd_def read_one_def read_rdb_bulk_def load_snapshot_def
        snapshot_loaded_def parser_reset_def split_beta Let_def)
qed

section \<open>The handshake\<close>

lemma feed_line:
  assumes "cr \<notin> set w" and "length w \<le> 32000000 - 3"
  shows "feed (aof_parser mb) (''+'' @ w @ crlf) = (Inr [PStr (utf8_decode_replace w)], aof_parser mb)"
proof -
  let ?p = "aof_parser mb" and ?line = "''+'' @ w @ crlf"
  have "drain_at ?p ?line [] = (Inr [PStr (utf8_decode_replace w)], [])"
    using parse_at_line [OF assms(1), of ?p "[]"] by (subst resp.drain_unfold) simp
  then show ?thesis using feed_within_limit [of ?p ?line] assms(2) by (simp add: crlf_def)
qed

lemma read_one_line:
  assumes "rparser s = aof_parser mb" and "incoming s = (''+'' @ w @ crlf) # cs" and "cr \<notin> set w" and "length w \<le> 1000"
  shows "read_one s = (Inr (PStr (utf8_decode_replace w)), s\<lparr>incoming := cs\<rparr>)"
  using assms feed_line [OF assms(3), of mb] by (simp add: read_one_def)

lemma expect_ok:
  assumes "rparser s = aof_parser mb" and "incoming s = (''+'' @ w @ crlf) # cs" and "cr \<notin> set w" and "is_ascii w" and "length w \<le> 1000"
  shows "expect what w s = (Inr (), s\<lparr>incoming := cs\<rparr>)"
  using read_one_line [OF assms(1-3,5)] utf8_decode_ascii [OF assms(4)]
  by (simp add: expect_def bind_act_def return_act_def)

text \<open>What the master answers during the handshake, one read each.\<close>

definition handshake_replies :: "server \<Rightarrow> bytes list" where
  "handshake_replies srv =
     (if cfg_masterauth (config srv) = None then [] else [''+OK'' @ crlf])
     @ [''+PONG'' @ crlf, ''+OK'' @ crlf, ''+OK'' @ crlf]"

lemma expect_words:
  assumes "rparser s = aof_parser mb"
  shows "incoming s = (''+OK'' @ crlf) # cs \<Longrightarrow> expect what ''OK'' s = (Inr (), s\<lparr>incoming := cs\<rparr>)"
    and "incoming s = (''+PONG'' @ crlf) # cs \<Longrightarrow> expect what ''PONG'' s = (Inr (), s\<lparr>incoming := cs\<rparr>)"
proof -
  have "is_ascii ''OK''" "is_ascii ''PONG''" by code_simp+
  moreover have "cr \<notin> set ''OK''" "cr \<notin> set ''PONG''" by (simp_all add: cr_def)
  ultimately show "incoming s = (''+OK'' @ crlf) # cs \<Longrightarrow> expect what ''OK'' s = (Inr (), s\<lparr>incoming := cs\<rparr>)"
    "incoming s = (''+PONG'' @ crlf) # cs \<Longrightarrow> expect what ''PONG'' s = (Inr (), s\<lparr>incoming := cs\<rparr>)"
    using expect_ok [OF assms, of "''OK''" cs what] expect_ok [OF assms, of "''PONG''" cs what] by simp_all
qed

lemma handshake_runs:
  assumes auth: "\<forall>pw. cfg_masterauth (config (rserver s)) = Some pw \<longrightarrow> (\<exists>b. utf8_encode pw = Inr b)"
    and p: "rparser s = aof_parser mb" and cs: "incoming s = handshake_replies (rserver s) @ cs"
  shows "\<exists>out. handshake s = request_resync (s\<lparr>sent := out, incoming := cs\<rparr>)"
proof -
  have "\<exists>out. authenticate_to_master s
      = (Inr (), s\<lparr>sent := out, incoming := [''+PONG'' @ crlf, ''+OK'' @ crlf, ''+OK'' @ crlf] @ cs\<rparr>)"
  proof (cases "cfg_masterauth (config (rserver s))")
    case None
    then show ?thesis
      using cs by (intro exI [of _ "sent s"]) (simp add: authenticate_to_master_def return_act_def handshake_replies_def)
  next
    case (Some pw)
    with auth obtain b where b: "utf8_encode pw = Inr b" by blast
    let ?s = "s\<lparr>sent := sent s @ encode_command [''AUTH'', b]\<rparr>"
    have "incoming ?s = (''+OK'' @ crlf) # [''+PONG'' @ crlf, ''+OK'' @ crlf, ''+OK'' @ crlf] @ cs"
      using cs Some by (simp add: handshake_replies_def)
    from expect_words(1) [OF _ this] p show ?thesis
      using Some b by (auto simp: authenticate_to_master_def bind_act_def lift_res_def send_cmd_def)
  qed
  then obtain out where "authenticate_to_master s
      = (Inr (), s\<lparr>sent := out, incoming := [''+PONG'' @ crlf, ''+OK'' @ crlf, ''+OK'' @ crlf] @ cs\<rparr>)" by blast
  with p show ?thesis
    by (auto simp: handshake_def bind_act_def send_cmd_def expect_words [where mb = mb])
qed

section \<open>The command stream\<close>

lemma apply_messages_commands:
  assumes "\<forall>c\<in>set cmds. c \<noteq> []"
  shows "apply_messages (map command_msg cmds) s =
    (case apply_all apply_replicated_command cmds (rserver s) of
       (Inl e, srv) \<Rightarrow> (Inl (Raised e), s\<lparr>rserver := srv\<rparr>)
     | (Inr _, srv) \<Rightarrow> (Inr (), s\<lparr>rserver := srv\<rparr>))"
  using assms
proof (induction cmds arbitrary: s)
  case (Cons c cmds)
  then obtain x xs where c: "c = x # xs" by (cases c) auto
  have "map_res normalize_item (map PBytes c) = Inr c"
    by (induction c) (simp_all add: normalize_item_def)
  then have "stream_argv (PBytes x # map PBytes xs) = Inr c" by (simp add: stream_argv_def c)
  with Cons show ?case by (auto simp: command_msg_def c split: prod.splits sum.splits)
qed simp

lemma apply_all_prefix:
  "apply_all f (a @ b) s = (Inr (), s') \<Longrightarrow> \<exists>s1. apply_all f a s = (Inr (), s1) \<and> apply_all f b s1 = (Inr (), s')"
  by (induction a arbitrary: s) (auto split: prod.splits sum.splits)

text \<open>
  The beginning \<open>b\<close> of the next command, as the parser's buffer holds it between two reads.
\<close>

definition torn :: "bytes \<Rightarrow> bytes list list \<Rightarrow> bool" where
  "torn b cmds \<longleftrightarrow> (case cmds of [] \<Rightarrow> b = [] | c # _ \<Rightarrow> length b < length (encode_command c))"

definition streamable :: "int \<Rightarrow> bytes list list \<Rightarrow> bool" where
  "streamable mb cmds \<longleftrightarrow> (\<forall>c\<in>set cmds. loadable mb c \<and> length (encode_command c) \<le> 31000000)"

lemma torn_bound: "torn b cmds \<Longrightarrow> streamable mb cmds \<Longrightarrow> length b \<le> 31000000"
  by (cases cmds) (auto simp: torn_def streamable_def intro: less_imp_le order_trans)

lemma torn_all: "torn (stream cmds) cmds \<Longrightarrow> cmds = []"
  by (cases cmds) (auto simp: torn_def stream_def)

text \<open>One read of the stream: some commands are applied, and the beginning of the next is kept.\<close>

lemma feed_and_apply_chunk:
  assumes stream: "(b @ c) @ r = stream cmds" and b: "torn b cmds" and c: "length c \<le> 65536" and ok: "streamable mb cmds"
    and p: "rparser s = aof_parser mb\<lparr>buf := b\<rparr>" and ap: "apply_all apply_replicated_command cmds (rserver s) = (Inr (), srv)"
  shows "\<exists>rest t srv1. feed_and_apply c s = (Inr (), s\<lparr>rparser := aof_parser mb\<lparr>buf := t\<rparr>, rserver := srv1\<rparr>)
    \<and> t @ r = stream rest \<and> torn t rest \<and> streamable mb rest
    \<and> apply_all apply_replicated_command rest srv1 = (Inr (), srv)"
proof -
  have ld: "\<forall>c\<in>set cmds. loadable mb c" using ok by (simp add: streamable_def)
  from drain_torn [OF ld] stream obtain k t where
    k: "drain_at (aof_parser mb) (b @ c) [] = (Inr (map command_msg (take k cmds)), t)"
    "b @ c = stream (take k cmds) @ t"
    "k < length cmds \<longrightarrow> length (b @ c) < length (stream (take (Suc k) cmds))" unfolding stream_def by blast
  let ?p = "aof_parser mb\<lparr>buf := b\<rparr>"
  have fd: "feed ?p c = (Inr (map command_msg (take k cmds)), aof_parser mb\<lparr>buf := t\<rparr>)"
    using feed_within_limit [of ?p c] k(1) torn_bound [OF b ok] c by simp
  obtain srv1 where a1: "apply_all apply_replicated_command (take k cmds) (rserver s) = (Inr (), srv1)"
    and a2: "apply_all apply_replicated_command (drop k cmds) srv1 = (Inr (), srv)"
    using apply_all_prefix [of apply_replicated_command "take k cmds" "drop k cmds" "rserver s" srv] ap by auto
  have "\<forall>c\<in>set (take k cmds). c \<noteq> []" using ld by (auto simp: loadable_def dest: in_set_takeD)
  then have "feed_and_apply c s = (Inr (), s\<lparr>rparser := aof_parser mb\<lparr>buf := t\<rparr>, rserver := srv1\<rparr>)"
    using p fd a1 by (simp add: feed_and_apply_def apply_messages_commands)
  moreover have "stream cmds = stream (take k cmds) @ stream (drop k cmds)" by (metis append_take_drop_id stream_append(1))
  then have eq: "t @ r = stream (drop k cmds)" using stream k(2) by simp
  moreover have "torn t (drop k cmds)"
  proof (cases "k < length cmds")
    case True
    then have "take (Suc k) cmds = take k cmds @ [cmds ! k]" "drop k cmds = cmds ! k # drop (Suc k) cmds"
      by (simp_all add: take_Suc_conv_app_nth Cons_nth_drop_Suc)
    with k(2,3) True show ?thesis by (simp add: torn_def)
  qed (use eq in \<open>simp add: torn_def\<close>)
  moreover have "streamable mb (drop k cmds)" using ok by (auto simp: streamable_def dest: in_set_dropD)
  ultimately show ?thesis using a2 by blast
qed

lemma stream_loop_commands:
  assumes "chunks cs rest" and "b @ rest = stream cmds" and "torn b cmds"
    and "\<forall>c\<in>set cs. length c \<le> 65536" and "streamable mb cmds"
    and "rparser s = aof_parser mb\<lparr>buf := b\<rparr>" and "apply_all apply_replicated_command cmds (rserver s) = (Inr (), srv)"
  shows "stream_loop cs s = (Inl MasterClosed, s\<lparr>incoming := [], rparser := aof_parser mb, rserver := srv\<rparr>)"
  using assms
proof (induction cs arbitrary: b rest cmds s)
  case Nil
  then have "cmds = []" "b = []" using torn_all [of cmds] by (auto simp: torn_def)
  with Nil.prems(6,7) show ?case by simp
next
  case (Cons c cs)
  from Cons.prems(1) obtain r where c: "c \<noteq> []" "rest = c @ r" "chunks cs r" by auto
  obtain cmds' t srv1 where
    step: "feed_and_apply c (s\<lparr>incoming := cs\<rparr>)
      = (Inr (), s\<lparr>incoming := cs, rparser := aof_parser mb\<lparr>buf := t\<rparr>, rserver := srv1\<rparr>)" (is "_ = (_, ?s)")
    and t: "t @ r = stream cmds'" "torn t cmds'" "streamable mb cmds'"
    and ap: "apply_all apply_replicated_command cmds' srv1 = (Inr (), srv)"
    using feed_and_apply_chunk [of b c r cmds mb "s\<lparr>incoming := cs\<rparr>" srv] Cons.prems c(2) by auto
  have "stream_loop cs ?s = (Inl MasterClosed, ?s\<lparr>incoming := [], rparser := aof_parser mb, rserver := srv\<rparr>)"
    using Cons.IH [OF c(3) t(1,2), of ?s] Cons.prems(4) t(3) ap by simp
  with step c(1) show ?case by simp
qed

section \<open>A whole session\<close>

definition link_down :: "server \<Rightarrow> server" where
  "link_down srv = srv\<lparr>replica_link_status := lit ''down''\<rparr>"

text \<open>The conditions under which a snapshot can be transferred.\<close>

definition transferable :: "(bytes, key_entry) dict \<Rightarrow> bytes \<Rightarrow> server \<Rightarrow> bool" where
  "transferable es payload srv \<longleftrightarrow>
     dict_ok es \<and> (\<forall>ke\<in>set es. storable (snd ke)) \<and> length payload \<le> 32000000
     \<and> int (length payload) \<le> cfg_proto_max_bulk_len (config srv)
     \<and> int (length payload) \<le> cfg_persistence_max_load_bytes (config srv)
     \<and> (\<forall>pw. cfg_masterauth (config srv) = Some pw \<longrightarrow> (\<exists>b. utf8_encode pw = Inr b))"

lemma session_handshake:
  assumes payload: "resync_payload rid off es = Inr payload" and ok: "transferable es payload srv"
    and cs: "chunks pcs payload"
  shows "\<exists>out. handshake (new_replica_session (handshake_replies srv @ pcs @ ccs) srv)
    = (Inr (), (new_replica_session ccs (snapshot_loaded es srv))
        \<lparr>sent := out, rparser := aof_parser (cfg_proto_max_bulk_len (config srv))\<rparr>)"
proof -
  let ?s = "new_replica_session (handshake_replies srv @ pcs @ ccs) srv" and ?mb = "cfg_proto_max_bulk_len (config srv)"
  have p: "rparser ?s = aof_parser ?mb" by (simp add: new_replica_session_def aof_parser_def)
  obtain w rdb where w: "payload = (''+'' @ w @ crlf) @ rdb_bulk rdb" and dump: "dump_rdb_entries es = Inr rdb"
    using resync_payload_parts [OF payload] by metis
  have "length rdb \<le> length payload" by (simp add: w rdb_bulk_def)
  moreover obtain out where hs: "handshake ?s = request_resync (?s\<lparr>sent := out, incoming := pcs @ ccs\<rparr>)"
    using handshake_runs [of ?s ?mb "pcs @ ccs"] ok p by (auto simp: transferable_def new_replica_session_def)
  ultimately show ?thesis
    using request_resync_ok [OF payload dump _ _ cs, of "?s\<lparr>sent := out, incoming := pcs @ ccs\<rparr>" ccs ?mb] ok p
    by (auto simp: transferable_def new_replica_session_def aof_parser_def)
qed

lemma session_follows:
  assumes payload: "resync_payload rid off es = Inr payload" and ok: "transferable es payload srv"
    and cs: "chunks pcs payload" "chunks ccs (stream cmds)" "\<forall>c\<in>set ccs. length c \<le> 65536"
    and cmds: "\<forall>c\<in>set cmds. loadable (cfg_proto_max_bulk_len (config srv)) c \<and> length (encode_command c) \<le> 31000000"
    and ap: "apply_all apply_replicated_command cmds (snapshot_loaded es srv) = (Inr (), srv')"
  shows "\<exists>s'. run_session (new_replica_session (handshake_replies srv @ pcs @ ccs) srv) = (Inl MasterClosed, s')
    \<and> rserver s' = link_down srv'"
proof -
  let ?mb = "cfg_proto_max_bulk_len (config srv)"
  obtain out where hs: "handshake (new_replica_session (handshake_replies srv @ pcs @ ccs) srv)
      = (Inr (), (new_replica_session ccs (snapshot_loaded es srv))\<lparr>sent := out, rparser := aof_parser ?mb\<rparr>)"
    (is "_ = (Inr (), ?s)")
    using session_handshake [OF payload ok cs(1)] by blast
  have "feed_and_apply [] ?s = (Inr (), ?s)"
    using feed_within_limit [of "aof_parser ?mb" "[]"] by (simp add: feed_and_apply_def new_replica_session_def)
  moreover have "stream_loop ccs ?s = (Inl MasterClosed, ?s\<lparr>incoming := [], rparser := aof_parser ?mb, rserver := srv'\<rparr>)"
    using cs(2,3) cmds ap
    by (intro stream_loop_commands [where b = "[]" and cmds = cmds and rest = "stream cmds"])
      (auto simp: new_replica_session_def streamable_def torn_def split: list.splits)
  ultimately have "bind_act handshake (\<lambda>_. read_loop) (new_replica_session (handshake_replies srv @ pcs @ ccs) srv)
      = (Inl MasterClosed, ?s\<lparr>incoming := [], rparser := aof_parser ?mb, rserver := srv'\<rparr>)"
    using hs by (simp add: bind_act_def read_loop_def new_replica_session_def)
  then show ?thesis by (simp add: run_session_def link_down_def)
qed

section \<open>Properties\<close>

text \<open>C12: Replication end to end: take any state of the master in which a replica is live, and let the
  bytes written to it reach the replica in any reads, the last bytes of the snapshot and the first
  command arriving in different reads. Then the replica's session completes the handshake, loads the
  snapshot, applies exactly the commands the master executed since, in order, and ends only when the
  connection does: its server is in the state that loading the snapshot and applying these commands
  gives.\<close>

theorem replica_follows_master:
  assumes "repl_reachable r" and "a < length (sessions r)" and "snapshot_sent (sessions r ! a)"
    and "link_alive (links (rmaster r) ! a)" and "link_state (links (rmaster r) ! a) = Live"
    and "resync_payload rid off es = Inr (snapshot_data (sessions r ! a))"
    and "transferable es (snapshot_data (sessions r ! a)) srv"
    and "chunks pcs (snapshot_data (sessions r ! a))" and "chunks (pcs @ ccs) (written (links (rmaster r) ! a))"
    and "\<forall>c\<in>set ccs. length c \<le> 65536"
    and "\<forall>c\<in>set (commands_since r a). loadable (cfg_proto_max_bulk_len (config srv)) c \<and> length (encode_command c) \<le> 31000000"
    and "apply_all apply_replicated_command (commands_since r a) (snapshot_loaded es srv) = (Inr (), srv')"
  shows "\<exists>s'. run_session (new_replica_session (handshake_replies srv @ pcs @ ccs) srv) = (Inl MasterClosed, s')
    \<and> rserver s' = link_down srv'"
proof -
  have "written (links (rmaster r) ! a) = snapshot_data (sessions r ! a) @ stream (commands_since r a)"
    by (rule live_link_written [OF assms(1-5)])
  then have "chunks ccs (stream (commands_since r a))" using assms(8,9) by (auto simp: chunks_def)
  from session_follows [OF assms(6-8) this assms(10-12)] show ?thesis .
qed

text \<open>A replica that went live before the master executed a \<open>PING\<close>.\<close>

definition sample_live :: "bytes \<Rightarrow> replication" where
  "sample_live data =
     write_command (\<lambda>conn. False) [''PING''] (flush_backlog 0 (send_snapshot 0 (begin_resync 1 data
       \<lparr>rmaster = MasterReplication 1024 10 (lit ''abc''), history = [], sessions = []\<rparr>)))"

lemma sample_live_simps:
  "sessions (sample_live data) =
     [\<lparr>since = 0, start_offset = 0, snapshot_data = data, snapshot_sent = True, went_live = True\<rparr>]"
  "history (sample_live data) = [[''PING'']]"
  "link_alive (links (rmaster (sample_live data)) ! 0)" "link_state (links (rmaster (sample_live data)) ! 0) = Live"
  "written (links (rmaster (sample_live data)) ! 0) = data @ encode_command [''PING'']"
  by (simp_all add: sample_live_def write_command_def flush_backlog_def flush_round_def send_snapshot_def begin_resync_def
      new_session_def register_syncing_def MasterReplication_def Let_def propagate_def propagate_link_def resync_write_def
      update_link_def start_drain_task_def new_link_def dict_set_def)

lemma sample_live_reachable:
  assumes "resync_payload (lit ''abc'') 0 [] = Inr data"
  shows "repl_reachable (sample_live data)"
proof -
  let ?r0 = "\<lparr>rmaster = MasterReplication 1024 10 (lit ''abc''), history = [], sessions = []\<rparr>"
  let ?r1 = "begin_resync 1 data ?r0"
  have "repl_step ?r0 ?r1"
    by (rule step_begin [where es = "[]"]) (simp_all add: MasterReplication_def dict_keys_def assms)
  with repl_start have "repl_reachable ?r1" by (rule repl_next)
  moreover have "repl_step ?r1 (send_snapshot 0 ?r1)"
    by (rule step_send) (simp_all add: begin_resync_def new_session_def)
  ultimately have "repl_reachable (send_snapshot 0 ?r1)" by (rule repl_next)
  moreover have "repl_step (send_snapshot 0 ?r1) (flush_backlog 0 (send_snapshot 0 ?r1))"
    by (rule step_flush) (simp_all add: begin_resync_def new_session_def send_snapshot_def)
  ultimately have "repl_reachable (flush_backlog 0 (send_snapshot 0 ?r1))" by (rule repl_next)
  then show ?thesis unfolding sample_live_def by (rule repl_next) (rule step_write)
qed

lemma ping_applied: "apply_replicated_command [''PING''] srv = (Inr (), srv)"
proof -
  have "is_ascii ''PONG''" by code_simp
  then have enc: "encode_value (simple ''PONG'') = Inr (''+PONG'' @ crlf)"
    using utf8_encode_lit [of "''PONG''"]
    by (simp add: simple_def enc_simps encode_simple_string_def as_bytes_def cr_def lf_def)
  have "simple ''PONG'' \<noteq> PNoReply" by (simp add: simple_def)
  then show ?thesis
    using enc by (simp add: apply_replicated_command_def execute_inner_def client_context_def upper_name_def upper_names
        WRITE_COMMANDS_def dispatch_def reg_get_default default_lookup cmd_ping_def after_dispatch_def persist_def encode_reply_def)
qed

theorem replica_follows_master_witness:
  "\<exists>data s'. run_session (new_replica_session (handshake_replies (sample_server default_config)
        @ [data] @ [encode_command [''PING'']]) (sample_server default_config)) = (Inl MasterClosed, s')
     \<and> rserver s' = link_down (snapshot_loaded [] (sample_server default_config))"
proof -
  let ?srv = "sample_server default_config"
  obtain data where data: "resync_payload (lit ''abc'') 0 [] = Inr data" "data \<noteq> []" "length data \<le> 100"
    using empty_payload by blast
  let ?r = "sample_live data"
  have len: "length (encode_command [''PING'']) = 14" by code_simp
  have "loadable 16777216 [''PING'']" by (rule loadable_small) auto
  then have "\<forall>c\<in>set (commands_since ?r 0).
      loadable (cfg_proto_max_bulk_len (config ?srv)) c \<and> length (encode_command c) \<le> 31000000"
    using len by (simp add: commands_since_def sample_live_simps default_config_def)
  moreover have "transferable [] (snapshot_data (sessions ?r ! 0)) ?srv"
    using data(3) by (simp add: transferable_def dict_ok_def sample_live_simps default_config_def)
  moreover have "apply_all apply_replicated_command (commands_since ?r 0) (snapshot_loaded [] ?srv)
      = (Inr (), snapshot_loaded [] ?srv)"
    by (simp add: commands_since_def sample_live_simps ping_applied)
  ultimately show ?thesis
    using replica_follows_master [OF sample_live_reachable [OF data(1)], of 0 "lit ''abc''" 0 "[]" ?srv "[data]"
        "[encode_command [''PING'']]" "snapshot_loaded [] ?srv"] data len
    by (auto simp: sample_live_simps)
qed

section \<open>Reads that cross the end of the snapshot\<close>

lemma receive_rdb_no_input: "snd (receive_rdb lim b []) = []"
  by (auto simp: receive_rdb_def split: sum.splits option.splits)

lemma receive_rdb_one_read:
  assumes "int (length rdb) \<le> lim" "length rdb \<le> 32000000"
  shows "receive_rdb lim [] [rdb_bulk rdb @ extra] = (Inr (rdb, extra), [])"
proof -
  let ?c = "rdb_bulk rdb @ extra"
  have "receive_rdb lim [] [?c] = receive_rdb lim ?c []" by (simp add: receive_rdb_def rdb_bulk_def)
  moreover obtain left cs r where "receive_rdb lim ?c [] = (Inr (rdb, left), cs)" "chunks cs r" "left @ r = extra"
    using receive_rdb_chunks [of "[]" "[]" ?c rdb extra lim] assms by auto
  ultimately show ?thesis using receive_rdb_no_input [of lim ?c] by auto
qed

text \<open>C38: The same bytes, cut differently: when the read that completes the snapshot also carries the
  commands behind it, the replica drops all of them. It ends in the state the snapshot alone gives,
  and reports no error.\<close>

theorem replica_drops_commands:
  assumes "resync_payload rid off es = Inr payload" and "transferable es payload srv"
    and "\<forall>c\<in>set cmds. loadable (cfg_proto_max_bulk_len (config srv)) c" and "length (stream cmds) \<le> 32000000"
  shows "\<exists>line bulk s'. payload = line @ bulk
    \<and> run_session (new_replica_session (handshake_replies srv @ [line, bulk @ stream cmds]) srv) = (Inl MasterClosed, s')
    \<and> rserver s' = link_down (snapshot_loaded es srv)"
proof -
  let ?mb = "cfg_proto_max_bulk_len (config srv)" and ?p = "aof_parser (cfg_proto_max_bulk_len (config srv))"
  let ?lim = "cfg_persistence_max_load_bytes (config srv)"
  obtain w rdb where w: "payload = (''+'' @ w @ crlf) @ rdb_bulk rdb" "cr \<notin> set w"
    and full: "starts_fullresync (PStr (utf8_decode_replace w))" and dump: "dump_rdb_entries es = Inr rdb"
    using resync_payload_parts [OF assms(1)] by metis
  let ?line = "''+'' @ w @ crlf" and ?last = "rdb_bulk rdb @ stream cmds"
  let ?s = "new_replica_session (handshake_replies srv @ [?line, ?last]) srv"
  have ok: "length rdb \<le> 32000000" "int (length rdb) \<le> ?lim" "length w \<le> 32000000 - 3"
    "dict_ok es" "\<forall>ke\<in>set es. storable (snd ke)"
    using assms(2) w(1) by (auto simp: transferable_def rdb_bulk_def crlf_def)
  have p: "rparser ?s = ?p" by (simp add: new_replica_session_def aof_parser_def)
  obtain out where hs: "handshake ?s = request_resync (?s\<lparr>sent := out, incoming := [?line, ?last]\<rparr>)"
    using handshake_runs [of ?s ?mb "[?line, ?last]"] assms(2) p by (auto simp: transferable_def new_replica_session_def)
  have one: "read_message ?p (?line # cs) = (Inr (PStr (utf8_decode_replace w)), ?p, cs)" for cs
    using feed_line [OF w(2) ok(3)] by simp
  have rcv: "receive_rdb ?lim [] [?last] = (Inr (rdb, stream cmds), [])" by (rule receive_rdb_one_read [OF ok(2,1)])
  have fd: "feed ?p (stream cmds) = (Inr (map command_msg cmds), ?p)"
    using feed_commands [of cmds ?p] assms(3,4) by (simp add: stream_def loadable_def)
  have load: "load_rdb_bytes rdb ?lim now = Inr (unexpired now es)" for now
    by (rule load_dumped [OF dump ok(4,5,2)])
  let ?s1 = "?s\<lparr>sent := out @ encode_command [''PSYNC'', ''?'', ''-1''], incoming := [], rserver := snapshot_loaded es srv\<rparr>"
  have "request_resync (?s\<lparr>sent := out, incoming := [?line, ?last]\<rparr>) = (Inr (), ?s1)"
    using one rcv load full p fd
    by (simp add: request_resync_def bind_act_def send_cmd_def read_one_def read_rdb_bulk_def load_snapshot_def
        snapshot_loaded_def parser_reset_def split_beta Let_def new_replica_session_def)
  moreover have "feed_and_apply [] ?s1 = (Inr (), ?s1)"
    using feed_within_limit [of ?p "[]"] p by (simp add: feed_and_apply_def)
  ultimately have "bind_act handshake (\<lambda>_. read_loop) ?s = (Inl MasterClosed, ?s1)"
    using hs by (simp add: bind_act_def read_loop_def)
  then show ?thesis using w(1)
    by (intro exI [of _ ?line] exI [of _ "rdb_bulk rdb"]) (simp add: run_session_def link_down_def)
qed

theorem replica_drops_commands_witness:
  "\<exists>line bulk s'. run_session (new_replica_session (handshake_replies (sample_server default_config)
        @ [line, bulk @ stream [[''SET'', ''k'', ''v'']]]) (sample_server default_config)) = (Inl MasterClosed, s')
     \<and> rserver s' = link_down (snapshot_loaded [] (sample_server default_config))"
proof -
  let ?srv = "sample_server default_config"
  obtain data where data: "resync_payload (lit ''abc'') 0 [] = Inr data" "length data \<le> 100"
    using empty_payload by blast
  have "loadable 16777216 [''SET'', ''k'', ''v'']" by (rule loadable_small) auto
  then have ld: "\<forall>c\<in>set [[''SET'', ''k'', ''v'']]. loadable (cfg_proto_max_bulk_len (config ?srv)) c"
    by (simp add: default_config_def)
  have "length (stream [[''SET'', ''k'', ''v'']]) \<le> 100" by code_simp
  moreover have "transferable [] data ?srv"
    using data(2) by (simp add: transferable_def dict_ok_def default_config_def)
  ultimately show ?thesis
    using replica_drops_commands [OF data(1) _ ld] by fastforce
qed

section \<open>Snapshots beyond the bulk limit\<close>

lemma parse_at_long_bulk:
  assumes "int (length rdb) > max_bulk_len p" and "length rdb \<le> 10 ^ 9"
  shows "parse_at p (''$'' @ dec_nat (length rdb) @ crlf @ x) = Inl (ProtocolError (BulkTooLong (int (length rdb))))"
proof -
  let ?p = "p\<lparr>buf := ''$'' @ dec_nat (length rdb) @ crlf @ x\<rparr>"
  have b: "buf ?p = [] @ CHR ''$'' # dec_nat (length rdb) @ crlf @ x" by simp
  have "(10 :: nat) ^ 9 < 10 ^ int_max_str_digits"
    by (rule power_strict_increasing) (simp_all add: int_max_str_digits_def)
  then have "size_ok (length rdb)" using assms(2) by (intro size_ok_small) (rule le_less_trans)
  then show ?thesis
    using read_line_at [OF b] nth_at [OF b] assms(1)
    unfolding parse_at_def by (subst try_parse.simps) (simp add: parse_bulk_def py_int_size Let_def)
qed

text \<open>
  A snapshot longer than \<open>proto_max_bulk_len\<close> never gets through, whatever the limit for snapshots:
  the parser that reads the status line refuses the snapshot's header as soon as it arrives in the
  same read.
\<close>

lemma long_snapshot_refused:
  assumes payload: "resync_payload rid off es = Inr payload" and dump: "dump_rdb_entries es = Inr rdb"
    and long: "int (length rdb) > cfg_proto_max_bulk_len (config srv)" "length rdb \<le> 10 ^ 9"
    and auth: "\<forall>pw. cfg_masterauth (config srv) = Some pw \<longrightarrow> (\<exists>b. utf8_encode pw = Inr b)"
    and n: "length payload - length rdb \<le> n" "n \<le> 32000000" "take n payload \<noteq> []"
  shows "fst (run_session (new_replica_session (handshake_replies srv @ take n payload # cs) srv))
    = Inl (Raised (ProtocolError (BulkTooLong (int (length rdb)))))"
proof -
  let ?p = "aof_parser (cfg_proto_max_bulk_len (config srv))"
  let ?s = "new_replica_session (handshake_replies srv @ take n payload # cs) srv"
  obtain w where w: "payload = (''+'' @ w @ crlf) @ rdb_bulk rdb" "cr \<notin> set w"
    using resync_payload_parts [OF payload] dump by (metis Inr_inject)
  let ?line = "''+'' @ w @ crlf" and ?hdr = "''$'' @ dec_nat (length rdb) @ crlf"
  have "take n payload @ drop n payload = (?line @ ?hdr) @ rdb" by (simp add: w(1) rdb_bulk_def)
  moreover have "length (?line @ ?hdr) \<le> length (take n payload)"
    using n(1) by (simp add: w(1) rdb_bulk_def crlf_def)
  ultimately obtain x where "take n payload = (?line @ ?hdr) @ x" using split_prefix by blast
  then have x: "take n payload = ?line @ ?hdr @ x" by simp
  have "parse_at ?p (?line @ ?hdr @ x) = Inr (PStr (utf8_decode_replace w), length ?line)"
    using parse_at_line [OF w(2), of ?p "?hdr @ x"] by simp
  moreover have "parse_at ?p (?hdr @ x) = Inl (ProtocolError (BulkTooLong (int (length rdb))))"
    using parse_at_long_bulk [of ?p rdb x] long by simp
  ultimately have "fst (drain_at ?p (take n payload) []) = Inl (ProtocolError (BulkTooLong (int (length rdb))))"
    unfolding x by (subst resp.drain_unfold, simp, subst resp.drain_unfold, simp)
  then have fd: "fst (feed ?p (take n payload)) = Inl (ProtocolError (BulkTooLong (int (length rdb))))"
    using feed_within_limit [of ?p "take n payload"] n(2) by simp
  obtain out where hs: "handshake ?s = request_resync (?s\<lparr>sent := out, incoming := take n payload # cs\<rparr>)"
    using handshake_runs [of ?s _ "take n payload # cs"] auth by (auto simp: new_replica_session_def aof_parser_def)
  obtain p1 where "feed ?p (take n payload) = (Inl (ProtocolError (BulkTooLong (int (length rdb)))), p1)"
    using fd by (metis prod.collapse)
  moreover have "rparser ?s = ?p" by (simp add: new_replica_session_def aof_parser_def)
  ultimately have "fst (request_resync (?s\<lparr>sent := out, incoming := take n payload # cs\<rparr>))
      = Inl (Raised (ProtocolError (BulkTooLong (int (length rdb)))))"
    using n(3) by (simp add: request_resync_def bind_act_def send_cmd_def read_one_def)
  with hs show ?thesis by (auto simp: run_session_def bind_act_def split_beta split: sum.splits)
qed

section \<open>Retries\<close>

text \<open>
  A session only ends by an exception, so the statement of \<open>_run\<close> that resets the waiting time after
  a session is never reached: however long the sessions were, the waits grow to ten seconds.
\<close>

lemma stream_loop_raises: "\<exists>e s'. stream_loop cs s = (Inl e, s')"
  by (induction cs arbitrary: s) (auto split: prod.splits sum.splits)

lemma session_never_returns: "\<exists>e s'. run_session s = (Inl e, s') \<and> replica_link_status (rserver s') = lit ''down''"
proof -
  have "\<exists>e s1. bind_act handshake (\<lambda>_. read_loop) s = (Inl e, s1)"
    using stream_loop_raises by (auto simp: bind_act_def read_loop_def split: prod.splits sum.splits)
  then show ?thesis by (auto simp: run_session_def)
qed

lemma retry_waits_grow:
  "retry_waits (min (2 ^ k) 20) (map (\<lambda>s. fst (run_session s)) ss) = map (\<lambda>i. min (2 ^ (k + i)) 20) [0..<length ss]"
proof (induction ss arbitrary: k)
  case (Cons s ss)
  obtain e where "fst (run_session s) = Inl e" using session_never_returns [of s] by auto
  moreover have "next_backoff (min (2 ^ k) 20) = min (2 ^ Suc k) 20" by (auto simp: next_backoff_def min_def)
  moreover have "map (\<lambda>i. min (2 ^ (k + i)) 20) [0..<Suc (length ss)]
      = min (2 ^ k) 20 # map (\<lambda>i. min (2 ^ (Suc k + i)) (20 :: nat)) [0..<length ss]"
    by (simp add: upt_conv_Cons map_Suc_upt [symmetric] del: upt_Suc)
  ultimately show ?case using Cons.IH [of "Suc k"] by simp
qed simp

end
