(* ===== verification/Database.thy ===== *)
theory Database
  imports Recovery Store_Correct
begin

text \<open>
  The server as a database. The abstract state is a map from keys to entries with their deadlines,
  of which a client sees what has not expired yet; every data command has a specification on it,
  errors included. The handlers, and through them \<open>_execute\<close> of \<open>byo_redis/server.py\<close>, implement it: the
  replies of any sequence of data commands are those of the abstract database at increasing times.
\<close>

section \<open>The keyspace as a map with deadlines\<close>

definition represents :: "store \<Rightarrow> kv \<Rightarrow> bool" where
  "represents d M \<longleftrightarrow>
     store_inv d \<and> mono (clock d) \<and> maxmemory_bytes d \<le> 0 \<and> (\<forall>m\<ge>reading d. live m d = (\<lambda>k. alive m (M k)))"

lemma holds_represents: "holds d M \<Longrightarrow> represents d M"
  by (simp add: holds_def represents_def)

lemma represents_now: "represents d M \<Longrightarrow> live (reading d) d k = alive (reading d) (M k)"
  by (simp add: represents_def)

lemma represents_step:
  assumes "represents d M" and "clock_step d d'" and "store_inv d'"
    and "\<And>m. reading d \<le> m \<Longrightarrow> live m d' = (\<lambda>k. alive m (M' k))"
  shows "represents d' M'" and "reading d \<le> reading d'"
proof -
  show le: "reading d \<le> reading d'" using assms(1,2) by (simp add: represents_def reading_mono)
  show "represents d' M'" using assms le by (auto simp: represents_def clock_step_def)
qed

lemma represents_quiet:
  assumes "represents d M" and "quiet d d'"
  shows "represents d' M" and "reading d \<le> reading d'"
proof -
  have step: "clock_step d d'" using assms(2) by (simp add: quiet_def)
  show le: "reading d \<le> reading d'" using assms(1) step by (simp add: represents_def reading_mono)
  show "represents d' M" using assms step le by (auto simp: represents_def quiet_def clock_step_def)
qed

text \<open>What has expired may be forgotten.\<close>

lemma represents_forget:
  assumes "represents d M"
  shows "represents d (M(k := alive (reading d) (M k)))"
proof -
  have "(\<lambda>j. alive m ((M(k := alive (reading d) (M k))) j)) = (\<lambda>j. alive m (M j))" if "reading d \<le> m" for m
    using that by (auto simp: fun_eq_iff alive_alive_later)
  with assms show ?thesis by (simp add: represents_def)
qed

text \<open>Every single-key operation acts on the map as its specification says of what is alive now.\<close>

locale timed_op = key_op oper spec for oper :: "bytes \<Rightarrow> store \<Rightarrow> 'r \<times> store" and spec +
  assumes op_clock: "clock_step s (snd (oper k s))"
begin

lemma on_timed:
  assumes "represents d M"
  shows "fst (oper k d) = fst (spec (alive (reading d) (M k)))"
    and "represents (snd (oper k d)) (M(k := snd (spec (alive (reading d) (M k)))))"
    and "reading d \<le> reading (snd (oper k d))"
proof -
  have inv: "store_inv d" using assms by (simp add: represents_def)
  note now = represents_now [OF assms]
  show "fst (oper k d) = fst (spec (alive (reading d) (M k)))" by (simp add: op_result [OF inv] now)
  have view: "live m (snd (oper k d)) = (\<lambda>j. alive m ((M(k := snd (spec (alive (reading d) (M k))))) j))"
    if "reading d \<le> m" for m
    using assms that by (auto simp: op_view [OF inv that] now represents_def)
  show "represents (snd (oper k d)) (M(k := snd (spec (alive (reading d) (M k)))))"
    by (rule represents_step(1) [OF assms op_clock op_inv [OF inv]]) (rule view)
  show "reading d \<le> reading (snd (oper k d))" by (rule represents_step(2) [OF assms op_clock op_inv [OF inv] view])
qed

end

interpretation get_timed: timed_op get_string get_spec
  by unfold_locales (rule store_clock_steps)

interpretation lpush_timed: timed_op "\<lambda>k. lpush k els" "lpush_spec els" for els
  by unfold_locales (rule store_clock_steps)

interpretation rpop_timed: timed_op rpop rpop_spec
  by unfold_locales (rule store_clock_steps)

interpretation hset_timed: timed_op "\<lambda>k. hset k items" "hset_spec items" for items
  by unfold_locales (rule store_clock_steps)

interpretation hgetall_timed: timed_op hgetall hgetall_spec
  by unfold_locales (rule store_clock_steps)

lemma set_timed:
  assumes "represents d M"
  shows "represents (set_string k v ex d) (M(k := set_spec v ex (reading d)))"
    and "reading d \<le> reading (set_string k v ex d)"
proof -
  have view: "live m (set_string k v ex d) = (\<lambda>j. alive m ((M(k := set_spec v ex (reading d))) j))" if "reading d \<le> m" for m
    using assms that by (auto simp: set_string_view represents_def)
  have inv: "store_inv (set_string k v ex d)" using assms by (simp add: represents_def set_string_inv)
  show "represents (set_string k v ex d) (M(k := set_spec v ex (reading d)))"
    by (rule represents_step(1) [OF assms store_clock_steps(1) inv]) (rule view)
  show "reading d \<le> reading (set_string k v ex d)" by (rule represents_step(2) [OF assms store_clock_steps(1) inv view])
qed

lemma expire_timed:
  fixes k :: bytes and secs :: int
  assumes "represents d M"
  defines "later \<equiv> reading (snd (touch k d))"
  defines "out \<equiv> expire_spec secs later (alive (reading d) (M k))"
  shows "fst (expire k secs d) = fst out" and "represents (snd (expire k secs d)) (M(k := snd out))"
    and "reading d \<le> later" and "later \<le> reading (snd (expire k secs d))"
proof -
  have inv: "store_inv d" and mono: "mono (clock d)" using assms(1) by (simp_all add: represents_def)
  note op = expire_op [OF inv, where k = k and secs = secs, unfolded represents_now [OF assms(1)], folded later_def out_def]
  show "fst (expire k secs d) = fst out" by (rule op)
  have view: "live m (snd (expire k secs d)) = (\<lambda>j. alive m ((M(k := snd out)) j))" if "reading d \<le> m" for m
    using assms(1) that by (auto simp: op(2) [OF that] represents_def)
  show "represents (snd (expire k secs d)) (M(k := snd out))"
    by (rule represents_step(1) [OF assms(1) store_clock_steps(8) op(3)]) (rule view)
  have t: "clock_step d (snd (touch k d))" by (rule clock_step_touch) simp
  then show "reading d \<le> later" using mono by (simp add: later_def reading_mono)
  have "clock_step (snd (touch k d)) (snd (expire k secs d))"
    by (auto simp: expire_def now_ms_def split: option.splits prod.splits)
  then show "later \<le> reading (snd (expire k secs d))"
    using mono t by (simp add: later_def reading_mono clock_step_def)
qed

text \<open>\<open>TTL\<close> reads the clock a second time when the key has a deadline.\<close>

definition ttl_spec :: "int \<Rightarrow> key_entry option \<Rightarrow> int" where
  "ttl_spec later e =
     (case e of
        None \<Rightarrow> - 2
      | Some x \<Rightarrow> (case expire_at_ms x of None \<Rightarrow> - 1 | Some t \<Rightarrow> if t \<le> later then - 2 else (t - later) div 1000))"

lemma ttl_timed:
  assumes "represents d M"
  shows "\<exists>later. reading d \<le> later \<and> later \<le> reading (snd (ttl k d)) \<and> fst (ttl k d) = ttl_spec later (alive (reading d) (M k))"
    and "represents (snd (ttl k d)) M"
proof -
  have mono: "mono (clock d)" using assms by (simp add: represents_def)
  note now = represents_now [OF assms, of k]
  have le: "reading d \<le> reading (snd (ttl k d))" using represents_quiet(2) [OF assms quiet_ttl] .
  show "represents (snd (ttl k d)) M" using represents_quiet(1) [OF assms quiet_ttl] .
  show "\<exists>later. reading d \<le> later \<and> later \<le> reading (snd (ttl k d)) \<and> fst (ttl k d) = ttl_spec later (alive (reading d) (M k))"
  proof (cases "\<exists>x t. alive (reading d) (M k) = Some x \<and> expire_at_ms x = Some t")
    case False
    then have "fst (ttl k d) = ttl_spec (reading d) (alive (reading d) (M k))"
      by (auto simp: ttl_reply now ttl_spec_def split: option.splits)
    with le show ?thesis by auto
  next
    case True
    then obtain x t where x: "alive (reading d) (M k) = Some x" "expire_at_ms x = Some t" by blast
    let ?later = "clock d (Suc (ticks d))"
    have e: "dict_get (entries d) k = Some x" "\<not> is_expired (Some t) (reading d)"
      using x now by (auto simp: live_def alive_def split: option.splits if_splits)
    then have "ticks (snd (ttl k d)) = Suc (Suc (ticks d)) \<and> clock (snd (ttl k d)) = clock d"
      using x(2) by (simp add: ttl_def is_expired_now_eq ttl_seconds_now_def now_ms_def)
    then have "?later \<le> reading (snd (ttl k d))" using mono by (simp add: reading_def monoD)
    moreover have "reading d \<le> ?later" using mono by (simp add: reading_def monoD)
    moreover have "fst (ttl k d) = ttl_spec ?later (alive (reading d) (M k))"
      by (simp add: ttl_reply now x ttl_spec_def Let_def)
    ultimately show ?thesis by blast
  qed
qed

text \<open>\<open>DEL\<close> reads the clock for every key, so a key that expires meanwhile may or may not be counted.\<close>

definition alive_keys :: "int \<Rightarrow> kv \<Rightarrow> bytes set" where
  "alive_keys n M = {k. alive n (M k) \<noteq> None}"

lemma alive_keys_later: "n \<le> m \<Longrightarrow> alive_keys m M \<subseteq> alive_keys n M"
proof
  fix k assume "n \<le> m" "k \<in> alive_keys m M"
  then have "alive m (alive n (M k)) \<noteq> None" by (simp add: alive_keys_def alive_alive_later)
  then show "k \<in> alive_keys n M" by (cases "alive n (M k)") (auto simp: alive_keys_def alive_def)
qed

lemma alive_keys_upd [simp]: "alive_keys n (M(k := None)) = alive_keys n M - {k}"
  by (auto simp: alive_keys_def alive_def)

lemma drop_key_timed: "represents d M \<Longrightarrow> represents (drop_key k d) (M(k := None))"
  by (rule represents_step(1)) (auto simp: inv_drop_key represents_def alive_def)

lemma represents_tick: "represents d M \<Longrightarrow> represents (d\<lparr>ticks := Suc (ticks d)\<rparr>) M"
  using represents_quiet(1) [OF _ quiet_tick] .

definition deletes :: "bytes set \<Rightarrow> nat \<Rightarrow> store \<Rightarrow> kv \<Rightarrow> nat \<times> store \<Rightarrow> bool" where
  "deletes K r d M out \<longleftrightarrow>
     r + card (K \<inter> alive_keys (reading (snd out)) M) \<le> fst out \<and> fst out \<le> r + card (K \<inter> alive_keys (reading d) M)
     \<and> represents (snd out) (\<lambda>k. if k \<in> K then None else M k) \<and> reading d \<le> reading (snd out)"

lemma deletes_insert:
  assumes "deletes K (r + (if k \<in> alive_keys (reading d) M then 1 else 0)) d2 (M(k := None)) out"
    and "finite K" and "reading d \<le> reading d2"
  shows "deletes (insert k K) r d M out"
proof -
  have split: "card (insert k K \<inter> alive_keys m M) = (if k \<in> alive_keys m M then 1 else 0) + card (K \<inter> alive_keys m (M(k := None)))" for m
  proof -
    have "insert k K \<inter> alive_keys m M = (if k \<in> alive_keys m M then {k} else {}) \<union> (K \<inter> (alive_keys m M - {k}))" by auto
    then show ?thesis using assms(2) by (simp add: card_Un_disjoint)
  qed
  have later: "reading d \<le> reading (snd out)" using assms(1,3) by (simp add: deletes_def)
  have "card (K \<inter> alive_keys (reading d2) (M(k := None))) \<le> card (K \<inter> alive_keys (reading d) (M(k := None)))"
    using assms(2) alive_keys_later [OF assms(3), of "M(k := None)"] by (intro card_mono) auto
  moreover have "k \<in> alive_keys (reading (snd out)) M \<Longrightarrow> k \<in> alive_keys (reading d) M"
    using alive_keys_later [OF later, of M] by auto
  moreover have "(\<lambda>j. if j \<in> K then None else (M(k := None)) j) = (\<lambda>j. if j \<in> insert k K then None else M j)" by auto
  ultimately show ?thesis using assms(1) later by (auto simp: deletes_def split simp del: alive_keys_upd)
qed

lemma delete_loop_timed: "represents d M \<Longrightarrow> deletes (set ks) r d M (delete_loop ks r d)"
proof (induction ks r d arbitrary: M rule: delete_loop.induct)
  case (1 r d)
  then show ?case by (simp add: deletes_def)
next
  case (2 k ks r d)
  note now = represents_now [OF "2.prems", of k]
  show ?case
  proof (cases "dict_get (entries d) k")
    case None
    then have gone: "alive (reading d) (M k) = None" using now by (simp add: live_def alive_def)
    then have "represents d (M(k := None))" using represents_forget [OF "2.prems", of k] by simp
    from "2.IH"(1) [OF None this] gone None show ?thesis
      using deletes_insert [of "set ks" r k d M d] by (simp add: alive_keys_def fun_upd_def)
  next
    case (Some e)
    obtain x d1 where x: "is_expired_now (expire_at_ms e) d = (x, d1)" by fastforce
    have d1: "represents d1 M" "reading d \<le> reading d1"
      using x represents_tick [OF "2.prems"] represents_quiet(2) [OF "2.prems" quiet_tick] "2.prems"
      by (auto simp: is_expired_now_eq split: if_splits)
    then have d2: "represents (drop_key k d1) (M(k := None))" "reading d \<le> reading (drop_key k d1)"
      using drop_key_timed by (simp_all add: reading_def)
    have "x = is_expired (expire_at_ms e) (reading d)" using x by (simp add: is_expired_now_eq)
    then have "alive (reading d) (M k) = (if x then None else Some e)"
      unfolding now [symmetric] live_def Some by (simp add: alive_def)
    with "2.IH"(2,3) [OF Some x [symmetric] refl] d2 x Some show ?thesis
      using deletes_insert [of "set ks" r k d M "drop_key k d1"] by (cases x) (simp_all add: alive_keys_def fun_upd_def)
  qed
qed

section \<open>The abstract database\<close>

text \<open>
  One command on the entry of its key: \<open>e\<close> is what is alive under the key at the time \<open>now\<close> of the lookup,
  \<open>later\<close> a second reading of the clock. The result is the reply, or the error it is answered with,
  and the new entry.
\<close>

definition key_call :: "('r res \<times> key_entry option) \<Rightarrow> ('r \<Rightarrow> pyobj) \<Rightarrow> pyobj res \<times> key_entry option" where
  "key_call out wrap =
     (case fst out of Inl WrongTypeError \<Rightarrow> Inl wrongtype | Inl e \<Rightarrow> Inl e | Inr r \<Rightarrow> Inr (wrap r), snd out)"

definition key_command :: "bytes list \<Rightarrow> bool" where
  "key_command c \<longleftrightarrow>
     upper_name c \<in> {''SET'', ''GET'', ''EXPIRE'', ''TTL'', ''LPUSH'', ''RPOP'', ''HSET'', ''HGETALL''}"

definition key_step :: "int \<Rightarrow> int \<Rightarrow> bytes list \<Rightarrow> key_entry option \<Rightarrow> pyobj res \<times> key_entry option" where
  "key_step now later c e =
     (let name = upper_name c; argc = length c
      in if name = ''SET'' then
           if argc < 3 then (Inl (wrong_arity ''set''), e)
           else (case set_options (drop 3 c) None of
                   Inl x \<Rightarrow> (Inl x, e)
                 | Inr ex \<Rightarrow> (Inr (simple ''OK''), set_spec (c ! 2) ex now))
         else if name = ''GET'' then
           if argc \<noteq> 2 then (Inl (wrong_arity ''get''), e) else key_call (get_spec e) bulk_or_nil
         else if name = ''EXPIRE'' then
           if argc \<noteq> 3 then (Inl (wrong_arity ''expire''), e)
           else (case py_int (c ! 2) of
                   None \<Rightarrow> (Inl (resp_error ''ERR value is not an integer or out of range''), e)
                 | Some secs \<Rightarrow> map_prod (\<lambda>r. Inr (PInt r)) id (expire_spec secs later e))
         else if name = ''TTL'' then
           if argc \<noteq> 2 then (Inl (wrong_arity ''ttl''), e) else (Inr (PInt (ttl_spec later e)), e)
         else if name = ''LPUSH'' then
           if argc < 3 then (Inl (wrong_arity ''lpush''), e)
           else key_call (lpush_spec (drop 2 c) e) (\<lambda>n. PInt (int n))
         else if name = ''RPOP'' then
           if argc \<noteq> 2 then (Inl (wrong_arity ''rpop''), e) else key_call (rpop_spec e) bulk_or_nil
         else if name = ''HSET'' then
           if argc < 4 \<or> argc mod 2 \<noteq> 0 then (Inl (wrong_arity ''hset''), e)
           else key_call (hset_spec (pair_up (drop 2 c)) e) (\<lambda>n. PInt (int n))
         else if argc \<noteq> 2 then (Inl (wrong_arity ''hgetall''), e)
         else key_call (hgetall_spec e) (\<lambda>xs. PList (map PBytes xs)))"

text \<open>The commands of the database, between the times \<open>now\<close> and \<open>later\<close>.\<close>

inductive db_call :: "int \<Rightarrow> int \<Rightarrow> bytes list \<Rightarrow> kv \<Rightarrow> pyobj res \<Rightarrow> kv \<Rightarrow> bool" for now later where
  call_key: "key_command c \<Longrightarrow> key_step now later c (alive now (M (c ! 1))) = (r, e) \<Longrightarrow> db_call now later c M r (M(c ! 1 := e))"
| call_del: "upper_name c = ''DEL'' \<Longrightarrow> 2 \<le> length c \<Longrightarrow>
    card (set (drop 1 c) \<inter> alive_keys later M) \<le> n \<Longrightarrow> n \<le> card (set (drop 1 c) \<inter> alive_keys now M) \<Longrightarrow>
    db_call now later c M (Inr (PInt (int n))) (\<lambda>k. if k \<in> set (drop 1 c) then None else M k)"
| call_del_arity: "upper_name c = ''DEL'' \<Longrightarrow> length c < 2 \<Longrightarrow> db_call now later c M (Inl (wrong_arity ''del'')) M"
| call_dbsize: "upper_name c = ''DBSIZE'' \<Longrightarrow> length c = 1 \<Longrightarrow>
    db_call now later c M (Inr (PInt (int (card (alive_keys now M))))) M"
| call_dbsize_arity: "upper_name c = ''DBSIZE'' \<Longrightarrow> length c \<noteq> 1 \<Longrightarrow> db_call now later c M (Inl (wrong_arity ''dbsize'')) M"

definition data_command :: "bytes list \<Rightarrow> bool" where
  "data_command c \<longleftrightarrow> key_command c \<or> upper_name c \<in> {''DEL'', ''DBSIZE''}"

section \<open>The handlers implement it\<close>

definition answers :: "pyobj res \<times> server \<Rightarrow> server \<Rightarrow> bytes list \<Rightarrow> kv \<Rightarrow> bool" where
  "answers out s c M \<longleftrightarrow>
     (\<exists>r d M' later. out = (r, s\<lparr>db := d\<rparr>) \<and> db_call (reading (db s)) later c M r M' \<and> represents d M'
        \<and> reading (db s) \<le> later \<and> later \<le> reading d)"

lemma answersI:
  assumes "db_call (reading (db s)) later c M r M'" and "represents d M'" and "reading (db s) \<le> later" and "later \<le> reading d"
  shows "answers (r, s\<lparr>db := d\<rparr>) s c M"
  using assms unfolding answers_def by blast

lemma answers_keyI:
  assumes "key_command c" and "key_step (reading (db s)) later c (alive (reading (db s)) (M (c ! 1))) = (r, e)"
    and "represents d (M(c ! 1 := e))" and "reading (db s) \<le> later" and "later \<le> reading d"
  shows "answers (r, s\<lparr>db := d\<rparr>) s c M"
proof -
  have "db_call (reading (db s)) later c M r (M(c ! 1 := e))" by (rule call_key) (use assms in simp_all)
  then show ?thesis by (rule answersI) (use assms in simp_all)
qed

lemma answers_refused:
  assumes "represents (db s) M" and "key_command c"
    and "key_step (reading (db s)) (reading (db s)) c (alive (reading (db s)) (M (c ! 1))) = (Inl x, alive (reading (db s)) (M (c ! 1)))"
  shows "answers (Inl x, s) s c M"
  using answers_keyI [OF assms(2,3) represents_forget [OF assms(1)]] by simp

lemma answers_call:
  fixes out :: "'r res \<times> key_entry option"
  assumes "key_command c" and out: "fst (f (db s)) = fst out" "represents (snd (f (db s))) (M(c ! 1 := snd out))"
    and le: "reading (db s) \<le> reading (snd (f (db s)))"
    and step: "key_step (reading (db s)) (reading (db s)) c (alive (reading (db s)) (M (c ! 1))) = key_call out wrap"
  shows "answers (store_call f wrap s) s c M"
proof -
  obtain r d where f: "f (db s) = (r, d)" by fastforce
  have "store_call f wrap s = (fst (key_call out wrap), s\<lparr>db := d\<rparr>)"
    using f out(1) by (auto simp: store_call_def on_db_def key_call_def split: sum.splits py_exn.splits)
  moreover have "db_call (reading (db s)) (reading (db s)) c M (fst (key_call out wrap)) (M(c ! 1 := snd out))"
    by (rule call_key [OF assms(1)], unfold step, simp add: key_call_def)
  ultimately show ?thesis using answersI [OF _ out(2), of s "reading (db s)"] le f by simp
qed

lemma more_lookup:
  "dict_get default_handlers ''TTL'' = Some cmd_ttl" "dict_get default_handlers ''HGETALL'' = Some cmd_hgetall"
  "dict_get default_handlers ''DBSIZE'' = Some cmd_dbsize" "dict_get default_handlers ''SAVE'' = Some cmd_save"
  by (simp_all add: default_handlers_def dict_get_def)

lemma length_entries_alive:
  assumes "represents d M"
  shows "length (entries (purge_expired d)) = card (alive_keys (reading d) M)"
proof -
  have inv: "store_inv d" using assms by (simp add: represents_def)
  let ?es = "unexpired (reading d) (entries d)"
  have ok: "dict_ok ?es" using inv by (simp add: dict_ok_unexpired store_invD(1))
  have "set (dict_keys ?es) = alive_keys (reading d) M"
    using represents_now [OF assms] get_unexpired [OF store_invD(1) [OF inv], of "reading d"] pydict.get_None [of ?es]
    by (auto simp: alive_keys_def live_def)
  then show ?thesis
    using distinct_card [OF pydict.ok_distinct [OF ok]] inv by (simp add: purge_entries dict_keys_def)
qed

lemma handlers_timed:
  assumes rep: "represents (db s) M" and c: "data_command (argv ctx)"
    and h: "dict_get default_handlers (upper_name (argv ctx)) = Some h"
  shows "answers (h ctx s) s (argv ctx) M"
proof -
  let ?c = "argv ctx"
  note refuse = answers_refused [OF rep, of ?c]
  note step = key_step_def key_command_def
  consider "upper_name ?c = ''SET''" | "upper_name ?c = ''GET''" | "upper_name ?c = ''EXPIRE''" | "upper_name ?c = ''TTL''"
    | "upper_name ?c = ''LPUSH''" | "upper_name ?c = ''RPOP''" | "upper_name ?c = ''HSET''" | "upper_name ?c = ''HGETALL''"
    | "upper_name ?c = ''DEL''" | "upper_name ?c = ''DBSIZE''"
    using c by (auto simp: data_command_def key_command_def)
  then show ?thesis
  proof cases
    case 1
    have set: "answers (Inr (simple ''OK''), s\<lparr>db := set_string (?c ! 1) (?c ! 2) ex (db s)\<rparr>) s ?c M"
      if "3 \<le> length ?c" "set_options (drop 3 ?c) None = Inr ex" for ex
      using 1 that set_timed [OF rep, of "?c ! 1" "?c ! 2" ex]
      by (intro answers_keyI [where later = "reading (db s)" and e = "set_spec (?c ! 2) ex (reading (db s))"]) (auto simp: step)
    have "h = cmd_set" using h 1 by (simp add: default_lookup)
    with 1 refuse set show ?thesis by (auto simp: cmd_set_def step split: sum.splits)
  next
    case 2
    have "h = cmd_get" using h 2 by (simp add: default_lookup)
    with 2 refuse get_timed.on_timed [OF rep, of "?c ! 1"] show ?thesis
      by (auto simp: cmd_get_def step intro!: answers_call)
  next
    case 3
    have ex: "answers (Inr (PInt (fst (expire (?c ! 1) secs (db s)))), s\<lparr>db := snd (expire (?c ! 1) secs (db s))\<rparr>) s ?c M"
      if "length ?c = 3" "py_int (?c ! 2) = Some secs" for secs
      using 3 that expire_timed(1,2,4) [OF rep, where k = "?c ! 1" and secs = secs] expire_timed(3) [OF rep, of "?c ! 1"]
      by (intro answers_keyI [where later = "reading (snd (touch (?c ! 1) (db s)))"
            and e = "snd (expire_spec secs (reading (snd (touch (?c ! 1) (db s)))) (alive (reading (db s)) (M (?c ! 1))))"])
        (auto simp: step map_prod_def split_beta)
    have "h = cmd_expire" using h 3 by (simp add: default_lookup)
    with 3 refuse ex show ?thesis by (auto simp: cmd_expire_def step on_db_def split_beta split: option.splits)
  next
    case 4
    obtain later where l: "reading (db s) \<le> later" "later \<le> reading (snd (ttl (?c ! 1) (db s)))"
      "fst (ttl (?c ! 1) (db s)) = ttl_spec later (alive (reading (db s)) (M (?c ! 1)))"
      using ttl_timed(1) [OF rep, of "?c ! 1"] by blast
    have "represents (snd (ttl (?c ! 1) (db s))) (M(?c ! 1 := alive (reading (db s)) (M (?c ! 1))))"
      using represents_quiet(1) [OF represents_forget [OF rep] quiet_ttl] .
    then have tt: "answers (Inr (PInt (fst (ttl (?c ! 1) (db s)))), s\<lparr>db := snd (ttl (?c ! 1) (db s))\<rparr>) s ?c M"
      if "length ?c = 2"
      using 4 that l
      by (intro answers_keyI [where later = later and e = "alive (reading (db s)) (M (?c ! 1))"]) (auto simp: step)
    have "h = cmd_ttl" using h 4 by (simp add: more_lookup)
    with 4 refuse tt show ?thesis by (auto simp: cmd_ttl_def step on_db_def split_beta)
  next
    case 5
    have "h = cmd_lpush" using h 5 by (simp add: default_lookup)
    with 5 refuse lpush_timed.on_timed [OF rep, of "?c ! 1" "drop 2 ?c"] show ?thesis
      by (auto simp: cmd_lpush_def step intro!: answers_call)
  next
    case 6
    have "h = cmd_rpop" using h 6 by (simp add: default_lookup)
    with 6 refuse rpop_timed.on_timed [OF rep, of "?c ! 1"] show ?thesis
      by (auto simp: cmd_rpop_def step intro!: answers_call)
  next
    case 7
    have even: "length (drop 2 ?c) mod 2 = 0" if "length ?c mod 2 = 0" using that by simp presburger
    have "h = cmd_hset" using h 7 by (simp add: default_lookup)
    with 7 refuse even hset_timed.on_timed [OF rep, of "?c ! 1" "pair_up (drop 2 ?c)"] show ?thesis
      by (auto simp: cmd_hset_def step Let_def intro!: answers_call)
  next
    case 8
    have "h = cmd_hgetall" using h 8 by (simp add: more_lookup)
    with 8 refuse hgetall_timed.on_timed [OF rep, of "?c ! 1"] show ?thesis
      by (auto simp: cmd_hgetall_def step intro!: answers_call)
  next
    case 9
    obtain n d where op: "delete (drop 1 ?c) (db s) = (n, d)" by fastforce
    with delete_loop_timed [OF rep, of "drop 1 ?c" 0] have d: "deletes (set (drop 1 ?c)) 0 (db s) M (n, d)"
      by (simp add: delete_def)
    have del: "answers (Inr (PInt (int n)), s\<lparr>db := d\<rparr>) s ?c M" if "2 \<le> length ?c"
      using answersI [OF call_del [OF 9 that]] d by (auto simp: deletes_def)
    have none: "answers (Inl (wrong_arity ''del''), s) s ?c M" if "length ?c < 2"
      using answersI [where s = s and later = "reading (db s)", OF call_del_arity [OF 9 that] rep] by simp
    have "h = cmd_del" using h 9 by (simp add: default_lookup)
    with del none op show ?thesis by (auto simp: cmd_del_def on_db_def)
  next
    case 10
    have q: "represents (purge_expired (db s)) M" "reading (db s) \<le> reading (purge_expired (db s))"
      using represents_quiet [OF rep quiet_purge] by simp_all
    have "answers (Inr (PInt (int (length (entries (purge_expired (db s)))))), s\<lparr>db := purge_expired (db s)\<rparr>) s ?c M"
      if "length ?c = 1"
      using answersI [where s = s and later = "reading (db s)", OF call_dbsize [OF 10 that] q(1)] q(2) by (simp add: length_entries_alive [OF rep])
    moreover have "answers (Inl (wrong_arity ''dbsize''), s) s ?c M" if "length ?c \<noteq> 1"
      using answersI [where s = s and later = "reading (db s)", OF call_dbsize_arity [OF 10 that] rep] by simp
    moreover have "h = cmd_dbsize" using h 10 by (simp add: more_lookup)
    ultimately show ?thesis by (auto simp: cmd_dbsize_def on_db_def dbsize_def Let_def)
  qed
qed

section \<open>The server implements it\<close>

text \<open>A disk on which nothing fails.\<close>

definition disk_ok :: "aof_log \<Rightarrow> bool" where
  "disk_ok l \<longleftrightarrow> failure l = None \<and> (\<forall>i. write_result l i = Inr None) \<and> (\<forall>i. \<exists>t. fsync_result l i = Inr t)"

lemma append_disk_ok:
  assumes "log_ready l" and "disk_ok l"
  shows "\<exists>l'. aof_append c l = (Inr (), l') \<and> log_ready l' \<and> disk_ok l' \<and> full_writes l'"
proof -
  obtain t where t: "fsync_result l (Suc (os_calls l)) = Inr t" using assms(2) by (auto simp: disk_ok_def)
  have "\<exists>l'. aof_append c l = (Inr (), l') \<and> disk_ok l'"
    using assms t by (cases "fsync_policy l = Always") (simp_all add: append_defs log_ready_def disk_ok_def)
  then show ?thesis using aof_append_frame [OF assms(1)] by (fastforce simp: disk_ok_def full_writes_def)
qed

text \<open>A log that takes every command: switched off, or on a disk that does not fail.\<close>

definition log_accepts :: "aof_log \<Rightarrow> bool" where
  "log_accepts l \<longleftrightarrow> failure l = None \<and> (\<not> aof_enabled l \<or> log_ready l \<and> disk_ok l)"

lemma append_accepts: "log_accepts l \<Longrightarrow> \<exists>l'. aof_append c l = (Inr (), l') \<and> log_accepts l'"
  using append_disk_ok [of l c] by (auto simp: log_accepts_def aof_append_def disk_ok_def)

text \<open>A running master without a memory limit.\<close>

definition running :: "server \<Rightarrow> kv \<Rightarrow> bool" where
  "running s M \<longleftrightarrow> represents (db s) M \<and> \<not> is_replica (config s) \<and> log_accepts (aof s)"

definition may_use :: "nat \<Rightarrow> server \<Rightarrow> bool" where
  "may_use conn s \<longleftrightarrow> cfg_requirepass (config s) = None \<or> conn \<in> authenticated s"

text \<open>What a handler's result becomes on the wire.\<close>

definition reply_of :: "pyobj res \<Rightarrow> bytes option res" where
  "reply_of r =
     (case r of
        Inr v \<Rightarrow> encode_reply v
      | Inl (RespError m) \<Rightarrow> error_reply m
      | Inl _ \<Rightarrow> error_reply (lit ''ERR internal error''))"

text \<open>The log after a command with the result \<open>r\<close>.\<close>

definition logged :: "bytes list \<Rightarrow> pyobj res \<Rightarrow> aof_log \<Rightarrow> aof_log" where
  "logged c r l =
     (case r of Inl _ \<Rightarrow> l | Inr _ \<Rightarrow> if upper_name c \<in> set WRITE_COMMANDS then snd (aof_append c l) else l)"

lemma persist_accepts:
  assumes "log_accepts (aof s)" and "\<not> is_replica (config s)"
  shows "\<exists>s'. persist (client_context conn c) w [] s = (Inr (), s') \<and> log_accepts (aof s') \<and> db s' = db s
    \<and> config s' = config s \<and> authenticated s' = authenticated s \<and> rdb_file s' = rdb_file s
    \<and> disk_result s' = disk_result s \<and> aof s' = (if w then snd (aof_append c (aof s)) else aof s)"
proof -
  obtain l where "aof_append c (aof s) = (Inr (), l)" "log_accepts l" using append_accepts [OF assms(1)] by blast
  with assms show ?thesis
    by (auto simp: persist_def client_context_def log_and_propagate_def log_command_def propagate_command_def)
qed

lemma key_call_replies [simp]:
  "key_call out bulk_or_nil \<noteq> (Inr PNoReply, e)" "key_call out' (\<lambda>n. PInt (int n)) \<noteq> (Inr PNoReply, e)"
  "key_call out'' (\<lambda>xs. PList (map PBytes xs)) \<noteq> (Inr PNoReply, e)"
  by (auto simp: key_call_def bulk_or_nil_def split: sum.splits py_exn.splits option.splits)

lemma db_call_reply: "db_call now later c M r M' \<Longrightarrow> r \<noteq> Inr PNoReply"
  by (induction rule: db_call.induct)
    (auto simp: key_step_def key_command_def Let_def simple_def map_prod_def split_beta split: if_splits sum.splits option.splits)

lemma execute_dispatch:
  assumes s: "log_accepts (aof s)" "\<not> is_replica (config s)" "may_use conn s"
    and d: "dispatch create_default_registry (client_context conn c) (snd (prep (upper_name c \<in> set WRITE_COMMANDS) s)) = (r, s2)"
    and s2: "maxmemory_bytes (db s2) \<le> 0" "aof s2 = aof s" "config s2 = config s" "r \<noteq> Inr PNoReply"
  shows "\<exists>s'. execute conn c s = (reply_of r, s') \<and> log_accepts (aof s') \<and> db s' = db s2 \<and> config s' = config s
    \<and> authenticated s' = authenticated s2 \<and> rdb_file s' = rdb_file s2 \<and> disk_result s' = disk_result s2
    \<and> aof s' = logged c r (aof s)"
proof -
  let ?ctx = "client_context conn c" and ?w = "upper_name c \<in> set WRITE_COMMANDS"
  have "healthy (aof s)" using s(1) by (simp add: log_accepts_def healthy_def)
  then have ex: "execute conn c s =
      (case r of
         Inl (RespError m) \<Rightarrow> (error_reply m, count_failed s2)
       | Inl e \<Rightarrow> (error_reply (lit ''ERR internal error''), count_failed s2)
       | Inr v \<Rightarrow> after_dispatch ?ctx ?w (fst (prep ?w s)) v s2)"
    using s(3) d
    by (cases r; cases ?w)
      (auto simp: execute_def execute_inner_def prep_def client_context_def may_use_def split_beta Let_def split: py_exn.splits)
  show ?thesis
  proof (cases r)
    case (Inl e)
    then have "execute conn c s = (reply_of r, count_failed s2)"
      using ex by (simp add: reply_of_def split: py_exn.splits)
    with Inl s(1) s2 show ?thesis by (auto simp: count_failed_def logged_def)
  next
    case (Inr v)
    obtain s' where p: "persist ?ctx ?w [] s2 = (Inr (), s')" "log_accepts (aof s')" "db s' = db s2" "config s' = config s2"
      "authenticated s' = authenticated s2" "rdb_file s' = rdb_file s2" "disk_result s' = disk_result s2"
      "aof s' = (if ?w then snd (aof_append c (aof s2)) else aof s2)"
      using persist_accepts [of s2 conn c ?w] s s2 by auto
    have "v \<noteq> PNoReply" using s2(4) Inr by simp
    from after_dispatch_ok [OF s2(1) this p(1)] ex Inr p s2 show ?thesis by (auto simp: reply_of_def logged_def)
  qed
qed

lemma execute_refines:
  assumes s: "running s M" "may_use conn s" and c: "data_command c"
  shows "\<exists>r M' now later s'. execute conn c s = (reply_of r, s') \<and> db_call now later c M r M' \<and> running s' M'
    \<and> reading (db s) \<le> now \<and> now \<le> later \<and> later \<le> reading (db s') \<and> config s' = config s \<and> authenticated s' = authenticated s
    \<and> rdb_file s' = rdb_file s \<and> disk_result s' = disk_result s \<and> aof s' = logged c r (aof s)"
proof -
  let ?w = "upper_name c \<in> set WRITE_COMMANDS" and ?ctx = "client_context conn c"
  let ?s1 = "snd (prep ?w s)"
  have s1: "represents (db ?s1) M" "reading (db s) \<le> reading (db ?s1)"
    using represents_quiet [OF _ prep_frame(5) [of s ?w], of M] s(1) by (simp_all add: running_def)
  have frame: "rdb_file ?s1 = rdb_file s" "disk_result ?s1 = disk_result s" by (simp_all add: prep_def on_db_simps)
  obtain name args where name: "c = name # args" "upper_name c = py_upper name"
    using c by (cases c) (auto simp: data_command_def key_command_def upper_name_def)
  obtain h where h: "dict_get default_handlers (upper_name c) = Some h"
    using c by (auto simp: data_command_def key_command_def default_lookup more_lookup)
  have "dispatch create_default_registry ?ctx ?s1 = h ?ctx ?s1"
    using name h s(1) by (simp add: dispatch_def client_context_def reg_get_default running_def)
  moreover have "answers (h ?ctx ?s1) ?s1 c M"
    using handlers_timed [OF s1(1), of ?ctx h] c h by (simp add: client_context_def)
  ultimately obtain r d M' later where d: "dispatch create_default_registry ?ctx ?s1 = (r, ?s1\<lparr>db := d\<rparr>)"
    "db_call (reading (db ?s1)) later c M r M'" "represents d M'" "reading (db ?s1) \<le> later" "later \<le> reading d"
    by (auto simp: answers_def)
  obtain s' where s': "execute conn c s = (reply_of r, s')" "log_accepts (aof s')" "db s' = d" "config s' = config s"
    "authenticated s' = authenticated s" "rdb_file s' = rdb_file s" "disk_result s' = disk_result s"
    "aof s' = logged c r (aof s)"
    using execute_dispatch [OF _ _ s(2) d(1)] s(1) d(3) db_call_reply [OF d(2)] frame
    by (auto simp: running_def represents_def)
  then have "running s' M'" using s(1) d(3) by (simp add: running_def)
  with s' d s1(2) show ?thesis by (intro exI [of _ r] exI [of _ M'] exI [of _ "reading (db ?s1)"] exI [of _ later] exI [of _ s']) auto
qed

section \<open>Histories\<close>

text \<open>A run of the abstract database from time \<open>t\<close> on, with the reply to every command.\<close>

inductive db_run :: "int \<Rightarrow> kv \<Rightarrow> (bytes list \<times> bytes option res) list \<Rightarrow> kv \<Rightarrow> bool" where
  db_nil: "db_run t M [] M"
| db_next: "t \<le> now \<Longrightarrow> now \<le> later \<Longrightarrow> db_call now later c M r M1 \<Longrightarrow> db_run later M1 h M2 \<Longrightarrow>
    db_run t M ((c, reply_of r) # h) M2"

inductive_cases db_run_ConsE: "db_run t M (x # h) M'"

lemma db_run_earlier: "db_run t' M h M' \<Longrightarrow> t \<le> t' \<Longrightarrow> db_run t M h M'"
proof (induction rule: db_run.induct)
  case (db_next t' now later c M r M1 h M2)
  then have "t \<le> now" by simp
  then show ?case using db_next.hyps by (intro db_run.db_next)
qed (rule db_nil)

lemma serve_requests_refine:
  assumes "running s M" and "\<forall>(conn, c)\<in>set reqs. data_command c \<and> may_use conn s" and "serve_requests reqs s = (rs, s')"
  shows "\<exists>M'. db_run (reading (db s)) M (zip (map snd reqs) rs) M' \<and> running s' M' \<and> length rs = length reqs
    \<and> rdb_file s' = rdb_file s"
  using assms
proof (induction reqs arbitrary: s M rs)
  case Nil
  then show ?case by (auto intro: db_nil)
next
  case (Cons req reqs)
  obtain conn c where req: "req = (conn, c)" by fastforce
  obtain r M1 now later s1 where c: "execute conn c s = (reply_of r, s1)" "db_call now later c M r M1" "running s1 M1"
    "reading (db s) \<le> now" "now \<le> later" "later \<le> reading (db s1)" "config s1 = config s" "authenticated s1 = authenticated s"
    "rdb_file s1 = rdb_file s"
    using execute_refines [OF Cons.prems(1), of conn c] Cons.prems(2) req by auto
  obtain rs1 where rest: "serve_requests reqs s1 = (rs1, s')" "rs = reply_of r # rs1"
    using Cons.prems(3) c(1) req by (auto split: prod.splits)
  have "\<forall>(conn, c)\<in>set reqs. data_command c \<and> may_use conn s1"
    using Cons.prems(2) c(7,8) by (auto simp: may_use_def)
  from Cons.IH [OF c(3) this rest(1)] obtain M' where
    M': "db_run (reading (db s1)) M1 (zip (map snd reqs) rs1) M'" "running s' M'" "length rs1 = length reqs"
    "rdb_file s' = rdb_file s1" by blast
  from db_next [OF c(4,5,2) db_run_earlier [OF M'(1) c(6)]] M'(2-4) c(9) show ?case by (auto simp: req rest(2))
qed

text \<open>C1: The server is a database: on a running master whose log takes every command, the replies to any
  sequence of \<open>SET\<close>, \<open>GET\<close>, \<open>EXPIRE\<close>, \<open>TTL\<close>, \<open>LPUSH\<close>, \<open>RPOP\<close>, \<open>HSET\<close>, \<open>HGETALL\<close>, \<open>DEL\<close> and \<open>DBSIZE\<close> requests of
  any clients that may use it, well-formed or not, are byte for byte those of the abstract database,
  a map of entries with deadlines of which only what is alive is seen, at non-decreasing times; and
  the keyspace it ends with is the map the abstract database ends with.\<close>

theorem server_is_database:
  assumes "running s M" and "\<forall>(conn, c)\<in>set reqs. data_command c \<and> may_use conn s"
    and "serve_requests reqs s = (rs, s')"
  shows "\<exists>M'. db_run (reading (db s)) M (zip (map snd reqs) rs) M' \<and> length rs = length reqs
    \<and> (\<forall>m\<ge>reading (db s'). live m (db s') = (\<lambda>k. alive m (M' k)))"
  using serve_requests_refine [OF assms] by (auto simp: running_def represents_def)

lemma sample_running: "running (sample_server default_config) (\<lambda>k. None)"
proof -
  have "fresh (db (sample_server default_config))"
    by (simp add: fresh_def new_store_inv) (simp add: new_store_def mono_def default_config_def)
  then have "represents (db (sample_server default_config)) (\<lambda>k. None)" by (intro holds_represents fresh_holds)
  moreover have "disk_ok (running_log Everysec)"
    by (simp add: disk_ok_def running_log_def start_background_fsync_def aof_open_def AOFLog_def)
  ultimately show ?thesis
    using running_log_ready [of Everysec]
    by (simp add: running_def log_accepts_def disk_ok_def) (simp add: default_config_def is_replica_def)
qed

theorem server_is_database_witness:
  "\<exists>M'. db_run (reading (db (sample_server default_config))) (\<lambda>k. None)
      (zip [[''SET'', ''k'', ''v'', ''EX'', ''10''], [''TTL'', ''k'']]
        (fst (serve_requests [(1, [''SET'', ''k'', ''v'', ''EX'', ''10'']), (2, [''TTL'', ''k''])] (sample_server default_config)))) M'"
proof -
  let ?s = "sample_server default_config" and ?reqs = "[(1, [''SET'', ''k'', ''v'', ''EX'', ''10'']), (2, [''TTL'', ''k''])]"
  have "py_upper ''TTL'' = ''TTL''" by code_simp
  then have reqs: "\<forall>(conn, c)\<in>set ?reqs. data_command c \<and> may_use conn ?s"
    by (simp add: data_command_def key_command_def upper_name_def upper_names may_use_def default_config_def)
  have "serve_requests ?reqs ?s = (fst (serve_requests ?reqs ?s), snd (serve_requests ?reqs ?s))" by simp
  from server_is_database [OF sample_running reqs this] show ?thesis by auto
qed

end
