(* ===== verification/Benchmark.thy ===== *)
theory Benchmark
  imports Lifecycle Replica_Correct Database
begin

text \<open>
  The benchmark client of \<open>tools/benchmark.py\<close>, and the client and the server together: the client
  talks to a peer, which answers a request by the chunks that then arrive; with the server of this
  development as the peer, both streams cut anywhere, every request of a worker is answered.

  Latencies are kept in nanoseconds; their conversion to milliseconds and the rounding of the report
  are left out.
\<close>

section \<open>Requests\<close>

definition build_command :: "string \<Rightarrow> nat \<Rightarrow> nat \<Rightarrow> bytes list res" where
  "build_command command worker_id index =
     (if command = ''ping'' then Inr [''PING'']
      else if command = ''set''
        then Inr [''SET'', ''benchmark:'' @ dec_nat worker_id @ '':'' @ dec_nat index, ''value'']
      else if command = ''get'' then Inr [''GET'', ''benchmark:shared'']
      else Inl ValueError)"

text \<open>The exceptions a client ends with: \<open>ConnectionError\<close>, \<open>RuntimeError\<close>, or one of a called function.\<close>

datatype bench_error = ServerClosed | ErrorReply pystr | ClientRaised py_exn

text \<open>
  \<open>read_reply\<close>: the first message the parser reports; messages behind it are dropped. The chunks are
  what successive reads return, and a list that runs out stands for a closed connection.
\<close>

fun read_reply :: "resp_parser \<Rightarrow> bytes list \<Rightarrow> (bench_error + pyobj) \<times> resp_parser \<times> bytes list" where
  "read_reply p [] =
     (case feed p [] of
        (Inl e, p1) \<Rightarrow> (Inl (ClientRaised e), p1, [])
      | (Inr (m # _), p1) \<Rightarrow> (Inr m, p1, [])
      | (Inr [], p1) \<Rightarrow> (Inl ServerClosed, p1, []))"
| "read_reply p (c # cs) =
     (case feed p [] of
        (Inl e, p1) \<Rightarrow> (Inl (ClientRaised e), p1, c # cs)
      | (Inr (m # _), p1) \<Rightarrow> (Inr m, p1, c # cs)
      | (Inr [], p1) \<Rightarrow>
          if c = [] then (Inl ServerClosed, p1, cs)
          else
            (case feed p1 c of
               (Inl e, p2) \<Rightarrow> (Inl (ClientRaised e), p2, cs)
             | (Inr (m # _), p2) \<Rightarrow> (Inr m, p2, cs)
             | (Inr [], p2) \<Rightarrow> read_reply p2 cs))"

text \<open>An open connection of the client. The peer is told what is written and says what arrives.\<close>

record 'w client =
  peer_state :: 'w
  arriving :: "bytes list"
  reply_parser :: resp_parser

type_synonym 'w peer = "bytes \<Rightarrow> 'w \<Rightarrow> bytes list \<times> 'w"

definition open_connection :: "'w \<Rightarrow> 'w client" where
  "open_connection w = \<lparr>peer_state = w, arriving = [], reply_parser = default_parser\<rparr>"

definition send_command :: "'w peer \<Rightarrow> bytes list \<Rightarrow> 'w client \<Rightarrow> (bench_error + pyobj) \<times> 'w client" where
  "send_command peer cmd c =
     (let (cs, w) = peer (encode_command cmd) (peer_state c);
          (r, p, rest) = read_reply (reply_parser c) (arriving c @ cs);
          c1 = c\<lparr>peer_state := w, arriving := rest, reply_parser := p\<rparr>
      in (case r of Inr (PErrorMsg m) \<Rightarrow> (Inl (ErrorReply m), c1) | _ \<Rightarrow> (r, c1)))"

text \<open>The \<open>AUTH\<close> both kinds of connection begin with when there is a password.\<close>

definition login :: "'w peer \<Rightarrow> pystr option \<Rightarrow> 'w client \<Rightarrow> (bench_error + unit) \<times> 'w client" where
  "login peer password c =
     (case password of
        None \<Rightarrow> (Inr (), c)
      | Some pw \<Rightarrow>
          (case utf8_encode pw of
             Inl e \<Rightarrow> (Inl (ClientRaised e), c)
           | Inr b \<Rightarrow>
               (case send_command peer [''AUTH'', b] c of (Inl e, c1) \<Rightarrow> (Inl e, c1) | (Inr _, c1) \<Rightarrow> (Inr (), c1))))"

text \<open>The requests of a worker; \<open>perf\<close> gives the successive values of \<open>time.perf_counter_ns()\<close>.\<close>

fun worker_loop ::
  "'w peer \<Rightarrow> (nat \<Rightarrow> int) \<Rightarrow> string \<Rightarrow> nat \<Rightarrow> nat list \<Rightarrow> int list \<Rightarrow> 'w client \<Rightarrow> (bench_error + int list) \<times> 'w client" where
  "worker_loop peer perf command worker_id [] latencies c = (Inr latencies, c)"
| "worker_loop peer perf command worker_id (i # is) latencies c =
     (case build_command command worker_id i of
        Inl e \<Rightarrow> (Inl (ClientRaised e), c)
      | Inr cmd \<Rightarrow>
          (case send_command peer cmd c of
             (Inl e, c1) \<Rightarrow> (Inl e, c1)
           | (Inr _, c1) \<Rightarrow>
               worker_loop peer perf command worker_id is (latencies @ [perf (2 * i + 1) - perf (2 * i)]) c1))"

definition run_worker ::
  "'w peer \<Rightarrow> (nat \<Rightarrow> int) \<Rightarrow> string \<Rightarrow> nat \<Rightarrow> nat \<Rightarrow> pystr option \<Rightarrow> 'w \<Rightarrow> (bench_error + int list) \<times> 'w client" where
  "run_worker peer perf command worker_id request_count password w =
     (case login peer password (open_connection w) of
        (Inl e, c) \<Rightarrow> (Inl e, c)
      | (Inr _, c) \<Rightarrow> worker_loop peer perf command worker_id [0..<request_count] [] c)"

definition prepare_get_key :: "'w peer \<Rightarrow> pystr option \<Rightarrow> 'w \<Rightarrow> (bench_error + unit) \<times> 'w client" where
  "prepare_get_key peer password w =
     (case login peer password (open_connection w) of
        (Inl e, c) \<Rightarrow> (Inl e, c)
      | (Inr _, c) \<Rightarrow>
          (case send_command peer [''SET'', ''benchmark:shared'', ''value''] c of
             (Inl e, c1) \<Rightarrow> (Inl e, c1)
           | (Inr _, c1) \<Rightarrow> (Inr (), c1)))"

section \<open>Shares and percentiles\<close>

definition worker_share :: "nat \<Rightarrow> nat \<Rightarrow> nat \<Rightarrow> nat" where
  "worker_share requests concurrency worker_id =
     requests div concurrency + (if worker_id < requests mod concurrency then 1 else 0)"

text \<open>Float multiplication and addition of finite numbers, exact and then rounded, and \<open>int(x)\<close>.\<close>

fun float_mul :: "pyfloat \<Rightarrow> pyfloat \<Rightarrow> pyfloat" where
  "float_mul (Finite m1 e1) (Finite m2 e2) = round_double (m1 * m2) (e1 + e2)"
| "float_mul x y = NaN"

fun float_add :: "pyfloat \<Rightarrow> pyfloat \<Rightarrow> pyfloat" where
  "float_add (Finite m1 e1) (Finite m2 e2) =
     (let e = min e1 e2 in round_double (m1 * 2 ^ nat (e1 - e) + m2 * 2 ^ nat (e2 - e)) e)"
| "float_add x y = NaN"

fun float_trunc :: "pyfloat \<Rightarrow> int res" where
  "float_trunc (Finite m e) = Inr (if 0 \<le> e then m * 2 ^ nat e else sgn m * (\<bar>m\<bar> div 2 ^ nat (- e)))"
| "float_trunc NaN = Inl ValueError"
| "float_trunc x = Inl OverflowError"

text \<open>\<open>int(n * ratio + 0.999999)\<close>; the literal is \<open>9007190247541737 * 2 ^ -53\<close>.\<close>

definition float_rank :: "nat \<Rightarrow> pyfloat \<Rightarrow> int res" where
  "float_rank n ratio =
     float_trunc (float_add (float_mul (round_double (int n) 0) ratio) (Finite 9007190247541737 (- 53)))"

definition percentile :: "'a::linorder list \<Rightarrow> pyfloat \<Rightarrow> 'a res" where
  "percentile values ratio =
     (if values = [] then Inl ValueError
      else if ratio = NaN \<or> float_less ratio (Finite 0 0) \<or> float_less (Finite 1 0) ratio then Inl ValueError
      else
        bind_res (float_rank (length values) ratio) (\<lambda>rank.
          let index = min (int (length values) - 1) (max 0 (rank - 1)) in Inr (sort values ! nat index)))"

text \<open>The part of the report that concerns the latencies, from the lists the workers return.\<close>

record 'a report =
  rep_requests :: nat
  lat_min :: 'a
  lat_p50 :: 'a
  lat_p95 :: 'a
  lat_p99 :: 'a
  lat_max :: 'a

definition latency_report :: "'a::linorder list list \<Rightarrow> 'a report res" where
  "latency_report batches =
     (let latencies = concat batches
      in if latencies = [] then Inl ValueError
         else
           bind_res (percentile latencies (Finite 4503599627370496 (- 53))) (\<lambda>p50.
           bind_res (percentile latencies (Finite 8556839292003942 (- 53))) (\<lambda>p95.
           bind_res (percentile latencies (Finite 8917127262193582 (- 53))) (\<lambda>p99.
             Inr \<lparr>rep_requests = length latencies, lat_min = Min (set latencies), lat_p50 = p50, lat_p95 = p95,
                   lat_p99 = p99, lat_max = Max (set latencies)\<rparr>))))"

text \<open>The checks of \<open>main\<close> on the parsed options, in order.\<close>

definition benchmark_checks :: "int \<Rightarrow> int \<Rightarrow> int \<Rightarrow> unit res" where
  "benchmark_checks port requests concurrency =
     (if \<not> (1 \<le> port \<and> port \<le> 65535) then Inl (UsageError ''port'')
      else if requests \<le> 0 then Inl (UsageError ''requests'')
      else if \<not> (1 \<le> concurrency \<and> concurrency \<le> requests) then Inl (UsageError ''concurrency'')
      else Inr ())"

section \<open>The split of the requests\<close>

lemma sum_worker_share:
  assumes "0 < c"
  shows "(\<Sum>i<c. worker_share n c i) = n"
proof -
  have "(\<Sum>i<c. if i < n mod c then 1 else 0) = card {i. i < c \<and> i < n mod c}"
    by (simp add: sum.If_cases Int_def lessThan_def)
  also have "{i. i < c \<and> i < n mod c} = {..<n mod c}" using mod_less_divisor [OF assms, of n] by auto
  finally show ?thesis by (simp add: worker_share_def sum.distrib)
qed

text \<open>Accepted options give every worker at least one request.\<close>

lemma worker_share_pos:
  assumes "benchmark_checks port (int n) (int c) = Inr ()"
  shows "0 < c" "1 \<le> worker_share n c i"
proof -
  have "1 \<le> c" "c \<le> n" using assms by (auto simp: benchmark_checks_def split: if_splits)
  then show "0 < c" "1 \<le> worker_share n c i" by (simp_all add: worker_share_def div_greater_zero_iff Suc_le_eq add.commute trans_less_add1)
qed

section \<open>Percentiles\<close>

text \<open>Rounding to 53 significant bits, on integers.\<close>

definition round53 :: "int \<Rightarrow> int" where
  "round53 a = (let k = bit_length (nat a) - 53 in round_half_even a (2 ^ k) * 2 ^ k)"

lemma bit_length_bounds: "n < 2 ^ bit_length n" "0 < n \<Longrightarrow> 2 ^ (bit_length n - 1) \<le> n"
proof (induction n rule: bit_length.induct)
  case (1 n)
  { case 1
    show ?case using "1.IH"(1) by (cases "n = 0") (auto simp: bit_length.simps [of n])
  next
    case 2
    show ?case
    proof (cases "n div 2 = 0")
      case True
      with 2 have "n = 1" by simp
      then show ?thesis by (simp add: bit_length.simps)
    next
      case False
      with "1.IH"(2) 2 have "2 ^ (bit_length (n div 2) - 1) \<le> n div 2" by simp
      moreover have "bit_length n = Suc (bit_length (n div 2))" "0 < bit_length (n div 2)"
        using 2 False by (simp_all add: bit_length.simps [of n] bit_length.simps [of "n div 2"])
      ultimately show ?thesis by (cases "bit_length (n div 2)") simp_all
    qed }
qed

lemma round_half_even_mono:
  assumes "a \<le> b" and "0 < d"
  shows "round_half_even a d \<le> round_half_even b d"
proof (cases "a div d = b div d")
  case True
  then have "a mod d = a - d * (b div d)" "b mod d = b - d * (b div d)" using minus_mult_div_eq_mod [of _ d] by (metis, metis)
  then have "a mod d \<le> b mod d" using assms(1) by simp
  with True show ?thesis by (auto simp: round_half_even_def Let_def)
next
  case False
  with zdiv_mono1 [OF assms] have "a div d + 1 \<le> b div d" by simp
  then show ?thesis by (auto simp: round_half_even_def Let_def)
qed

lemma round_half_even_bounds:
  assumes "0 < d"
  shows "a \<le> c * d \<Longrightarrow> round_half_even a d \<le> c" "c * d \<le> a \<Longrightarrow> c \<le> round_half_even a d"
proof -
  have "round_half_even (c * d) d = c" using assms by (simp add: round_half_even_def)
  then show "a \<le> c * d \<Longrightarrow> round_half_even a d \<le> c" "c * d \<le> a \<Longrightarrow> c \<le> round_half_even a d"
    using round_half_even_mono [OF _ assms] by metis+
qed

lemma bit_length_0 [simp]: "bit_length 0 = 0"
  by (simp add: bit_length.simps)

text \<open>Rounding keeps a number below or above a power of two that is.\<close>

lemma round53_below:
  assumes "0 \<le> a" and "bit_length (nat a) \<le> 53 + k"
  shows "round53 a \<le> 2 ^ (53 + k)"
proof -
  let ?k = "bit_length (nat a) - 53"
  have "nat a < 2 ^ (53 + ?k)" using bit_length_bounds(1) [of "nat a"] by (rule less_le_trans) simp
  then have "a \<le> 2 ^ 53 * 2 ^ ?k" using assms(1) by (simp add: nat_less_iff power_add)
  then have "round_half_even a (2 ^ ?k) \<le> 2 ^ 53" by (intro round_half_even_bounds) simp_all
  then have "round53 a \<le> 2 ^ 53 * 2 ^ ?k" by (simp add: round53_def Let_def)
  also have "\<dots> \<le> 2 ^ (53 + k)" using assms(2) by (simp add: power_add)
  finally show ?thesis .
qed

lemma round53_above:
  assumes "53 < bit_length (nat b)"
  shows "2 ^ (bit_length (nat b) - 1) \<le> round53 b"
proof -
  let ?k = "bit_length (nat b) - 53"
  have "0 < nat b" using assms by (cases "nat b = 0") simp_all
  from bit_length_bounds(2) [OF this] have "int (2 ^ (bit_length (nat b) - 1)) \<le> int (nat b)" by (rule of_nat_mono)
  then have le: "(2::int) ^ (bit_length (nat b) - 1) \<le> b" using \<open>0 < nat b\<close> by simp
  have "bit_length (nat b) - 1 = 52 + ?k" using assms by simp
  then have "(2::int) ^ (bit_length (nat b) - 1) = 2 ^ (52 + ?k)" by (rule arg_cong)
  also have "\<dots> = 2 ^ 52 * 2 ^ ?k" by (rule power_add)
  finally have e: "(2::int) ^ (bit_length (nat b) - 1) = 2 ^ 52 * 2 ^ ?k" .
  with le have "2 ^ 52 \<le> round_half_even b (2 ^ ?k)" by (intro round_half_even_bounds) simp_all
  then show ?thesis unfolding e round53_def Let_def by (intro mult_right_mono) simp_all
qed

lemma round53_mono:
  assumes "0 \<le> a" and "a \<le> b"
  shows "round53 a \<le> round53 b"
proof -
  let ?a = "bit_length (nat a)" and ?b = "bit_length (nat b)"
  have "?a \<le> ?b"
  proof (rule ccontr)
    assume "\<not> ?a \<le> ?b"
    then have "0 < nat a" "?b \<le> ?a - 1" by (cases "nat a = 0", simp_all)
    with bit_length_bounds(2) [of "nat a"] have "2 ^ ?b \<le> nat a" by (meson le_trans one_le_numeral power_increasing)
    with bit_length_bounds(1) [of "nat b"] assms show False by simp
  qed
  then consider "?a - 53 = ?b - 53" | "?a - 53 < ?b - 53" by linarith
  then show ?thesis
  proof cases
    case 1
    with round_half_even_mono [OF assms(2)] show ?thesis by (simp add: round53_def Let_def)
  next
    case 2
    have "round53 a \<le> 2 ^ (53 + (?a - 53))" using assms(1) by (intro round53_below) simp_all
    also have "\<dots> \<le> 2 ^ (?b - 1)" using 2 by (intro power_increasing) simp_all
    also have "\<dots> \<le> round53 b" using 2 by (intro round53_above) simp
    finally show ?thesis .
  qed
qed

lemma bit_length_le: "n < 2 ^ k \<Longrightarrow> bit_length n \<le> k"
proof (rule ccontr)
  assume n: "n < 2 ^ k" "\<not> bit_length n \<le> k"
  then have "0 < n" "k \<le> bit_length n - 1" by (cases "n = 0", simp_all)
  with bit_length_bounds(2) [of n] have "2 ^ k \<le> n" by (meson le_trans one_le_numeral power_increasing)
  with n(1) show False by simp
qed

lemma round53_bound: "0 \<le> a \<Longrightarrow> a < 2 ^ (53 + k) \<Longrightarrow> round53 a \<le> 2 ^ (53 + k)"
  by (intro round53_below bit_length_le) (simp_all add: nat_less_iff)

lemma round53_nonneg: "0 \<le> a \<Longrightarrow> 0 \<le> round53 a"
  using round53_mono [of 0 a] by (simp add: round53_def round_half_even_def)

lemma round_double_53:
  assumes "0 \<le> a" and "a < 2 ^ 200"
  obtains q k where "round_double a (- 53) = Finite q (int k - 53)" "q * 2 ^ k = round53 a" "0 \<le> q"
proof
  let ?k = "bit_length (nat a) - 53"
  let ?q = "round_half_even a (2 ^ ?k)"
  show prod: "?q * 2 ^ ?k = round53 a" by (simp add: round53_def Let_def)
  show q: "0 \<le> ?q" using round_half_even_bounds(2) [of "2 ^ ?k" 0 a] assms(1) by simp
  have "?q * 2 ^ nat (int ?k - 53) \<le> ?q * 2 ^ ?k" using q by (intro mult_left_mono power_increasing) simp_all
  also have "\<dots> \<le> 2 ^ (53 + 147)" using round53_bound [of a 147] assms by (simp add: prod)
  also have "\<dots> < 2 ^ 1024" by (rule power_strict_increasing) simp_all
  finally have small: "\<not> (0 \<le> int ?k - 53 \<and> 2 ^ 1024 \<le> ?q * 2 ^ nat (int ?k - 53))" by simp
  have "sgn a * ?q = ?q" using assms(1) by (cases "a = 0") (simp_all add: round_half_even_def)
  with small assms(1) show "round_double a (- 53) = Finite ?q (int ?k - 53)"
    by (simp add: round_double_def Let_def)
qed

lemma float_trunc_53:
  assumes "0 \<le> q"
  shows "float_trunc (Finite q (int k - 53)) = Inr (q * 2 ^ k div 2 ^ 53)"
proof (cases "53 \<le> k")
  case True
  then have "(2::int) ^ k = 2 ^ (k - 53) * 2 ^ 53" using power_add [of "2::int" "k - 53" 53] by simp
  moreover have "nat (int k - 53) = k - 53" by simp
  ultimately show ?thesis using True by (simp add: mult.assoc [symmetric])
next
  case False
  then have pow: "(2::int) ^ 53 = 2 ^ (53 - k) * 2 ^ k" using power_add [of "2::int" "53 - k" k] by simp
  have "q * 2 ^ k div 2 ^ 53 = q div 2 ^ (53 - k)" unfolding pow by simp
  moreover have "nat (- (int k - 53)) = 53 - k" by simp
  moreover have "sgn q * (\<bar>q\<bar> div d) = q div d" for d using assms by (cases "q = 0") simp_all
  ultimately show ?thesis using False by simp
qed

text \<open>What \<open>percentile\<close> computes, for the multiples of \<open>2 ^ -53\<close> between 0 and 1.\<close>

lemma float_rank_eq:
  assumes "n < 2 ^ 53" and "0 \<le> m" and "m \<le> 2 ^ 53"
  shows "float_rank n (Finite m (- 53)) = Inr (round53 (round53 (int n * m) + 9007190247541737) div 2 ^ 53)"
proof -
  have "bit_length n \<le> 53" by (rule bit_length_le [OF assms(1)])
  moreover have "sgn (int n) * int n = int n" by (cases "n = 0") simp_all
  ultimately have n: "round_double (int n) 0 = Finite (int n) 0"
    using assms(1) by (simp add: round_double_def round_half_even_def)
  have nm: "0 \<le> int n * m" "int n * m \<le> 2 ^ 53 * 2 ^ 53"
    using assms by (simp, intro mult_mono) simp_all
  then have lt: "int n * m < 2 ^ 200" by simp
  obtain q k where q: "round_double (int n * m) (- 53) = Finite q (int k - 53)" "q * 2 ^ k = round53 (int n * m)" "0 \<le> q"
    by (rule round_double_53 [OF nm(1) lt])
  have "round53 (int n * m) \<le> 2 ^ (53 + 54)" using nm by (intro round53_bound) simp_all
  then have b: "0 \<le> round53 (int n * m) + 9007190247541737" "round53 (int n * m) + 9007190247541737 < 2 ^ 200"
    using round53_nonneg [OF nm(1)] by simp_all
  obtain q' k' where q': "round_double (round53 (int n * m) + 9007190247541737) (- 53) = Finite q' (int k' - 53)"
    "q' * 2 ^ k' = round53 (round53 (int n * m) + 9007190247541737)" "0 \<le> q'"
    by (rule round_double_53 [OF b])
  have "min (int k - 53) (- 53) = - 53" by simp
  with n q q' float_trunc_53 [OF q'(3), of k'] show ?thesis by (simp add: float_rank_def)
qed

definition rank_index :: "nat \<Rightarrow> int \<Rightarrow> nat" where
  "rank_index n m =
     nat (min (int n - 1) (max 0 (round53 (round53 (int n * m) + 9007190247541737) div 2 ^ 53 - 1)))"

lemma percentile_eq:
  assumes "values \<noteq> []" and "length values < 2 ^ 53" and "0 \<le> m" and "m \<le> 2 ^ 53"
  shows "percentile values (Finite m (- 53)) = Inr (sort values ! rank_index (length values) m)"
  using assms float_rank_eq [OF assms(2-4)] by (simp add: percentile_def rank_index_def)

lemma rank_index_mono: "0 \<le> m1 \<Longrightarrow> m1 \<le> m2 \<Longrightarrow> rank_index n m1 \<le> rank_index n m2"
  unfolding rank_index_def
  by (intro nat_mono min.mono max.mono diff_right_mono zdiv_mono1 round53_mono add_right_mono add_nonneg_nonneg
      round53_nonneg mult_left_mono order_refl) simp_all

lemma rank_index_less: "0 < n \<Longrightarrow> rank_index n m < n"
  by (simp add: rank_index_def)

text \<open>A percentile is one of the values, and a higher ratio never gives a lower one; so the reported
  \<open>p50\<close>, \<open>p95\<close> and \<open>p99\<close> are in order, between the minimum and the maximum.\<close>

lemma percentile_mono:
  assumes "values \<noteq> []" and "length values < 2 ^ 53" and "0 \<le> m1" and "m1 \<le> m2" and "m2 \<le> 2 ^ 53"
  shows "\<exists>x y. percentile values (Finite m1 (- 53)) = Inr x \<and> percentile values (Finite m2 (- 53)) = Inr y
    \<and> x \<le> y \<and> {x, y} \<subseteq> set values"
proof -
  let ?i = "rank_index (length values)"
  have less: "?i m < length (sort values)" for m using rank_index_less [of "length values" m] assms(1) by simp
  have "sort values ! ?i m1 \<le> sort values ! ?i m2"
    using rank_index_mono [OF assms(3,4)] less by (intro sorted_nth_mono) simp_all
  moreover have "sort values ! ?i m \<in> set values" for m using nth_mem [OF less] by simp
  ultimately show ?thesis using percentile_eq [OF assms(1,2)] assms(3-) by simp
qed

lemma percentile_refused: "percentile [] ratio = Inl ValueError" "percentile values NaN = Inl ValueError"
  by (simp_all add: percentile_def)

text \<open>With accepted options and workers that answer for their shares, the report counts every request and
  its latencies are in order.\<close>

lemma report_consistent:
  assumes ok: "benchmark_checks port (int n) (int c) = Inr ()" "n < 2 ^ 53"
    and shares: "map length batches = map (worker_share n c) [0..<c]"
  shows "\<exists>r. latency_report batches = Inr r \<and> rep_requests r = n
    \<and> lat_min r \<le> lat_p50 r \<and> lat_p50 r \<le> lat_p95 r \<and> lat_p95 r \<le> lat_p99 r \<and> lat_p99 r \<le> lat_max r"
proof -
  let ?ls = "concat batches"
  have "length ?ls = sum_list (map (worker_share n c) [0..<c])" by (simp add: length_concat shares)
  also have "\<dots> = n" using sum_worker_share [OF worker_share_pos(1) [OF ok(1)], of n] by (simp add: interv_sum_list_conv_sum_set_nat lessThan_atLeast0)
  finally have len: "length ?ls = n" .
  moreover have "0 < n" using ok(1) by (auto simp: benchmark_checks_def split: if_splits)
  ultimately have ls: "?ls \<noteq> []" "length ?ls < 2 ^ 53" using ok(2) by auto
  obtain x y where xy: "percentile ?ls (Finite 4503599627370496 (- 53)) = Inr x"
    "percentile ?ls (Finite 8556839292003942 (- 53)) = Inr y" "x \<le> y" "x \<in> set ?ls"
    using percentile_mono [OF ls, of 4503599627370496 8556839292003942] by auto
  obtain z where z: "percentile ?ls (Finite 8917127262193582 (- 53)) = Inr z" "y \<le> z" "z \<in> set ?ls"
    using percentile_mono [OF ls, of 8556839292003942 8917127262193582] xy(2) by auto
  have "Min (set ?ls) \<le> x" "z \<le> Max (set ?ls)" using xy(4) z(3) by (simp_all del: set_concat)
  with xy z ls(1) len show ?thesis by (simp add: latency_report_def Let_def del: set_concat)
qed

section \<open>The server as the peer\<close>

text \<open>The server's end of one connection, without timeouts, and the number of exchanges so far.\<close>

record server_side =
  side_conn :: nat
  side_parser :: resp_parser
  side_server :: server
  side_open :: bool
  exchanges :: nat

fun serve_chunks :: "nat \<Rightarrow> resp_parser \<Rightarrow> bytes list \<Rightarrow> server \<Rightarrow> bytes \<times> verdict \<times> resp_parser \<times> server" where
  "serve_chunks conn p [] s = ([], Continue, p, s)"
| "serve_chunks conn p (c # cs) s =
     (case client_data conn p c s of
        (out, Continue, p1, s1) \<Rightarrow> (let (out', r) = serve_chunks conn p1 cs s1 in (out @ out', r))
      | r \<Rightarrow> r)"

text \<open>How the network cuts requests and replies is arbitrary.\<close>

definition server_peer :: "(nat \<Rightarrow> bytes \<Rightarrow> bytes list) \<Rightarrow> (nat \<Rightarrow> bytes \<Rightarrow> bytes list) \<Rightarrow> server_side peer" where
  "server_peer cut_in cut_out b w =
     (if \<not> side_open w then ([], w)
      else
        (let (out, v, p, s) = serve_chunks (side_conn w) (side_parser w) (cut_in (exchanges w) b) (side_server w)
         in (cut_out (exchanges w) out,
             w\<lparr>side_parser := p, side_server := s, side_open := v = Continue, exchanges := Suc (exchanges w)\<rparr>)))"

definition cuts :: "(nat \<Rightarrow> bytes \<Rightarrow> bytes list) \<Rightarrow> bool" where
  "cuts f \<longleftrightarrow> (\<forall>i b. chunks (f i b) b)"

definition processed :: "server \<Rightarrow> server" where
  "processed s = s\<lparr>total_commands_processed := Suc (total_commands_processed s)\<rparr>"

lemma feed_complete:
  assumes "parse_at p (b @ c) = Inr (m, length (b @ c))" and "b @ c \<noteq> []" and "buf p = b"
    and "int (length (b @ c)) \<le> max_buffer_bytes p"
  shows "feed p c = (Inr [m], p\<lparr>buf := []\<rparr>)"
proof -
  have "drain_at p (b @ c) [] = (Inr [m], [])" using assms(1,2) by (simp add: resp.drain_unfold [of p "b @ c"])
  then show ?thesis using assms(3,4) by (simp add: feed_within_limit)
qed

text \<open>One message in any chunks: nothing is reported before the last of them.\<close>

lemma feed_part:
  assumes "parse_at p msg = Inr (m, length msg)" and "int (length msg) \<le> max_buffer_bytes p" and "b @ c @ r = msg" and "r \<noteq> []"
  shows "feed (p\<lparr>buf := b\<rparr>) c = (Inr [], p\<lparr>buf := b @ c\<rparr>)"
proof -
  have "parse_at (p\<lparr>buf := b\<rparr>) (b @ c @ r) = Inr (m, length msg)" using assms(1,3) by (simp add: parse_at_def)
  moreover have "length (b @ c) < length msg" using assms(3,4) by auto
  ultimately have "feed (p\<lparr>buf := b\<rparr>) c = (Inr [], p\<lparr>buf := b\<rparr>\<lparr>buf := b @ c\<rparr>)"
    using assms(2,3) by (intro feed_incomplete) auto
  then show ?thesis by simp
qed

lemma feed_rest:
  assumes "parse_at p msg = Inr (m, length msg)" and "int (length msg) \<le> max_buffer_bytes p" and "b @ c = msg" and "msg \<noteq> []"
  shows "feed (p\<lparr>buf := b\<rparr>) c = (Inr [m], p\<lparr>buf := []\<rparr>)"
  using feed_complete [of "p\<lparr>buf := b\<rparr>" b c m] assms by (simp add: parse_at_def)

lemma read_reply_chunks:
  assumes m: "parse_at p msg = Inr (m, length msg)" "int (length msg) \<le> max_buffer_bytes p"
    and "chunks cs rest" and "b @ rest = msg" and "rest \<noteq> []"
  shows "read_reply (p\<lparr>buf := b\<rparr>) cs = (Inr m, p\<lparr>buf := []\<rparr>, [])"
  using assms(3-)
proof (induction cs arbitrary: b rest)
  case (Cons c cs)
  from Cons.prems obtain r where c: "c \<noteq> []" "rest = c @ r" "chunks cs r" by auto
  have quiet: "feed (p\<lparr>buf := b\<rparr>) [] = (Inr [], p\<lparr>buf := b\<rparr>)"
    using feed_part [OF m, of b "[]" rest] Cons.prems by simp
  show ?case
  proof (cases "r = []")
    case True
    then have "feed (p\<lparr>buf := b\<rparr>) c = (Inr [m], p\<lparr>buf := []\<rparr>)" "cs = []"
      using feed_rest [OF m, of b c] Cons.prems(2) c by auto
    with quiet c(1) show ?thesis by simp
  next
    case False
    with Cons.prems(2) c(2) feed_part [OF m, of b c r] have "feed (p\<lparr>buf := b\<rparr>) c = (Inr [], p\<lparr>buf := b @ c\<rparr>)" by simp
    with quiet c(1) Cons.IH [OF c(3) _ False, of "b @ c"] Cons.prems(2) c(2) show ?thesis by simp
  qed
qed simp

lemma normalize_command [simp]: "normalize_argv (command_msg c) = Inr c"
proof -
  have "map_res normalize_item (map PBytes c) = Inr c" by (induction c) (simp_all add: normalize_item_def)
  then show ?thesis by (simp add: normalize_argv_def command_msg_def)
qed

lemma serve_chunks_command:
  assumes p: "command_fits p cmd" "int (length (encode_command cmd)) \<le> max_buffer_bytes p"
    and run: "cmd \<noteq> []" "serve_command conn cmd (processed s) = (out, Continue, s')"
    and "chunks cs rest" and "b @ rest = encode_command cmd" and "rest \<noteq> []"
  shows "serve_chunks conn (p\<lparr>buf := b\<rparr>) cs s = (out, Continue, p\<lparr>buf := []\<rparr>, s')"
  using assms(5-)
proof (induction cs arbitrary: b rest)
  case (Cons c cs)
  note m = parse_at_command [OF p(1), of "[]", simplified] p(2)
  from Cons.prems obtain r where c: "c \<noteq> []" "rest = c @ r" "chunks cs r" by auto
  show ?case
  proof (cases "r = []")
    case True
    then have f: "feed (p\<lparr>buf := b\<rparr>) c = (Inr [command_msg cmd], p\<lparr>buf := []\<rparr>)" "cs = []"
      using feed_rest [OF m, of b c] Cons.prems(2) c by auto
    have "serve_messages conn [command_msg cmd] s = (out, Continue, s')"
      using run by (simp add: serve_message_def processed_def)
    with f c(1) show ?thesis by (simp add: client_data_def)
  next
    case False
    with Cons.prems(2) c(2) feed_part [OF m, of b c r] have "feed (p\<lparr>buf := b\<rparr>) c = (Inr [], p\<lparr>buf := b @ c\<rparr>)" by simp
    then have "client_data conn (p\<lparr>buf := b\<rparr>) c s = ([], Continue, p\<lparr>buf := b @ c\<rparr>, s)"
      using c(1) by (simp add: client_data_def)
    with Cons.IH [OF c(3) _ False, of "b @ c"] Cons.prems(2) c(2) show ?thesis by simp
  qed
qed simp

text \<open>One exchange, with the client and the server between two requests.\<close>

definition idle :: "resp_parser \<Rightarrow> server_side client \<Rightarrow> bool" where
  "idle p c \<longleftrightarrow> arriving c = [] \<and> reply_parser c = default_parser \<and> side_open (peer_state c) \<and> side_parser (peer_state c) = p \<and> buf p = []"

lemma default_parser_simps [simp]: "buf default_parser = []" "max_buffer_bytes default_parser = 32000000"
  "default_parser\<lparr>buf := []\<rparr> = default_parser"
  by (simp_all add: default_parser_def RespParser_def)

lemma exchange_bytes:
  assumes net: "cuts cut_in" "cuts cut_out" and w: "side_open w" "buf (side_parser w) = []"
    and cmd: "cmd \<noteq> []" "command_fits (side_parser w) cmd" "int (length (encode_command cmd)) \<le> max_buffer_bytes (side_parser w)"
    and run: "serve_command (side_conn w) cmd (processed (side_server w)) = (out, Continue, s')"
    and out: "out \<noteq> []" "parse_at default_parser out = Inr (m, length out)" "length out \<le> 32000000"
  shows "\<exists>cs. server_peer cut_in cut_out (encode_command cmd) w = (cs, w\<lparr>side_server := s', exchanges := Suc (exchanges w)\<rparr>)
    \<and> read_reply default_parser cs = (Inr m, default_parser, [])"
proof -
  have same: "(side_parser w)\<lparr>buf := []\<rparr> = side_parser w" using w(2) by simp
  have "chunks (cut_in (exchanges w) (encode_command cmd)) (encode_command cmd)" using net(1) by (simp add: cuts_def)
  from serve_chunks_command [OF cmd(2,3,1) run this, of "[]"]
  have served: "serve_chunks (side_conn w) (side_parser w) (cut_in (exchanges w) (encode_command cmd)) (side_server w)
      = (out, Continue, side_parser w, s')" by (simp add: same)
  have "chunks (cut_out (exchanges w) out) out" using net(2) by (simp add: cuts_def)
  from read_reply_chunks [OF out(2) _ this, of "[]"] out(1,3)
  have "read_reply default_parser (cut_out (exchanges w) out) = (Inr m, default_parser, [])" by simp
  with served w(1) show ?thesis by (auto simp: server_peer_def)
qed

lemma exchange:
  assumes net: "cuts cut_in" "cuts cut_out" and c: "idle p c"
    and cmd: "cmd \<noteq> []" "command_fits p cmd" "int (length (encode_command cmd)) \<le> max_buffer_bytes p"
    and run: "serve_command (side_conn (peer_state c)) cmd (processed (side_server (peer_state c))) = (out, Continue, s')"
    and out: "out \<noteq> []" "parse_at default_parser out = Inr (m, length out)" "length out \<le> 32000000"
      "\<And>e. m \<noteq> PErrorMsg e"
  shows "\<exists>c'. send_command (server_peer cut_in cut_out) cmd c = (Inr m, c') \<and> idle p c'
    \<and> side_server (peer_state c') = s' \<and> side_conn (peer_state c') = side_conn (peer_state c)"
proof -
  have w: "side_open (peer_state c)" "buf (side_parser (peer_state c)) = []" "side_parser (peer_state c) = p"
    using c by (auto simp: idle_def)
  from exchange_bytes [OF net w(1,2) cmd(1) _ _ run out(1,2,3)] cmd(2,3) w(3) obtain cs where
    cs: "server_peer cut_in cut_out (encode_command cmd) (peer_state c)
        = (cs, peer_state c\<lparr>side_server := s', exchanges := Suc (exchanges (peer_state c))\<rparr>)"
      "read_reply default_parser cs = (Inr m, default_parser, [])" by auto
  with c out(4) show ?thesis by (cases m) (auto simp: send_command_def idle_def Let_def)
qed

section \<open>A worker against the server\<close>

text \<open>
  A kind of request the server answers with one word: \<open>ok i\<close> is what holds of the server before the
  \<open>i\<close>-th request.
\<close>

locale answered_requests =
  fixes command :: string and worker :: nat and request :: "nat \<Rightarrow> bytes list" and word :: bytes
    and ok :: "resp_parser \<Rightarrow> nat \<Rightarrow> server \<Rightarrow> bool"
  assumes built: "build_command command worker i = Inr (request i)"
    and fits: "ok p i s \<Longrightarrow> i < 10 ^ 100 \<Longrightarrow>
      request i \<noteq> [] \<and> command_fits p (request i) \<and> int (length (encode_command (request i))) \<le> max_buffer_bytes p"
    and answered: "ok p i s \<Longrightarrow> i < 10 ^ 100 \<Longrightarrow>
      \<exists>s'. serve_command conn (request i) (processed s) = (''+'' @ word @ crlf, Continue, s') \<and> ok p (Suc i) s'"
    and one_word: "cr \<notin> set word" "length word \<le> 100"
begin

lemma one_request:
  assumes net: "cuts cut_in" "cuts cut_out" and c: "idle p c" "ok p i (side_server (peer_state c))" and "i < 10 ^ 100"
  shows "\<exists>m c'. send_command (server_peer cut_in cut_out) (request i) c = (Inr m, c') \<and> idle p c'
    \<and> ok p (Suc i) (side_server (peer_state c'))"
proof -
  obtain s' where s': "serve_command (side_conn (peer_state c)) (request i) (processed (side_server (peer_state c)))
      = (''+'' @ word @ crlf, Continue, s')" "ok p (Suc i) s'"
    using answered [OF c(2) assms(5)] by blast
  have "\<exists>c'. send_command (server_peer cut_in cut_out) (request i) c = (Inr (PStr (utf8_decode_replace word)), c')
    \<and> idle p c' \<and> side_server (peer_state c') = s' \<and> side_conn (peer_state c') = side_conn (peer_state c)"
    using fits [OF c(2) assms(5)] parse_at_line [OF one_word(1), of default_parser "[]"] one_word(2)
    by (intro exchange [OF net c(1) _ _ _ s'(1)]) (auto simp: crlf_def)
  with s'(2) show ?thesis by blast
qed

lemma all_requests:
  assumes net: "cuts cut_in" "cuts cut_out"
  shows "idle p c \<Longrightarrow> ok p i (side_server (peer_state c)) \<Longrightarrow> i + n \<le> 10 ^ 100 \<Longrightarrow>
    \<exists>lats c'. worker_loop (server_peer cut_in cut_out) perf command worker [i..<i + n] acc c = (Inr lats, c')
      \<and> length lats = length acc + n \<and> idle p c' \<and> ok p (i + n) (side_server (peer_state c'))"
proof (induction n arbitrary: i acc c)
  case (Suc n)
  obtain m c1 where c1: "send_command (server_peer cut_in cut_out) (request i) c = (Inr m, c1)" "idle p c1"
    "ok p (Suc i) (side_server (peer_state c1))"
    using one_request [OF net Suc.prems(1,2)] Suc.prems(3) by auto
  have range: "[i..<i + Suc n] = i # [Suc i..<Suc i + n]" by (simp add: upt_rec)
  from Suc.IH [OF c1(2,3), of "acc @ [perf (2 * i + 1) - perf (2 * i)]"] Suc.prems(3) c1(1)
  show ?case unfolding range by (simp add: built)
qed simp

lemma worker_answered:
  assumes "cuts cut_in" "cuts cut_out" and "idle p (open_connection w)" "ok p 0 (side_server w)" and "n \<le> 10 ^ 100"
  shows "\<exists>lats c. run_worker (server_peer cut_in cut_out) perf command worker n None w = (Inr lats, c)
    \<and> length lats = n \<and> ok p n (side_server (peer_state c))"
  using all_requests [OF assms(1-3), of 0 n perf "[]"] assms(4,5)
  by (auto simp: run_worker_def login_def open_connection_def)

end

subsection \<open>\<open>PING\<close>\<close>

definition limits_ok :: "resp_parser \<Rightarrow> bool" where
  "limits_ok p \<longleftrightarrow> 0 < max_array_depth p \<and> 3 \<le> max_array_len p \<and> 1024 \<le> max_bulk_len p \<and> 1024 \<le> max_buffer_bytes p"

lemma command_small:
  assumes "limits_ok p" and "int (length c) \<le> max_array_len p" and "length c \<le> 9" and "\<forall>a\<in>set c. length a < 1000" and "length (concat c) \<le> 900"
  shows "command_fits p c" and "int (length (encode_command c)) \<le> max_buffer_bytes p"
proof -
  have "size_ok (length a)" if "length a < 1000" for a :: bytes using that by (intro size_ok_parser) simp
  moreover have "size_ok (length c)" using assms(3) by (intro size_ok_parser) simp
  ultimately show "command_fits p c" using assms by (fastforce simp: command_fits_iff limits_ok_def)
  have "length (bulk_of a) \<le> length a + 8" if "length a < 1000" for a
    using length_dec_nat_le [of "length a" 3] that by (simp add: bulk_of_def crlf_def)
  then have "length (concat (map bulk_of xs)) \<le> length (concat xs) + 8 * length xs" if "\<forall>a\<in>set xs. length a < 1000" for xs
    using that by (induction xs) fastforce+
  moreover have "length (dec_nat (length c)) \<le> 1" using length_dec_nat_le [of "length c" 1] assms(3) by simp
  ultimately have "length (encode_command c) \<le> length (concat c) + 8 * length c + 4"
    using assms(4) by (fastforce simp: encode_command_def array_header_def crlf_def)
  with assms show "int (length (encode_command c)) \<le> max_buffer_bytes p" by (simp add: limits_ok_def)
qed

definition ping_ok :: "resp_parser \<Rightarrow> nat \<Rightarrow> server \<Rightarrow> bool" where
  "ping_ok p i s \<longleftrightarrow> limits_ok p \<and> cfg_requirepass (config s) = None"

lemma pong_reply: "encode_reply (simple ''PONG'') = Inr (Some (''+PONG'' @ crlf))"
proof -
  have "encode_reply (simple ''PONG'') = Inr (Some (CHR ''+'' # ''PONG'' @ crlf))"
    by (rule encode_simple_ascii) code_simp+
  then show ?thesis by simp
qed

lemma ping_executed:
  assumes "cfg_requirepass (config s) = None"
  shows "execute conn [''PING''] s = (Inr (Some (''+PONG'' @ crlf)), s)"
proof -
  have "upper_name [''PING''] = ''PING''" by (simp add: upper_name_def upper_names)
  then show ?thesis
    using assms
    by (simp add: execute_def execute_inner_def client_context_def WRITE_COMMANDS_def dispatch_def reg_get_default
        upper_names upper_name_def default_lookup cmd_ping_def after_dispatch_def persist_def pong_reply)
      (simp add: simple_def)
qed

lemma ping_answered:
  assumes "cfg_requirepass (config s) = None"
  shows "serve_command conn [''PING''] s = (''+PONG'' @ crlf, Continue, s)"
  using ping_executed [OF assms] by (simp add: serve_command_def opt_bytes_def upper_name_def upper_names)

interpretation ping: answered_requests "''ping''" worker "\<lambda>i. [''PING'']" "''PONG''" ping_ok for worker
proof
  fix i p s conn assume ok: "ping_ok p i s"
  show "[''PING''] \<noteq> [] \<and> command_fits p [''PING''] \<and> int (length (encode_command [''PING''])) \<le> max_buffer_bytes p"
    using ok command_small [of p "[''PING'']"] by (simp add: ping_ok_def limits_ok_def)
  show "\<exists>s'. serve_command conn [''PING''] (processed s) = (''+'' @ ''PONG'' @ crlf, Continue, s') \<and> ping_ok p (Suc i) s'"
    using ok ping_answered [of "processed s" conn] by (simp add: ping_ok_def processed_def)
qed (simp_all add: build_command_def cr_def)

subsection \<open>\<open>SET\<close>\<close>

definition bench_key :: "nat \<Rightarrow> nat \<Rightarrow> bytes" where
  "bench_key worker i = ''benchmark:'' @ dec_nat worker @ '':'' @ dec_nat i"

definition bench_map :: "nat \<Rightarrow> nat \<Rightarrow> kv \<Rightarrow> kv" where
  "bench_map worker n M = (\<lambda>k. if k \<in> bench_key worker ` {..<n} then Some (KeyEntry STRING (VStr ''value'') None) else M k)"

lemma bench_map_step:
  "bench_map worker 0 M = M"
  "(bench_map worker n M)(bench_key worker n \<mapsto> KeyEntry STRING (VStr ''value'') None) = bench_map worker (Suc n) M"
  by (auto simp: bench_map_def lessThan_Suc)

definition set_ok :: "nat \<Rightarrow> kv \<Rightarrow> resp_parser \<Rightarrow> nat \<Rightarrow> server \<Rightarrow> bool" where
  "set_ok worker M p i s \<longleftrightarrow>
     limits_ok p \<and> worker < 10 ^ 100 \<and> cfg_requirepass (config s) = None \<and> serving s (bench_map worker i M) \<and> disk_ok (aof s)"

lemma set_served:
  assumes "set_ok worker M p i s"
  shows "\<exists>s'. serve_command conn [''SET'', bench_key worker i, ''value''] s = (''+OK'' @ crlf, Continue, s')
    \<and> set_ok worker M p (Suc i) s'"
proof -
  let ?c = "[''SET'', bench_key worker i, ''value'']"
  have s: "serving s (bench_map worker i M)" "cfg_requirepass (config s) = None" "disk_ok (aof s)" "log_ready (aof s)"
    using assms by (simp_all add: set_ok_def serving_def)
  then obtain l where l: "aof_append ?c (aof s) = (Inr (), l)" "log_ready l" "disk_ok l" "full_writes l"
    using append_disk_ok by blast
  have "healthy (aof s)" using s(3) by (simp add: disk_ok_def healthy_def)
  from set_answered [OF s(1,2) this l(1), of conn] obtain s' where
    s': "execute conn ?c s = (Inr (Some (''+OK'' @ crlf)), s')" "aof s' = l" "config s' = config s"
      "holds (db s') (bench_map worker (Suc i) M)" by (auto simp: bench_map_step)
  then have "set_ok worker M p (Suc i) s'" using assms l by (simp add: set_ok_def serving_def)
  with s'(1) show ?thesis
    by (simp add: serve_command_def opt_bytes_def upper_name_def upper_names)
qed

interpretation sets: answered_requests "''set''" worker "\<lambda>i. [''SET'', bench_key worker i, ''value'']" "''OK''" "set_ok worker M"
  for worker M
proof
  fix i p s conn assume ok: "set_ok worker M p i s" and i: "i < 10 ^ 100"
  have "length (dec_nat i) \<le> 100" "length (dec_nat worker) \<le> 100"
    using ok i length_dec_nat_le [of i 100] length_dec_nat_le [of worker 100] by (simp_all add: set_ok_def)
  then have "length (bench_key worker i) \<le> 211" by (simp add: bench_key_def)
  with ok command_small [of p "[''SET'', bench_key worker i, ''value'']"]
  show "[''SET'', bench_key worker i, ''value''] \<noteq> [] \<and> command_fits p [''SET'', bench_key worker i, ''value'']
      \<and> int (length (encode_command [''SET'', bench_key worker i, ''value''])) \<le> max_buffer_bytes p"
    by (simp add: set_ok_def limits_ok_def)
  have "set_ok worker M p i (processed s)" using ok by (simp add: set_ok_def processed_def serving_def)
  from set_served [OF this]
  show "\<exists>s'. serve_command conn [''SET'', bench_key worker i, ''value''] (processed s) = (''+'' @ ''OK'' @ crlf, Continue, s')
      \<and> set_ok worker M p (Suc i) s'" by simp
qed (simp_all add: build_command_def bench_key_def cr_def)

section \<open>The client and the server together\<close>

text \<open>A connection the server has just accepted.\<close>

definition accepted :: "nat \<Rightarrow> server \<Rightarrow> server_side" where
  "accepted conn s =
     \<lparr>side_conn = conn, side_parser = client_parser (config s), side_server = s, side_open = True, exchanges = 0\<rparr>"

lemma accepted_idle: "idle (client_parser (config s)) (open_connection (accepted conn s))"
  by (simp add: idle_def open_connection_def accepted_def client_parser_def RespParser_def)

lemma client_limits:
  "config_ok cfg \<Longrightarrow> 3 \<le> cfg_proto_max_array_len cfg \<Longrightarrow> limits_ok (client_parser cfg)"
  by (simp add: limits_ok_def client_parser_def RespParser_def config_ok_def)

text \<open>C20: The client and the server work together, however the network cuts their bytes: a benchmark worker
  that sends \<open>n\<close> \<open>SET\<close> requests to a running master without a password, whose disk does not fail, is
  answered \<open>n\<close> times, reports \<open>n\<close> latencies and no error, and leaves exactly its \<open>n\<close> keys set in addition
  to what the keyspace held. A \<open>PING\<close> worker is answered by every server without a password.\<close>

theorem benchmark_worker_served:
  assumes "cuts cut_in" and "cuts cut_out" and "config_ok (config s)" and "3 \<le> cfg_proto_max_array_len (config s)"
    and "cfg_requirepass (config s) = None" and "n \<le> 10 ^ 100" and "worker < 10 ^ 100"
  shows "(serving s M \<longrightarrow> disk_ok (aof s) \<longrightarrow>
      (\<exists>lats c. run_worker (server_peer cut_in cut_out) perf ''set'' worker n None (accepted conn s) = (Inr lats, c)
        \<and> length lats = n \<and> holds (db (side_server (peer_state c))) (bench_map worker n M)))
    \<and> (\<exists>lats c. run_worker (server_peer cut_in cut_out) perf ''ping'' worker n None (accepted conn s) = (Inr lats, c)
        \<and> length lats = n)"
proof (intro conjI impI)
  let ?p = "client_parser (config s)"
  have lim: "limits_ok ?p" by (rule client_limits [OF assms(3,4)])
  show "\<exists>lats c. run_worker (server_peer cut_in cut_out) perf ''ping'' worker n None (accepted conn s) = (Inr lats, c)
      \<and> length lats = n"
  proof -
    have "ping_ok ?p 0 (side_server (accepted conn s))" using lim assms(5) by (simp add: ping_ok_def accepted_def)
    from ping.worker_answered [OF assms(1,2) accepted_idle this assms(6)] show ?thesis by blast
  qed
  assume "serving s M" "disk_ok (aof s)"
  then have "set_ok worker M ?p 0 (side_server (accepted conn s))"
    using lim assms(5,7) by (simp add: set_ok_def accepted_def bench_map_step(1))
  from sets.worker_answered [OF assms(1,2) accepted_idle this assms(6)] obtain lats c where
    "run_worker (server_peer cut_in cut_out) perf ''set'' worker n None (accepted conn s) = (Inr lats, c)"
    "length lats = n" "set_ok worker M ?p n (side_server (peer_state c))" by blast
  moreover from this(3) have "holds (db (side_server (peer_state c))) (bench_map worker n M)"
    by (simp add: set_ok_def serving_def)
  ultimately show "\<exists>lats c. run_worker (server_peer cut_in cut_out) perf ''set'' worker n None (accepted conn s) = (Inr lats, c)
      \<and> length lats = n \<and> holds (db (side_server (peer_state c))) (bench_map worker n M)"
    by blast
qed

text \<open>Both streams one byte at a time.\<close>

definition bytewise :: "nat \<Rightarrow> bytes \<Rightarrow> bytes list" where
  "bytewise i b = map (\<lambda>c. [c]) b"

lemma bytewise_cuts: "cuts bytewise"
proof -
  have "concat (map (\<lambda>c. [c]) b) = b" for b :: bytes by (induction b) simp_all
  then show ?thesis by (auto simp: cuts_def bytewise_def chunks_def)
qed

theorem benchmark_worker_served_witness:
  "\<exists>lats c. run_worker (server_peer bytewise bytewise) (\<lambda>i. 0) ''set'' 7 3 None (accepted 1 (sample_server default_config))
       = (Inr lats, c) \<and> length lats = 3 \<and> holds (db (side_server (peer_state c))) (bench_map 7 3 (\<lambda>k. None))"
proof -
  let ?s = "sample_server default_config"
  have ok: "config_ok default_config" by (simp add: config_ok_def default_config_def is_replica_def)
  have "fresh (db ?s)"
    by (simp add: fresh_def new_store_inv) (simp add: new_store_def mono_def default_config_def)
  then have "holds (db ?s) (\<lambda>k. None)" by (rule fresh_holds)
  then have "serving ?s (\<lambda>k. None)"
    using running_log_ready [of Everysec] by (simp add: serving_def) (simp add: default_config_def is_replica_def)
  moreover have "disk_ok (aof ?s)"
    by (simp add: disk_ok_def running_log_def start_background_fsync_def aof_open_def AOFLog_def)
  moreover note benchmark_worker_served [OF bytewise_cuts bytewise_cuts, of ?s 3 7 "\<lambda>k. None" "\<lambda>i. 0" 1]
  ultimately show ?thesis using ok by (simp add: default_config_def)
qed

end
