(* ===== verification/Restart.thy ===== *)
theory Restart
  imports Lifecycle Database
begin

text \<open>
  Restarts from a snapshot: what \<open>SAVE\<close> wrote is what \<open>start\<close> of a later process loads, deadlines
  included, however the first process ends and whatever it did after the save.
\<close>

section \<open>The snapshot a server writes\<close>

lemma alive_deadline:
  assumes "ke \<in> set (unexpired n es)" and "expire_at_ms (snd ke) = Some t"
  shows "n < t"
  using assms by (auto simp: unexpired_def is_expired_def)

text \<open>A dump that succeeds is loaded back, with no condition on the keyspace.\<close>

lemma dump_load:
  assumes inv: "store_inv d" and "0 \<le> reading d" and dump: "dump_rdb_bytes d = (Inr b, d')" and size: "int (length b) \<le> mx"
  shows "\<exists>es. load_rdb_bytes b mx now = Inr es \<and> entries_ok es
    \<and> (\<forall>m t. now \<le> m \<longrightarrow> reading d \<le> m \<longrightarrow> live m (load_entries es t) = live m d)"
proof -
  let ?es = "unexpired (reading d) (entries d)"
  have b: "dump_rdb_entries ?es = Inr b" using dump by (simp add: dump_rdb_bytes_def snapshot_eq [OF inv])
  have ok: "dict_ok ?es" "dict_ok (unexpired now ?es)"
    using store_invD(1) [OF inv] by (simp_all add: dict_ok_unexpired)
  have "storable (snd ke)" if "ke \<in> set ?es" for ke
    using that store_entry_ok [OF inv, of ke] alive_deadline [OF that] assms(2) by (force simp: storable_def unexpired_def)
  with load_dumped [OF b ok(1) _ size] have load: "load_rdb_bytes b mx now = Inr (unexpired now ?es)" by blast
  have get: "dict_get (unexpired now ?es) k = alive now (alive (reading d) (dict_get (entries d) k))" for k
    by (simp add: get_unexpired ok(1) store_invD(1) [OF inv])
  have "entry_ok e" if "dict_get (unexpired now ?es) k = Some e" for k e
    using that store_invD(2) [OF inv, of k] by (auto simp: get alive_def split: option.splits if_splits)
  then have "entries_ok (unexpired now ?es)" using ok(2) by (simp add: entries_ok_def)
  moreover have "live m (load_entries (unexpired now ?es) t) = live m d" if "now \<le> m" "reading d \<le> m" for m t
    using that by (simp add: live_def get alive_alive_later fun_eq_iff)
  ultimately show ?thesis using load by blast
qed

text \<open>The file holds the map: loading it at any later time shows what is alive then.\<close>

definition holds_map :: "int \<Rightarrow> bytes option \<Rightarrow> kv \<Rightarrow> bool" where
  "holds_map saved f M \<longleftrightarrow>
     (\<exists>b. f = Some b \<and> b \<noteq> [] \<and> (\<forall>mx now. int (length b) \<le> mx \<longrightarrow> (\<exists>es. load_rdb_bytes b mx now = Inr es \<and> entries_ok es
        \<and> (\<forall>m t. now \<le> m \<longrightarrow> saved \<le> m \<longrightarrow> live m (load_entries es t) = (\<lambda>k. alive m (M k))))))"

lemma dump_nonempty: "dump_rdb_entries es = Inr b \<Longrightarrow> b \<noteq> []"
  by (auto simp: dump_rdb_entries_def bind_res_Inr_iff Let_def MAGIC_def)

lemma save_file:
  assumes "save_rdb_sync s = (Inr (), s')"
  obtains b d' where "dump_rdb_bytes (db s) = (Inr b, d')" and "rdb_file s' = Some b"
  using assms
  by (auto simp: save_rdb_sync_def dump_rdb_def write_rdb_def on_db_def server_now_def Let_def split: prod.splits sum.splits)

lemma save_holds_map:
  assumes rep: "represents (db s) M" and pos: "0 \<le> reading (db s)" and save: "save_rdb_sync s = (Inr (), s')"
  shows "holds_map (reading (db s)) (rdb_file s') M"
proof -
  have inv: "store_inv (db s)" using rep by (simp add: represents_def)
  obtain b d' where b: "dump_rdb_bytes (db s) = (Inr b, d')" "rdb_file s' = Some b"
    by (rule save_file [OF save])
  have "b \<noteq> []" using b(1) dump_nonempty by (auto simp: dump_rdb_bytes_def split: prod.splits)
  moreover have "\<exists>es. load_rdb_bytes b mx now = Inr es \<and> entries_ok es
      \<and> (\<forall>m t. now \<le> m \<longrightarrow> reading (db s) \<le> m \<longrightarrow> live m (load_entries es t) = (\<lambda>k. alive m (M k)))"
    if "int (length b) \<le> mx" for mx now
    using dump_load [OF inv pos b(1) that] rep by (auto simp: represents_def)
  ultimately show ?thesis using b(2) by (auto simp: holds_map_def)
qed

section \<open>\<open>SAVE\<close>\<close>

lemma error_reply_sign: "error_reply m = Inr (Some b) \<Longrightarrow> hd b = CHR ''-''"
  by (auto simp: error_reply_def encode_error_def bind_res_Inr_iff)

lemma save_dispatched:
  assumes s: "running s M" "may_use conn s" and sv: "save_rdb_sync s = (res, s2)"
  shows "\<exists>r s'. execute conn [''SAVE''] s = (reply_of r, s') \<and> (r = Inr (simple ''OK'') \<longleftrightarrow> res = Inr ())
    \<and> (r = Inr (simple ''OK'') \<or> (\<exists>e. r = Inl e)) \<and> running s' M \<and> config s' = config s
    \<and> authenticated s' = authenticated s \<and> rdb_file s' = rdb_file s2 \<and> reading (db s) \<le> reading (db s')
    \<and> disk_result s' = disk_result s \<and> aof s' = aof s"
proof -
  let ?c = "[''SAVE'']"
  let ?ctx = "client_context conn ?c"
  have name: "upper_name ?c = ''SAVE''" "py_upper ''SAVE'' = ''SAVE''" by code_simp+
  then have noprep: "snd (prep (upper_name ?c \<in> set WRITE_COMMANDS) s) = s" by (simp add: prep_def WRITE_COMMANDS_def)
  define r where "r = fst (cmd_save ?ctx s)"
  then have d: "cmd_save ?ctx s = (r, s2)" "r = Inr (simple ''OK'') \<longleftrightarrow> res = Inr ()" "r \<noteq> Inr PNoReply"
    "r = Inr (simple ''OK'') \<or> (\<exists>e. r = Inl e)"
    using sv by (cases res; simp add: cmd_save_def client_context_def simple_def split: py_exn.split)+
  have disp: "dispatch create_default_registry ?ctx (snd (prep (upper_name ?c \<in> set WRITE_COMMANDS) s)) = (r, s2)"
    unfolding noprep using s(1) name more_lookup d(1) by (simp add: dispatch_def client_context_def reg_get_default running_def)
  note frame = save_frame [of s, unfolded sv, simplified]
  have disk: "disk_result s2 = disk_result s"
    using sv by (auto simp: save_rdb_sync_def dump_rdb_def write_rdb_def on_db_def server_now_def Let_def split: prod.splits sum.splits)
  have rep: "represents (db s2) M" "reading (db s) \<le> reading (db s2)"
    using represents_quiet [of "db s" M "db s2"] s(1) frame by (auto simp: running_def)
  obtain s3 where s3: "execute conn ?c s = (reply_of r, s3)" "log_accepts (aof s3)" "db s3 = db s2" "config s3 = config s"
    "authenticated s3 = authenticated s2" "rdb_file s3 = rdb_file s2" "disk_result s3 = disk_result s2"
    "aof s3 = logged ?c r (aof s)"
    using execute_dispatch [OF _ _ s(2) disp] s(1) frame rep(1) d(3) by (auto simp: running_def represents_def)
  then have "running s3 M" using s(1) rep(1) by (simp add: running_def)
  moreover have "aof s3 = aof s" using s3(8) name(1) by (simp add: logged_def WRITE_COMMANDS_def split: sum.splits)
  ultimately show ?thesis using s3 d(2,4) rep(2) frame disk by (intro exI [of _ r] exI [of _ s3]) simp
qed

lemma save_executed:
  assumes s: "running s M" "may_use conn s" "0 \<le> reading (db s)"
    and save: "execute conn [''SAVE''] s = (Inr (Some (''+OK'' @ crlf)), s')"
  shows "running s' M" and "\<exists>saved\<le>reading (db s'). holds_map saved (rdb_file s') M"
    and "\<exists>b d'. dump_rdb_bytes (db s) = (Inr b, d') \<and> rdb_file s' = Some b"
    and "config s' = config s" "aof s' = aof s" "disk_result s' = disk_result s" "reading (db s) \<le> reading (db s')"
proof -
  obtain res s2 where sv: "save_rdb_sync s = (res, s2)" by fastforce
  from save_dispatched [OF s(1,2) this] save obtain r where
    r: "reply_of r = Inr (Some (''+OK'' @ crlf))" "r = Inr (simple ''OK'') \<longleftrightarrow> res = Inr ()"
      "r = Inr (simple ''OK'') \<or> (\<exists>e. r = Inl e)"
    and s': "running s' M" "rdb_file s' = rdb_file s2" "reading (db s) \<le> reading (db s')" "config s' = config s" "aof s' = aof s"
      "disk_result s' = disk_result s" by auto
  show "running s' M" "config s' = config s" "aof s' = aof s" "disk_result s' = disk_result s" "reading (db s) \<le> reading (db s')"
    by (rule s')+
  have "r \<noteq> Inl e" for e
    using r(1) error_reply_sign by (fastforce simp: reply_of_def split: py_exn.splits)
  with r(2,3) sv have saved: "save_rdb_sync s = (Inr (), s2)" by auto
  from save_file [OF this] s'(2) show "\<exists>b d'. dump_rdb_bytes (db s) = (Inr b, d') \<and> rdb_file s' = Some b" by metis
  from save_holds_map [OF _ s(3) saved] s(1) have "holds_map (reading (db s)) (rdb_file s2) M" by (simp add: running_def)
  with s'(2,3) show "\<exists>saved\<le>reading (db s'). holds_map saved (rdb_file s') M" by auto
qed

text \<open>\<open>SAVE\<close> succeeds when the format can represent what is alive and the disk accepts the file.\<close>

definition savable :: "int \<Rightarrow> kv \<Rightarrow> bool" where
  "savable n M \<longleftrightarrow> card (alive_keys n M) < 2 ^ 32 \<and> (\<forall>k e. alive n (M k) = Some e \<longrightarrow> representable (k, e))"

lemma unexpired_alive:
  assumes rep: "represents d M" and "ke \<in> set (unexpired (reading d) (entries d))"
  shows "alive (reading d) (M (fst ke)) = Some (snd ke)"
proof -
  have ok: "dict_ok (entries d)" using rep store_invD(1) by (simp add: represents_def)
  from assms(2) have "dict_get (unexpired (reading d) (entries d)) (fst ke) = Some (snd ke)"
    by (simp add: dict_get_iff [OF dict_ok_unexpired [OF ok]])
  then show ?thesis by (simp add: get_unexpired [OF ok] represents_now [OF rep, symmetric] live_def)
qed

lemma dump_savable:
  assumes rep: "represents d M" and "savable (reading d) M"
  shows "\<exists>b. dump_rdb_bytes d = (Inr b, purge_expired d)"
proof -
  let ?es = "unexpired (reading d) (entries d)"
  have inv: "store_inv d" using rep by (simp add: represents_def)
  have "entry_ok (snd ke) \<and> representable ke" if "ke \<in> set ?es" for ke
  proof
    show "entry_ok (snd ke)" using that store_entry_ok [OF inv, of ke] by (auto simp: unexpired_def)
    show "representable ke" using unexpired_alive [OF rep that] assms(2) by (force simp: savable_def)
  qed
  moreover have "entries (purge_expired d) = ?es" by (simp add: purge_entries [OF inv])
  then have "short ?es" using length_entries_alive [OF rep] assms(2) by (simp add: short_def savable_def)
  ultimately have "\<exists>b. dump_rdb_entries ?es = Inr b" using dump_rdb_entries_ok by blast
  then show ?thesis by (simp add: dump_rdb_bytes_def snapshot_eq [OF inv])
qed

text \<open>The size of a snapshot, from bounds on its records.\<close>

lemma dump_size:
  assumes rep: "represents d M" and dump: "dump_rdb_bytes d = (Inr b, d')"
    and bound: "\<And>k e r. alive (reading d) (M k) = Some e \<Longrightarrow> dump_record (k, e) = Inr r \<Longrightarrow> length r \<le> B"
  shows "length b \<le> 24 + B * card (alive_keys (reading d) M)"
proof -
  let ?es = "unexpired (reading d) (entries d)"
  have inv: "store_inv d" using rep by (simp add: represents_def)
  have "dump_rdb_entries ?es = Inr b" using dump by (simp add: dump_rdb_bytes_def snapshot_eq [OF inv])
  then obtain count parts body where parts: "map_res dump_record ?es = Inr parts" and count: "length count = 4"
    and b: "body = MAGIC @ le_bytes 4 VERSION @ count @ concat parts" "b = body @ le_bytes 4 (crc32 body) @ FOOTER"
    by (rule dump_rdb_entriesE)
  have one: "length r \<le> B" if "ke \<in> set ?es" "dump_record ke = Inr r" for ke r
    using bound [of "fst ke" "snd ke" r] unexpired_alive [OF rep that(1)] that(2) by simp
  have sum: "length (concat ps) \<le> B * length xs"
    if "map_res dump_record xs = Inr ps" "set xs \<subseteq> set ?es" for xs ps
    using that
  proof (induction xs arbitrary: ps)
    case (Cons x xs)
    then obtain r rs where r: "dump_record x = Inr r" "map_res dump_record xs = Inr rs" "ps = r # rs"
      by (auto simp: bind_res_Inr_iff)
    with Cons.IH [of rs] Cons.prems(2) one [of x r] show ?case by simp
  qed simp
  have "length ?es = card (alive_keys (reading d) M)" using length_entries_alive [OF rep] by (simp add: purge_entries [OF inv])
  with sum [OF parts] b count show ?thesis by (simp add: MAGIC_def FOOTER_def)
qed

lemma save_answered:
  assumes s: "running s M" "may_use conn s" "savable (reading (db s)) M" "\<forall>i. disk_result s i = Inr ()"
  shows "\<exists>s'. execute conn [''SAVE''] s = (Inr (Some (''+OK'' @ crlf)), s')"
proof -
  obtain b where "dump_rdb_bytes (db s) = (Inr b, purge_expired (db s))"
    using dump_savable [of "db s" M] s(1,3) by (auto simp: running_def)
  then obtain s2 where sv: "save_rdb_sync s = (Inr (), s2)"
    using s(4) by (simp add: save_rdb_sync_def dump_rdb_def write_rdb_def on_db_def server_now_def split_beta)
  show ?thesis using save_dispatched [OF s(1,2) sv] by (auto simp: ok_reply reply_of_def)
qed

section \<open>The restart\<close>

text \<open>A new process that will load the snapshot: no log, or an empty one.\<close>

definition bootable :: "start_env \<Rightarrow> server \<Rightarrow> bool" where
  "bootable env t \<longleftrightarrow>
     env_ok env \<and> \<not> started t \<and> validate_network_security (ip_mapped env) (config t) = Inr () \<and> \<not> is_replica (config t)
     \<and> fresh (db t) \<and> (\<not> cfg_aof_enabled (config t) \<or> aof_file (aof t) = [])"

lemma load_map:
  assumes snap: "holds_map saved (rdb_file t) M" and fresh: "fresh (db t)" and "saved \<le> reading (db t)"
    and log: "\<not> cfg_aof_enabled (config t) \<or> aof_file (aof t) = []"
    and size: "\<forall>b. rdb_file t = Some b \<longrightarrow> int (length b) \<le> cfg_persistence_max_load_bytes (config t)"
  shows "\<exists>d. load_persistence t = (Inr (), t\<lparr>db := d\<rparr>) \<and> represents d M \<and> reading (db t) \<le> reading d
    \<and> clock d = clock (db t)"
proof -
  let ?now = "reading (db t)" and ?d = "(db t)\<lparr>ticks := Suc (ticks (db t))\<rparr>"
  obtain b es where b: "rdb_file t = Some b" "b \<noteq> []"
    and es: "load_rdb_bytes b (cfg_persistence_max_load_bytes (config t)) ?now = Inr es" "entries_ok es"
      "\<forall>m t'. ?now \<le> m \<longrightarrow> saved \<le> m \<longrightarrow> live m (load_entries es t') = (\<lambda>k. alive m (M k))"
    using snap size by (fastforce simp: holds_map_def)
  have load: "load_persistence t = (Inr (), t\<lparr>db := load_entries es ?d\<rparr>)"
    using b es(1) log by (auto simp: load_persistence_def load_rdb_into_def server_now_def on_db_def now_ms_def reading_def Let_def)
  have mono: "mono (clock (db t))" using fresh by (simp add: fresh_def)
  then have le: "?now \<le> reading (load_entries es ?d)" by (simp add: reading_def load_entries_def monoD)
  then have "represents (load_entries es ?d) M"
    using es(2,3) fresh mono assms(3) by (auto simp: represents_def load_entries_inv fresh_def) (simp_all add: load_entries_def)
  moreover have "clock (load_entries es ?d) = clock (db t)" by (simp add: load_entries_def)
  ultimately show ?thesis using load le by blast
qed

lemma boot:
  assumes t: "bootable env t" and "saved \<le> reading (db t)" and snap: "holds_map saved (rdb_file t) M"
    and size: "\<forall>b. rdb_file t = Some b \<longrightarrow> int (length b) \<le> cfg_persistence_max_load_bytes (config t)"
  shows "\<exists>n. start env (new_node t) = (Inr (), n) \<and> listening n \<and> represents (db (srv n)) M \<and> config (srv n) = config t
    \<and> aof (srv n) = start_background_fsync (aof_open (aof t)) \<and> authenticated (srv n) = authenticated t
    \<and> reading (db t) \<le> reading (db (srv n))"
proof -
  let ?t = "stamped t"
  have fresh: "fresh (db ?t)" using t by (simp add: bootable_def fresh_stamped del: stamped_simps)
  have le: "reading (db t) \<le> reading (db ?t)"
    using t by (simp add: bootable_def fresh_def reading_def monoD)
  with assms(2) have "saved \<le> reading (db ?t)" by simp
  from load_map [OF _ fresh this] snap t size obtain d where
    d: "load_persistence ?t = (Inr (), ?t\<lparr>db := d\<rparr>)" "represents d M" "reading (db ?t) \<le> reading d"
    by (auto simp: bootable_def)
  have "authenticated ?t = authenticated t" by (simp add: stamped_def server_now_def on_db_simps)
  with start_ok [of "new_node t" env "?t\<lparr>db := d\<rparr>"] t d le show ?thesis by (simp add: bootable_def new_node_def)
qed

text \<open>C8: A snapshot survives a crash, deadlines included: when a running master has answered \<open>SAVE\<close> with OK, goes
  on serving any data commands and is killed, a new process started on the snapshot file it left, later
  and without a log, comes up, listens, and from then on shows exactly the keys the server held at the
  save, with their values, each until the deadline it had: nothing is lost but what was written after
  the save, and no deadline is renewed.\<close>

theorem snapshot_survives_crash:
  assumes s: "running s M" "may_use conn s" "0 \<le> reading (db s)"
    and save: "execute conn [''SAVE''] s = (Inr (Some (''+OK'' @ crlf)), s1)"
    and after: "serve_requests reqs s1 = (rs, s2)" "\<forall>(conn, c)\<in>set reqs. data_command c \<and> may_use conn s1"
    and t: "bootable env t" "rdb_file t = rdb_file s2" "reading (db s1) \<le> reading (db t)"
      "\<forall>b. rdb_file t = Some b \<longrightarrow> int (length b) \<le> cfg_persistence_max_load_bytes (config t)"
  shows "\<exists>n. start env (new_node t) = (Inr (), n) \<and> listening n
    \<and> (\<forall>m\<ge>reading (db (srv n)). live m (db (srv n)) = (\<lambda>k. alive m (M k)))"
proof -
  obtain saved where 1: "running s1 M" "saved \<le> reading (db s1)" "holds_map saved (rdb_file s1) M"
    using save_executed [OF s save] by blast
  have "rdb_file s2 = rdb_file s1" using serve_requests_refine [OF 1(1) after(2,1)] by blast
  with 1 t(2,3) have "saved \<le> reading (db t)" "holds_map saved (rdb_file t) M" by simp_all
  from boot [OF t(1) this t(4)] show ?thesis by (auto simp: represents_def)
qed

text \<open>A server that holds one key with a deadline, and a process started two seconds later without a log.\<close>

definition volatile_server :: server where
  "volatile_server =
     (let s = sample_server default_config in s\<lparr>db := set_string ''k'' ''v'' (Some 10) (db s)\<rparr>)"

definition volatile_map :: kv where
  "volatile_map = (\<lambda>k. None)(''k'' := set_spec ''v'' (Some 10) (reading (db (sample_server default_config))))"

lemma volatile_running: "running volatile_server volatile_map"
proof -
  have rep: "represents (db (sample_server default_config)) (\<lambda>k. None)" using sample_running by (simp add: running_def)
  from set_timed(1) [OF rep, of "''k''" "''v''" "Some 10"] sample_running show ?thesis
    by (simp add: running_def volatile_server_def volatile_map_def Let_def)
qed

definition rebooted :: "int \<Rightarrow> bytes option \<Rightarrow> server" where
  "rebooted n f =
     RedisServer default_config (lit ''0.2.2'') (lit ''def'') (\<lambda>i. n + int i)
       (AOFLog Everysec True [] (\<lambda>i. Inr None) (\<lambda>i. Inr 1)) f (\<lambda>i. Inr ())"

lemma rebooted_bootable: "bootable good_env (rebooted n f)"
proof -
  have "fresh (db (rebooted n f))"
    by (simp add: rebooted_def RedisServer_def fresh_def new_store_inv) (simp add: new_store_def mono_def default_config_def)
  with restarted_startable [of "[]"] show ?thesis
    by (simp add: startable_def bootable_def) (simp add: restarted_def rebooted_def RedisServer_def AOFLog_def)
qed

lemma volatile_alive:
  "unexpired (reading (db volatile_server)) (entries (db volatile_server)) = [(''k'', KeyEntry STRING (VStr ''v'') (Some 11000))]"
  "volatile_map = (\<lambda>k. if k = ''k'' then Some (KeyEntry STRING (VStr ''v'') (Some 11000)) else None)"
proof -
  show "unexpired (reading (db volatile_server)) (entries (db volatile_server)) = [(''k'', KeyEntry STRING (VStr ''v'') (Some 11000))]"
    by code_simp
  have "set_spec ''v'' (Some 10) (reading (db (sample_server default_config))) = Some (KeyEntry STRING (VStr ''v'') (Some 11000))"
    by code_simp
  then show "volatile_map = (\<lambda>k. if k = ''k'' then Some (KeyEntry STRING (VStr ''v'') (Some 11000)) else None)"
    by (auto simp: volatile_map_def)
qed

lemma volatile_dump:
  assumes "dump_rdb_bytes (db volatile_server) = (Inr b, d')"
  shows "length b \<le> 1000"
proof -
  have "store_inv (db volatile_server)" using volatile_running by (simp add: running_def represents_def)
  with assms have "dump_rdb_entries [(''k'', KeyEntry STRING (VStr ''v'') (Some 11000))] = Inr b"
    by (simp add: dump_rdb_bytes_def snapshot_eq volatile_alive)
  then show ?thesis
    by (rule dump_rdb_entriesE)
      (auto simp: dump_record_def dump_value_def pack_bytes_def pack_u32_def pack_i64_def expire_field_def bind_res_Inr_iff MAGIC_def FOOTER_def)
qed

theorem snapshot_survives_crash_witness:
  "\<exists>s1 n. execute 1 [''SAVE''] volatile_server = (Inr (Some (''+OK'' @ crlf)), s1)
     \<and> start good_env (new_node (rebooted (reading (db s1)) (rdb_file s1))) = (Inr (), n)
     \<and> (\<forall>m\<ge>reading (db (srv n)). live m (db (srv n)) = (\<lambda>k. alive m (volatile_map k)))"
proof -
  have use: "may_use 1 volatile_server" by (simp add: may_use_def volatile_server_def default_config_def Let_def)
  have pos: "0 \<le> reading (db volatile_server)" by code_simp
  have sav: "savable (reading (db volatile_server)) volatile_map"
  proof -
    have "alive_keys n volatile_map \<subseteq> {''k''}" for n by (auto simp: alive_keys_def volatile_alive(2) alive_def)
    then have "card (alive_keys n volatile_map) \<le> 1" for n using card_mono [of "{''k''}"] by fastforce
    then have "card (alive_keys n volatile_map) < 2 ^ 32" for n by (rule le_less_trans) simp
    then show ?thesis
      by (auto simp: savable_def volatile_alive(2) alive_def representable_def short_def split: if_splits)
  qed
  have "\<forall>i. disk_result volatile_server i = Inr ()" by (simp add: volatile_server_def sample_server_def RedisServer_def Let_def)
  then obtain s1 where s1: "execute 1 [''SAVE''] volatile_server = (Inr (Some (''+OK'' @ crlf)), s1)"
    using save_answered [OF volatile_running use sav] by blast
  let ?t = "rebooted (reading (db s1)) (rdb_file s1)"
  have t: "rdb_file ?t = rdb_file s1" "config ?t = default_config" "reading (db s1) \<le> reading (db ?t)"
    by (simp_all add: rebooted_def RedisServer_def reading_def new_store_def)
  have size: "\<forall>b. rdb_file ?t = Some b \<longrightarrow> int (length b) \<le> cfg_persistence_max_load_bytes (config ?t)"
    using save_executed(3) [OF volatile_running use pos s1] volatile_dump t(1,2) by (fastforce simp: default_config_def)
  from snapshot_survives_crash [OF volatile_running use pos s1 _ _ rebooted_bootable t(1,3) size, of "[]"] s1
  show ?thesis by auto
qed

end
