(* ===== verification/Scenario.thy ===== *)
theory Scenario
  imports Benchmark Restart
begin

text \<open>
  The end-to-end script \<open>docs/_qa_e2e_verify.py\<close>: its client, the sections on the commands, on a crash
  after \<open>SAVE\<close> and on a crash with the log, and the proof that they pass against the server of this
  development, however the network cuts the bytes and however long the steps take.

  The script's processes are servers of this development, started from the options the script gives.
  \<open>ConnectionError\<close> is the \<open>OSError\<close> it is a subclass of.
\<close>

section \<open>The client\<close>

datatype part = StrPart pystr | BytesPart bytes | IntPart int

definition part_bytes :: "part \<Rightarrow> bytes res" where
  "part_bytes p = (case p of BytesPart b \<Rightarrow> Inr b | StrPart t \<Rightarrow> utf8_encode t | IntPart i \<Rightarrow> py_format_int i)"

definition client_argv :: "part list \<Rightarrow> bytes list res" where
  "client_argv parts = map_res part_bytes parts"

text \<open>The parser is asked for a message before a read only when it holds bytes.\<close>

definition poll :: "resp_parser \<Rightarrow> pyobj list res \<times> resp_parser" where
  "poll p = (if buffered_size p \<noteq> 0 then feed p [] else (Inr [], p))"

fun await_reply :: "resp_parser \<Rightarrow> bytes list \<Rightarrow> pyobj res \<times> resp_parser \<times> bytes list" where
  "await_reply p [] =
     (case poll p of
        (Inl e, p1) \<Rightarrow> (Inl e, p1, [])
      | (Inr (m # _), p1) \<Rightarrow> (Inr m, p1, [])
      | (Inr [], p1) \<Rightarrow> (Inl (OSError (lit ''server closed'')), p1, []))"
| "await_reply p (c # cs) =
     (case poll p of
        (Inl e, p1) \<Rightarrow> (Inl e, p1, c # cs)
      | (Inr (m # _), p1) \<Rightarrow> (Inr m, p1, c # cs)
      | (Inr [], p1) \<Rightarrow>
          if c = [] then (Inl (OSError (lit ''server closed'')), p1, cs)
          else
            (case feed p1 c of
               (Inl e, p2) \<Rightarrow> (Inl e, p2, cs)
             | (Inr (m # _), p2) \<Rightarrow> (Inr m, p2, cs)
             | (Inr [], p2) \<Rightarrow> await_reply p2 cs))"

definition client_execute :: "'w peer \<Rightarrow> part list \<Rightarrow> 'w client \<Rightarrow> pyobj res \<times> 'w client" where
  "client_execute peer parts c =
     (case client_argv parts of
        Inl e \<Rightarrow> (Inl e, c)
      | Inr cmd \<Rightarrow>
          (let (cs, w) = peer (encode_command cmd) (peer_state c);
               (r, p, rest) = await_reply (reply_parser c) (arriving c @ cs)
           in (r, c\<lparr>peer_state := w, arriving := rest, reply_parser := p\<rparr>)))"

text \<open>\<open>connect\<close>: up to 50 attempts; an attempt is refused or gives a connection.\<close>

fun connect_loop :: "(nat \<Rightarrow> pystr + 'w client) \<Rightarrow> nat list \<Rightarrow> pystr option \<Rightarrow> 'w client res" where
  "connect_loop attempt [] err =
     Inl (OSError (lit ''connect failed: '' @ (case err of None \<Rightarrow> lit ''None'' | Some m \<Rightarrow> m)))"
| "connect_loop attempt (i # is) err =
     (case attempt i of Inr c \<Rightarrow> Inr c | Inl m \<Rightarrow> connect_loop attempt is (Some m))"

definition client_connect :: "(nat \<Rightarrow> pystr + 'w client) \<Rightarrow> 'w client res" where
  "client_connect attempt = connect_loop attempt [0..<50] None"

text \<open>\<open>value[0::2]\<close>; lists are the only parsed objects that cannot be keys.\<close>

fun every_other :: "'a list \<Rightarrow> 'a list" where
  "every_other (x # y # xs) = x # every_other xs"
| "every_other xs = xs"

definition pair_mapping :: "pyobj \<Rightarrow> (pyobj, pyobj) dict res" where
  "pair_mapping v =
     (case v of
        PList xs \<Rightarrow>
          if length xs mod 2 \<noteq> 0 then Inl AssertionError
          else if \<exists>k\<in>set (every_other xs). (case k of PList _ \<Rightarrow> True | _ \<Rightarrow> False) then Inl TypeError
          else Inr (fold (\<lambda>(k, x). dict_set k x) (zip (every_other xs) (every_other (drop 1 xs))) [])
      | _ \<Rightarrow> Inl AssertionError)"

fun contains :: "'a list \<Rightarrow> 'a list \<Rightarrow> bool" where
  "contains w [] \<longleftrightarrow> w = []"
| "contains w (x # xs) \<longleftrightarrow> take (length w) (x # xs) = w \<or> contains w xs"

section \<open>Scripts\<close>

text \<open>
  The steps of a section: a request whose reply is checked, a pause in milliseconds, a line of
  evidence. A check says whether its assertion holds, or raises.
\<close>

datatype step = Request "part list" "pyobj \<Rightarrow> bool res" | Pause int | Evidence pystr

definition equals :: "pyobj \<Rightarrow> pyobj \<Rightarrow> bool res" where
  "equals v m = Inr (m = v)"

definition maps_to :: "(pyobj, pyobj) dict \<Rightarrow> pyobj \<Rightarrow> bool res" where
  "maps_to d m = bind_res (pair_mapping m) (\<lambda>d'. Inr (d' = d))"

definition error_with :: "pystr \<Rightarrow> pyobj \<Rightarrow> bool res" where
  "error_with w m = Inr (case m of PErrorMsg t \<Rightarrow> contains w t | _ \<Rightarrow> False)"

definition any_reply :: "pyobj \<Rightarrow> bool res" where
  "any_reply m = Inr True"

fun run_steps ::
  "'w peer \<Rightarrow> (int \<Rightarrow> 'w \<Rightarrow> 'w) \<Rightarrow> step list \<Rightarrow> pystr list \<Rightarrow> 'w client \<Rightarrow> pystr list res \<times> 'w client" where
  "run_steps peer pause [] evidence c = (Inr evidence, c)"
| "run_steps peer pause (Request parts check # steps) evidence c =
     (case client_execute peer parts c of
        (Inl e, c1) \<Rightarrow> (Inl e, c1)
      | (Inr m, c1) \<Rightarrow>
          (case check m of
             Inl e \<Rightarrow> (Inl e, c1)
           | Inr ok \<Rightarrow> if ok then run_steps peer pause steps evidence c1 else (Inl AssertionError, c1)))"
| "run_steps peer pause (Pause ms # steps) evidence c =
     run_steps peer pause steps evidence (c\<lparr>peer_state := pause ms (peer_state c)\<rparr>)"
| "run_steps peer pause (Evidence t # steps) evidence c = run_steps peer pause steps (evidence @ [t]) c"

definition words :: "string list \<Rightarrow> part list" where
  "words = map (\<lambda>w. StrPart (lit w))"

definition arrow :: pystr where
  "arrow = [32, 8594, 32]"

definition section_commands :: "step list" where
  "section_commands =
     [Request (words [''PING'']) (equals (PStr (lit ''PONG''))),
      Evidence (lit ''PING'' @ arrow @ lit ''PONG''),
      Request (words [''SET'', ''foo'', ''bar'']) (equals (PStr (lit ''OK''))),
      Request (words [''GET'', ''foo'']) (equals (PBytes ''bar'')),
      Evidence (lit ''SET/GET foo=bar OK''),
      Request (words [''SET'', ''exk'', ''v'', ''EX'', ''1'']) (equals (PStr (lit ''OK''))),
      Pause 1150,
      Request (words [''GET'', ''exk'']) (equals PNone),
      Evidence (lit ''SET EX 1 expired'' @ arrow @ lit ''null''),
      Request (words [''SET'', ''ek'', ''v'']) (equals (PStr (lit ''OK''))),
      Request (words [''EXPIRE'', ''ek''] @ [IntPart 1]) (equals (PInt 1)),
      Pause 1150,
      Request (words [''GET'', ''ek'']) (equals PNone),
      Evidence (lit ''EXPIRE then GET null''),
      Request (words [''LPUSH'', ''mylist'', ''a'']) (equals (PInt 1)),
      Request (words [''LPUSH'', ''mylist'', ''b'']) (equals (PInt 2)),
      Request (words [''RPOP'', ''mylist'']) (equals (PBytes ''a'')),
      Request (words [''RPOP'', ''mylist'']) (equals (PBytes ''b'')),
      Request (words [''RPOP'', ''mylist'']) (equals PNone),
      Evidence (lit ''LPUSH/RPOP order a then b then null''),
      Request (words [''HSET'', ''hk'', ''f1'', ''v1'']) (equals (PInt 1)),
      Request (words [''HSET'', ''hk'', ''f1'', ''v2'']) (equals (PInt 0)),
      Request (words [''HGETALL'', ''hk'']) (maps_to [(PBytes ''f1'', PBytes ''v2'')]),
      Evidence (lit ''HSET/HGETALL f1=v2''),
      Request (words [''LPUSH'', ''wt'', ''z'']) (equals (PInt 1)),
      Request (words [''GET'', ''wt'']) (error_with (lit ''WRONGTYPE'')),
      Evidence (lit ''WRONGTYPE on GET list'')]"

definition rdb_before :: "step list" where
  "rdb_before =
     [Request (words [''SET'', ''str'', ''hello'']) (equals (PStr (lit ''OK''))),
      Request (words [''LPUSH'', ''lst'', ''a'', ''b'']) (equals (PInt 2)),
      Request (words [''HSET'', ''hs'', ''f'', ''v'']) (equals (PInt 1)),
      Request (words [''SET'', ''ttlkey'', ''t'', ''EX'', ''3600'']) (equals (PStr (lit ''OK''))),
      Request (words [''SAVE'']) (equals (PStr (lit ''OK'')))]"

definition rdb_after :: "step list" where
  "rdb_after =
     [Request (words [''GET'', ''str'']) (equals (PBytes ''hello'')),
      Request (words [''RPOP'', ''lst'']) (equals (PBytes ''a'')),
      Request (words [''HGETALL'', ''hs'']) (maps_to [(PBytes ''f'', PBytes ''v'')]),
      Request (words [''GET'', ''ttlkey'']) (equals (PBytes ''t'')),
      Evidence (lit ''post-crash restart restored str/list/hash/ttlkey'')]"

definition aof_before :: "step list" where
  "aof_before =
     [Request (words [''SET'', ''a'', ''1'']) (equals (PStr (lit ''OK''))),
      Request (words [''LPUSH'', ''L'', ''x'']) (equals (PInt 1)),
      Request (words [''HSET'', ''H'', ''f'', ''v'']) (equals (PInt 1)),
      Request (words [''GET'', ''a'']) any_reply]"

definition aof_after :: "step list" where
  "aof_after =
     [Request (words [''GET'', ''a'']) (equals (PBytes ''1'')),
      Request (words [''RPOP'', ''L'']) (equals (PBytes ''x'')),
      Request (words [''HGETALL'', ''H'']) (maps_to [(PBytes ''f'', PBytes ''v'')]),
      Evidence (lit ''AOF replay restored a/L/H after restart (RDB removed)'')]"

section \<open>Processes\<close>

text \<open>A data directory, and what surrounds a server process.\<close>

record data_dir =
  dump_rdb_file :: "bytes option"
  appendonly_file :: bytes

record process_env =
  proc_start :: start_env
  proc_clock :: "nat \<Rightarrow> int"
  proc_pid :: nat
  proc_run_id :: pystr
  proc_writes :: "nat \<Rightarrow> pystr + nat option"
  proc_fsyncs :: "nat \<Rightarrow> pystr + int"
  proc_disk :: "nat \<Rightarrow> pystr + unit"
  proc_password :: "pystr option"
  proc_master_password :: "pystr option"
  proc_resolve :: "pystr \<Rightarrow> pystr"
  proc_refuses :: "nat \<Rightarrow> pystr option"

definition no_aof :: "args \<Rightarrow> args" where
  "no_aof a = a\<lparr>arg_aof_enabled := False\<rparr>"

definition aof_always :: "args \<Rightarrow> args" where
  "aof_always a = a\<lparr>arg_aof_enabled := True, arg_aof_fsync := Always\<rparr>"

definition script_args :: "process_env \<Rightarrow> int \<Rightarrow> pystr \<Rightarrow> (args \<Rightarrow> args) \<Rightarrow> args" where
  "script_args env port dir extra =
     extra ((default_args (proc_password env) (proc_master_password env))
       \<lparr>arg_host := lit ''127.0.0.1'', arg_port := port, arg_dir := dir, arg_log_level := LogWarning\<rparr>)"

definition process_server :: "process_env \<Rightarrow> data_dir \<Rightarrow> config \<Rightarrow> server" where
  "process_server env files cfg =
     RedisServer cfg (lit ''0.2.2'') (proc_run_id env) (proc_clock env)
       (AOFLog (cfg_aof_fsync cfg) (cfg_aof_enabled cfg) (appendonly_file files) (proc_writes env) (proc_fsyncs env))
       (dump_rdb_file files) (proc_disk env)"

text \<open>A process that ends during its start never listens.\<close>

definition start_server :: "process_env \<Rightarrow> int \<Rightarrow> pystr \<Rightarrow> (args \<Rightarrow> args) \<Rightarrow> data_dir \<Rightarrow> node option" where
  "start_server env port dir extra files =
     (case config_from_args (proc_resolve env) (script_args env port dir extra) of
        Inl _ \<Rightarrow> None
      | Inr cfg \<Rightarrow>
          (case start (proc_start env) (new_node (process_server env files cfg)) of
             (Inr _, n) \<Rightarrow> Some n
           | (Inl _, _) \<Rightarrow> None))"

text \<open>An attempt to connect: refused while the process does not listen; over the limit, the server says so and closes.\<close>

definition attempt :: "process_env \<Rightarrow> node option \<Rightarrow> nat \<Rightarrow> pystr + server_side client" where
  "attempt env proc i =
     (case (proc, proc_refuses env i) of
        (None, _) \<Rightarrow> Inl (lit ''refused'')
      | (Some n, Some m) \<Rightarrow> Inl m
      | (Some n, None) \<Rightarrow>
          (case accept_client (srv n) of
             (Inr conn, s) \<Rightarrow> Inr (open_connection (accepted conn s))
           | (Inl refusal, s) \<Rightarrow>
               Inr ((open_connection ((accepted 0 s)\<lparr>side_open := False\<rparr>))
                 \<lparr>arriving := (case refusal of Inr b \<Rightarrow> [b] | Inl _ \<Rightarrow> [])\<rparr>)))"

text \<open>Start a server, connect and run the steps; a killed process leaves its files.\<close>

type_synonym network = "(nat \<Rightarrow> bytes \<Rightarrow> bytes list) \<times> (nat \<Rightarrow> bytes \<Rightarrow> bytes list)"

definition on_side :: "(int \<Rightarrow> server \<Rightarrow> server) \<Rightarrow> int \<Rightarrow> server_side \<Rightarrow> server_side" where
  "on_side pause ms w = w\<lparr>side_server := pause ms (side_server w)\<rparr>"

definition session ::
  "network \<Rightarrow> (int \<Rightarrow> server \<Rightarrow> server) \<Rightarrow> process_env \<Rightarrow> node option \<Rightarrow> step list \<Rightarrow> (pystr list \<times> server) res" where
  "session net pause env proc steps =
     bind_res (client_connect (attempt env proc)) (\<lambda>c.
       case run_steps (server_peer (fst net) (snd net)) (on_side pause) steps [] c of
         (Inl e, _) \<Rightarrow> Inl e
       | (Inr evidence, c1) \<Rightarrow> Inr (evidence, side_server (peer_state c1)))"

definition left_behind :: "server \<Rightarrow> data_dir" where
  "left_behind s = \<lparr>dump_rdb_file = rdb_file s, appendonly_file = aof_file (aof s)\<rparr>"

definition section_rdb_crash ::
  "network \<Rightarrow> (int \<Rightarrow> server \<Rightarrow> server) \<Rightarrow> process_env \<Rightarrow> process_env \<Rightarrow> int \<Rightarrow> pystr \<Rightarrow> data_dir \<Rightarrow> pystr list res" where
  "section_rdb_crash net pause env1 env2 port dir files =
     bind_res (session net pause env1 (start_server env1 port dir no_aof files) rdb_before) (\<lambda>(_, s).
       case rdb_file s of
         None \<Rightarrow> Inl AssertionError
       | Some rdb \<Rightarrow>
           if rdb = [] then Inl AssertionError
           else
             bind_res (session net pause env2 (start_server env2 port dir no_aof (left_behind s)) rdb_after) (\<lambda>(ev, _).
               Inr ([lit ''SAVE ok; RDB size='' @ lit (dec_nat (length rdb)),
                     lit ''force-killed PID '' @ lit (dec_nat (proc_pid env1)) @ lit '' (taskkill /F)''] @ ev)))"

definition section_aof ::
  "network \<Rightarrow> (int \<Rightarrow> server \<Rightarrow> server) \<Rightarrow> process_env \<Rightarrow> process_env \<Rightarrow> int \<Rightarrow> pystr \<Rightarrow> data_dir \<Rightarrow> pystr list res" where
  "section_aof net pause env1 env2 port dir files =
     bind_res (session net pause env1 (start_server env1 port dir aof_always files) aof_before) (\<lambda>(_, s).
       let content = aof_file (aof s)
       in if content = [] \<or> \<not> (contains ''SET'' content \<and> \<not> contains ''GET'' content) then Inl AssertionError
          else
            bind_res
              (session net pause env2
                (start_server env2 port dir aof_always ((left_behind s)\<lparr>dump_rdb_file := None\<rparr>)) aof_after) (\<lambda>(ev, _).
              Inr ([lit ''AOF size='' @ lit (dec_nat (length content)) @ lit ''; contains SET; no GET''] @ ev)))"

end
