(* ===== verification/Scenario_Correct.thy ===== *)
theory Scenario_Correct
  imports Scenario
begin

text \<open>
  The sections of the end-to-end script pass. A section is evaluated once on the abstract database of
  \<open>Database\<close>, for all times its steps may take (\<open>passes\<close>); a run against the server then passes too.
\<close>

section \<open>Replies\<close>

text \<open>The script's client reads what the benchmark client reads.\<close>

lemma poll_feed: "0 \<le> max_buffer_bytes p \<Longrightarrow> poll p = feed p []"
  by (cases "buf p = []") (auto simp: poll_def buffered_size_def feed_within_limit)

lemma feed_limit [simp]: "feed p d = (r, p') \<Longrightarrow> max_buffer_bytes p' = max_buffer_bytes p"
  using feed_loop_limits [of _ "[]" r p'] by (fastforce simp: feed_def split: if_splits dest: arg_cong [where f = max_buffer_bytes])

lemma await_read:
  "read_reply p cs = (Inr m, p', rest) \<Longrightarrow> 0 \<le> max_buffer_bytes p \<Longrightarrow> await_reply p cs = (Inr m, p', rest)"
proof (induction p cs rule: read_reply.induct)
  case (1 p)
  then show ?case by (auto simp: poll_feed split: prod.splits sum.splits list.splits)
next
  case (2 p c cs)
  obtain r p1 where 1: "feed p [] = (r, p1)" by fastforce
  obtain r2 p2 where 2: "feed p1 c = (r2, p2)" by fastforce
  have "max_buffer_bytes p2 = max_buffer_bytes p" using 1 2 by (auto dest!: feed_limit)
  then show ?case
    using "2.IH" "2.prems" 1 2
    by (auto simp: poll_feed split: sum.splits list.splits if_splits)
qed

text \<open>The reply \<open>r\<close> of the abstract database reaches the client as the message \<open>m\<close>.\<close>

definition arrives :: "pyobj res \<Rightarrow> pyobj \<Rightarrow> bool" where
  "arrives r m \<longleftrightarrow>
     (\<exists>b. reply_of r = Inr (Some b) \<and> b \<noteq> [] \<and> parse_at default_parser b = Inr (m, length b) \<and> length b \<le> 32000000)"

lemma arrives_value:
  assumes "encode_value v = Inr b" and "fits default_parser 0 v" and "length b \<le> 32000000"
  shows "arrives (Inr v) (wire v)"
proof -
  have "fits (default_parser\<lparr>buf := b\<rparr>) 0 v" using assms(2) by (simp add: fits_buf)
  with try_parse_encoded [OF assms(1), of "default_parser\<lparr>buf := b\<rparr>" 0 "[]" "[]"]
  have "parse_at default_parser b = Inr (wire v, length b)" by (simp add: parse_at_def)
  with assms(1,3) encode_value_nonempty [OF assms(1)] show ?thesis
    by (auto simp: arrives_def reply_of_def encode_reply_def)
qed

lemma arrives_simple:
  assumes "is_ascii w" and "cr \<notin> set w" and "lf \<notin> set w" and "length w \<le> 1000"
  shows "arrives (Inr (simple w)) (PStr (lit w))"
  using encode_simple_ascii [OF assms(1-3)] parse_at_line [OF assms(2), of default_parser "[]"] utf8_decode_ascii [OF assms(1)] assms(4)
  by (auto simp: arrives_def reply_of_def crlf_def)

lemma arrives_words: "arrives (Inr (simple ''OK'')) (PStr (lit ''OK''))" "arrives (Inr (simple ''PONG'')) (PStr (lit ''PONG''))"
  by (rule arrives_simple; code_simp)+

lemma arrives_error:
  assumes "is_ascii w" and "cr \<notin> set w" and "lf \<notin> set w" and "length w \<le> 1000"
  shows "arrives (Inl (RespError (lit w))) (PErrorMsg (lit w))"
proof -
  have same: "replace_byte x y w = w" if "x \<notin> set w" for x y
    using that by (auto simp: replace_byte_def intro: map_idI)
  have out: "error_reply (lit w) = Inr (Some (''-'' @ w @ crlf))"
    using utf8_encode_lit [OF assms(1)] assms(2,3)
    by (simp add: error_reply_def encode_error_def as_bytes_def same)
  let ?p = "default_parser\<lparr>buf := ''-'' @ w @ crlf\<rparr>"
  have "buf ?p = [] @ CHR ''-'' # w @ crlf @ []" by simp
  from read_line_at [OF this assms(2)] nth_at [OF this]
  have "parse_at default_parser (''-'' @ w @ crlf) = Inr (PErrorMsg (utf8_decode_replace w), length (''-'' @ w @ crlf))"
    unfolding parse_at_def by (subst try_parse.simps) (simp add: parse_error_line_def crlf_def Let_def)
  with out assms(4) utf8_decode_ascii [OF assms(1)] show ?thesis by (simp add: arrives_def reply_of_def crlf_def)
qed

lemma arrives_none: "arrives (Inr PNone) PNone"
  using arrives_value [of PNone encode_null_bulk] by (simp add: enc_simps encode_null_bulk_def crlf_def)

lemma bulk_small: "length b \<le> 1000 \<Longrightarrow> length (bulk_of b) \<le> 1010" "length b \<le> 1000 \<Longrightarrow> fits default_parser d (PBytes b)"
  using length_dec_nat_le [of "length b" 4] size_ok_parser [of "length b"]
  by (simp_all add: bulk_of_def crlf_def) (simp add: default_parser_def RespParser_def)

lemma arrives_bytes: "length b \<le> 1000 \<Longrightarrow> arrives (Inr (PBytes b)) (PBytes b)"
  using arrives_value [of "PBytes b" "bulk_of b"] bulk_small [of b] by (simp add: enc_simps)

lemma arrives_int:
  assumes "n < 1000"
  shows "arrives (Inr (PInt (int n))) (PInt (int n))"
proof -
  have "length (dec_nat n) \<le> 3" using assms length_dec_nat_le [of n 3] by simp
  then show ?thesis
    using arrives_value [of "PInt (int n)" "'':'' @ dec_nat n @ crlf"]
    by (simp add: enc_simps encode_integer_def py_format_int_def dec_int_def int_max_str_digits_def crlf_def)
qed

lemma arrives_pair:
  assumes "length a \<le> 1000" and "length b \<le> 1000"
  shows "arrives (Inr (PList [PBytes a, PBytes b])) (PList [PBytes a, PBytes b])"
proof -
  have "encode_value (PList [PBytes a, PBytes b]) = Inr (array_header 2 @ bulk_of a @ bulk_of b)"
    by (simp add: enc_simps numeral_2_eq_2)
  moreover have "length (array_header 2) \<le> 10"
    using length_dec_nat_le [of 2 1] by (simp add: array_header_def crlf_def)
  moreover have "fits default_parser 0 (PList [PBytes a, PBytes b])"
    using bulk_small(2) assms size_ok_parser [of "Suc (Suc 0)"] by (simp add: default_parser_def RespParser_def)
  ultimately show ?thesis
    using arrives_value [of "PList [PBytes a, PBytes b]" "array_header 2 @ bulk_of a @ bulk_of b"] bulk_small(1) [of a] bulk_small(1) [of b] assms by simp
qed

section \<open>A request\<close>

text \<open>The command a result puts in the log, and the log, when it is on.\<close>

definition journal :: "bytes list \<Rightarrow> pyobj res \<Rightarrow> bytes list list" where
  "journal c r = (case r of Inl _ \<Rightarrow> [] | Inr _ \<Rightarrow> if upper_name c \<in> set WRITE_COMMANDS then [c] else [])"

definition log_of :: "bool \<Rightarrow> aof_log \<Rightarrow> bytes list list \<Rightarrow> bool" where
  "log_of on l cs \<longleftrightarrow> aof_enabled l = on \<and> (on \<longrightarrow> aof_file l = concat (map encode_command cs))"

lemma logged_journal:
  assumes "log_accepts l" and "log_of on l cs"
  shows "log_of on (logged c r l) (cs @ journal c r)"
proof (cases "aof_enabled l")
  case True
  then have l: "log_ready l" "disk_ok l" using assms(1) by (auto simp: log_accepts_def)
  then have "full_writes l" by (simp add: disk_ok_def full_writes_def)
  obtain l' where l': "aof_append c l = (Inr (), l')" "log_ready l'" using append_disk_ok [OF l] by blast
  from aof_append_ok(3) [OF l(1) this(1) \<open>full_writes l\<close>] assms(2) l' True show ?thesis
    by (auto simp: log_of_def logged_def journal_def log_ready_def split: sum.split)
next
  case False
  with assms(2) show ?thesis by (simp add: log_of_def logged_def journal_def aof_append_def split: sum.split)
qed

text \<open>
  Client and server between two requests of a script. The horizon \<open>H\<close> is a time the server's clock
  stays below, if there is one; \<open>on\<close> says whether the log is on.
\<close>

definition before :: "int option \<Rightarrow> int \<Rightarrow> bool" where
  "before H n \<longleftrightarrow> (case H of None \<Rightarrow> True | Some h \<Rightarrow> n < h)"

definition at_rest :: "bool \<Rightarrow> int option \<Rightarrow> resp_parser \<Rightarrow> int \<Rightarrow> kv \<Rightarrow> bytes list list \<Rightarrow> server_side client \<Rightarrow> bool" where
  "at_rest on H p t M cs c \<longleftrightarrow>
     idle p c \<and> limits_ok p \<and> 5 \<le> max_array_len p
     \<and> (let s = side_server (peer_state c)
        in running s M \<and> cfg_requirepass (config s) = None \<and> t \<le> reading (db s) \<and> log_of on (aof s) cs
           \<and> (\<forall>i. disk_result s i = Inr ()) \<and> (\<forall>i. before H (clock (db s) i)))"

definition small :: "bytes list \<Rightarrow> bool" where
  "small c \<longleftrightarrow> c \<noteq> [] \<and> length c \<le> 5 \<and> (\<forall>a\<in>set c. length a < 1000) \<and> length (concat c) \<le> 900"

lemma key_call_cases:
  assumes "db_call now later c M r M'" and "key_command c"
  shows "r = fst (key_step now later c (alive now (M (c ! 1))))" "M' = M(c ! 1 := snd (key_step now later c (alive now (M (c ! 1)))))"
  using assms by (auto elim!: db_call.cases simp: key_command_def)

lemma processed_running: "running s M \<Longrightarrow> running (processed s) M"
  by (simp add: running_def processed_def)

lemma executed_exchange:
  assumes net: "cuts cut_in" "cuts cut_out" and c: "at_rest on H p t M cs c"
    and cmd: "client_argv parts = Inr cmd" "small cmd" "upper_name cmd \<notin> {''PSYNC'', ''AUTH''}"
    and ex: "execute (side_conn (peer_state c)) cmd (processed (side_server (peer_state c))) = (reply_of r, s')"
    and m: "arrives r m"
  shows "\<exists>c'. client_execute (server_peer cut_in cut_out) parts c = (Inr m, c') \<and> idle p c' \<and> side_server (peer_state c') = s'
    \<and> side_conn (peer_state c') = side_conn (peer_state c)"
proof -
  let ?w = "peer_state c"
  have i: "arriving c = []" "reply_parser c = default_parser" "side_open ?w" "side_parser ?w = p" "buf p = []"
    and p: "limits_ok p" "5 \<le> max_array_len p"
    using c by (auto simp: at_rest_def idle_def)
  obtain b where b: "reply_of r = Inr (Some b)" "b \<noteq> []" "parse_at default_parser b = Inr (m, length b)" "length b \<le> 32000000"
    using m by (auto simp: arrives_def)
  have run: "serve_command (side_conn ?w) cmd (processed (side_server ?w)) = (b, Continue, s')"
    using ex b(1) cmd(3) by (simp add: serve_command_def opt_bytes_def)
  have "command_fits p cmd" "int (length (encode_command cmd)) \<le> max_buffer_bytes p"
    using command_small [OF p(1), of cmd] cmd(2) p(2) by (auto simp: small_def)
  then obtain xs where "server_peer cut_in cut_out (encode_command cmd) ?w = (xs, ?w\<lparr>side_server := s', exchanges := Suc (exchanges ?w)\<rparr>)"
    "read_reply default_parser xs = (Inr m, default_parser, [])"
    using exchange_bytes [OF net i(3) _ _ _ _ run b(2-4)] cmd(2) i(4,5) by (auto simp: small_def)
  with cmd(1) i await_read [of default_parser xs m default_parser "[]"] show ?thesis
    by (auto simp: client_execute_def idle_def)
qed

lemma request_key:
  assumes net: "cuts cut_in" "cuts cut_out" and c: "at_rest on H p t M cs c"
    and cmd: "client_argv parts = Inr cmd" "small cmd" "key_command cmd"
    and ok: "\<And>now later. t \<le> now \<Longrightarrow> now \<le> later \<Longrightarrow> before H later \<Longrightarrow>
      \<exists>m. arrives (fst (key_step now later cmd (alive now (M (cmd ! 1))))) m \<and> check m = Inr True"
  shows "\<exists>m c' now later. t \<le> now \<and> now \<le> later \<and> before H later \<and> client_execute (server_peer cut_in cut_out) parts c = (Inr m, c')
    \<and> check m = Inr True
    \<and> at_rest on H p later (M(cmd ! 1 := snd (key_step now later cmd (alive now (M (cmd ! 1))))))
        (cs @ journal cmd (fst (key_step now later cmd (alive now (M (cmd ! 1)))))) c'"
proof -
  let ?s = "side_server (peer_state c)" and ?conn = "side_conn (peer_state c)"
  have s: "running ?s M" "cfg_requirepass (config ?s) = None" "t \<le> reading (db ?s)" "log_of on (aof ?s) cs" "\<forall>i. disk_result ?s i = Inr ()"
    "\<forall>i. before H (clock (db ?s) i)"
    using c by (simp_all add: at_rest_def Let_def)
  have same: "config (processed ?s) = config ?s" "db (processed ?s) = db ?s" "aof (processed ?s) = aof ?s"
    "disk_result (processed ?s) = disk_result ?s" by (simp_all add: processed_def)
  have "may_use ?conn (processed ?s)" using s(2) same by (simp add: may_use_def)
  moreover have "data_command cmd" using cmd(3) by (simp add: data_command_def)
  ultimately obtain r M' now later s' where
    ex: "execute ?conn cmd (processed ?s) = (reply_of r, s')" and call: "db_call now later cmd M r M'" and s': "running s' M'"
    and le: "reading (db ?s) \<le> now" "now \<le> later" "later \<le> reading (db s')"
    and fr: "config s' = config ?s" "disk_result s' = disk_result ?s" "aof s' = logged cmd r (aof ?s)"
    using execute_refines [OF processed_running [OF s(1)], of ?conn cmd] unfolding same by blast
  note k = key_call_cases [OF call cmd(3)]
  have "clock (db s') = clock (db ?s)"
    using execute_inner_clock [of "processed ?s" "client_context ?conn cmd"] ex same(2) by (simp add: execute_def clock_step_def)
  with s(6) have H: "\<forall>i. before H (clock (db s') i)" by simp
  then have "before H (reading (db s'))" by (simp add: reading_def)
  with le(3) have bef: "before H later" by (auto simp: before_def split: option.splits)
  from ok [of now later] le s(3) bef obtain m where m: "arrives r m" "check m = Inr True" by (auto simp: k(1))
  have "upper_name cmd \<notin> {''PSYNC'', ''AUTH''}" using cmd(3) by (auto simp: key_command_def)
  from executed_exchange [OF net c cmd(1,2) this ex m(1)] obtain c' where
    c': "client_execute (server_peer cut_in cut_out) parts c = (Inr m, c')" "idle p c'" "side_server (peer_state c') = s'" by blast
  have "log_of on (aof s') (cs @ journal cmd r)" using logged_journal s(1,4) fr(3) by (simp add: running_def)
  then have "at_rest on H p later M' (cs @ journal cmd r) c'"
    using c c'(2,3) s' s(2,5) fr le H by (simp add: at_rest_def)
  with c'(1) m le s(3) bef show ?thesis
    unfolding k by (intro exI [of _ m] exI [of _ c'] exI [of _ now] exI [of _ later]) auto
qed

lemma request_ping:
  assumes net: "cuts cut_in" "cuts cut_out" and c: "at_rest on H p t M cs c" and parts: "client_argv parts = Inr [''PING'']"
  shows "\<exists>c'. client_execute (server_peer cut_in cut_out) parts c = (Inr (PStr (lit ''PONG'')), c') \<and> at_rest on H p t M cs c'"
proof -
  let ?s = "processed (side_server (peer_state c))"
  have s: "cfg_requirepass (config ?s) = None" using c by (simp add: at_rest_def processed_def Let_def)
  have name: "upper_name [''PING''] = ''PING''" by (simp add: upper_name_def upper_names)
  have ex: "execute (side_conn (peer_state c)) [''PING''] ?s = (reply_of (Inr (simple ''PONG'')), ?s)"
    using ping_executed [OF s] by (simp add: reply_of_def pong_reply)
  have "small [''PING'']" by (simp add: small_def)
  from executed_exchange [OF net c parts this _ ex arrives_words(2)] name obtain c' where
    c': "client_execute (server_peer cut_in cut_out) parts c = (Inr (PStr (lit ''PONG'')), c')" "idle p c'"
      "side_server (peer_state c') = ?s" by auto
  then have "at_rest on H p t M cs c'"
    using c processed_running by (auto simp: at_rest_def Let_def) (auto simp: processed_def)
  with c'(1) show ?thesis by blast
qed

section \<open>Scripts on the abstract database\<close>

text \<open>
  A script passes from the map \<open>M\<close> at the time \<open>t\<close>, with the commands \<open>cs\<close> logged so far, and leaves what
  \<open>Q\<close> says, whatever the times of its steps.
\<close>

fun passes :: "int option \<Rightarrow> int \<Rightarrow> kv \<Rightarrow> bytes list list \<Rightarrow> step list \<Rightarrow> (int \<Rightarrow> kv \<Rightarrow> bytes list list \<Rightarrow> bool) \<Rightarrow> bool" where
  "passes H t M cs [] Q \<longleftrightarrow> Q t M cs"
| "passes H t M cs (Request parts check # steps) Q \<longleftrightarrow>
     (\<exists>cmd. client_argv parts = Inr cmd
        \<and> (if cmd = [''PING''] then check (PStr (lit ''PONG'')) = Inr True \<and> passes H t M cs steps Q
           else small cmd \<and> key_command cmd
             \<and> (\<forall>now later. t \<le> now \<longrightarrow> now \<le> later \<longrightarrow> before H later \<longrightarrow>
                  (let out = key_step now later cmd (alive now (M (cmd ! 1)))
                  in (\<exists>m. arrives (fst out) m \<and> check m = Inr True)
                     \<and> passes H later (M(cmd ! 1 := snd out)) (cs @ journal cmd (fst out)) steps Q))))"
| "passes H t M cs (Pause ms # steps) Q \<longleftrightarrow> H = None \<and> 0 \<le> ms \<and> (\<forall>t'\<ge>t + ms. passes H t' M cs steps Q)"
| "passes H t M cs (Evidence e # steps) Q \<longleftrightarrow> passes H t M cs steps Q"

fun evidence_of :: "step list \<Rightarrow> pystr list" where
  "evidence_of [] = []"
| "evidence_of (Evidence e # steps) = e # evidence_of steps"
| "evidence_of (s # steps) = evidence_of steps"

text \<open>While the script sleeps, the clock of the server advances and its background tasks run.\<close>

locale waiting =
  fixes pause :: "int \<Rightarrow> server \<Rightarrow> server"
  assumes keeps_running: "0 \<le> ms \<Longrightarrow> running s M \<Longrightarrow> running (pause ms s) M"
    and advances: "0 \<le> ms \<Longrightarrow> running s M \<Longrightarrow> reading (db s) + ms \<le> reading (db (pause ms s))"
    and same_config: "config (pause ms s) = config s"
    and same_log: "aof (pause ms s) = aof s"
    and same_disk: "disk_result (pause ms s) = disk_result s"
begin

lemma pause_rest:
  assumes "at_rest on None p t M cs c" and "0 \<le> ms"
  shows "at_rest on None p (t + ms) M cs (c\<lparr>peer_state := on_side pause ms (peer_state c)\<rparr>)"
proof -
  let ?s = "side_server (peer_state c)"
  have "running ?s M" "t \<le> reading (db ?s)" using assms(1) by (simp_all add: at_rest_def Let_def)
  with keeps_running [OF assms(2), of ?s M] advances [OF assms(2), of ?s M] assms(1) show ?thesis
    by (simp add: at_rest_def idle_def on_side_def same_config same_log same_disk before_def Let_def)
qed

lemma script_passes:
  assumes net: "cuts cut_in" "cuts cut_out"
  shows "at_rest on H p t M cs c \<Longrightarrow> passes H t M cs steps Q \<Longrightarrow>
    \<exists>c' t' M' cs'. run_steps (server_peer cut_in cut_out) (on_side pause) steps ev c = (Inr (ev @ evidence_of steps), c')
      \<and> at_rest on H p t' M' cs' c' \<and> Q t' M' cs'"
proof (induction H t M cs steps Q arbitrary: ev c rule: passes.induct)
  case (1 H t M cs Q)
  then show ?case by auto
next
  case (2 H t M cs parts check steps Q)
  from "2.prems"(2) obtain cmd where cmd: "client_argv parts = Inr cmd" by auto
  show ?case
  proof (cases "cmd = [''PING'']")
    case True
    then have ok: "check (PStr (lit ''PONG'')) = Inr True" "passes H t M cs steps Q" using "2.prems"(2) cmd by auto
    from request_ping [OF net "2.prems"(1)] cmd True obtain c1 where
      "client_execute (server_peer cut_in cut_out) parts c = (Inr (PStr (lit ''PONG'')), c1)" "at_rest on H p t M cs c1" by blast
    with "2.IH"(1) [OF True this(2) ok(2)] ok(1) show ?thesis by simp
  next
    case False
    let ?out = "\<lambda>now later. key_step now later cmd (alive now (M (cmd ! 1)))"
    have ok: "small cmd" "key_command cmd"
      and all: "\<And>now later. t \<le> now \<Longrightarrow> now \<le> later \<Longrightarrow> before H later \<Longrightarrow> (\<exists>m. arrives (fst (?out now later)) m \<and> check m = Inr True)
        \<and> passes H later (M(cmd ! 1 := snd (?out now later))) (cs @ journal cmd (fst (?out now later))) steps Q"
      using "2.prems"(2) cmd False by (auto simp: Let_def)
    from request_key [OF net "2.prems"(1) cmd ok, of check] all obtain m c1 now later where
      n: "t \<le> now" "now \<le> later" "before H later" "client_execute (server_peer cut_in cut_out) parts c = (Inr m, c1)" "check m = Inr True"
      and c1: "at_rest on H p later (M(cmd ! 1 := snd (?out now later))) (cs @ journal cmd (fst (?out now later))) c1" by blast
    from "2.IH"(2) [OF False _ _ _ refl c1] all [OF n(1-3)] n show ?thesis by (simp add: fun_upd_def)
  qed
next
  case (3 H t M cs ms steps Q)
  then have H: "H = None" and ms: "0 \<le> ms" "passes H (t + ms) M cs steps Q" by auto
  from "3.prems"(1) have "at_rest on None p t M cs c" by (simp add: H)
  from "3.IH" [OF _ _ ms(2)] pause_rest [OF this ms(1)] H show ?case by simp
next
  case (4 H t M cs e steps Q)
  from "4.IH" [OF "4.prems"(1), of "ev @ [e]"] "4.prems"(2) show ?case by simp
qed

end

section \<open>Evaluating scripts\<close>

declare passes.simps(2) [simp del]

lemma word_argv: "list_all is_ascii ws \<Longrightarrow> client_argv (words ws) = Inr ws"
  by (induction ws) (simp_all add: client_argv_def words_def part_bytes_def utf8_encode_lit)

lemma script_names:
  "upper_name (''PING'' # c) = ''PING''" "upper_name (''SET'' # c) = ''SET''" "upper_name (''GET'' # c) = ''GET''"
  "upper_name (''EXPIRE'' # c) = ''EXPIRE''" "upper_name (''LPUSH'' # c) = ''LPUSH''" "upper_name (''RPOP'' # c) = ''RPOP''"
  "upper_name (''HSET'' # c) = ''HSET''" "upper_name (''HGETALL'' # c) = ''HGETALL''"
proof -
  have "py_upper ''HGETALL'' = ''HGETALL''" by code_simp
  then show "upper_name (''HGETALL'' # c) = ''HGETALL''" by (simp add: upper_name_def)
qed (simp_all add: upper_name_def upper_names)

text \<open>An entry that does not expire before the horizon.\<close>

definition lasting :: "int option \<Rightarrow> key_entry option \<Rightarrow> bool" where
  "lasting H e \<longleftrightarrow> (\<forall>n. before H n \<longrightarrow> alive n e = e)"

lemma lasting_KeyEntry [simp]: "lasting H None" "lasting H (Some (KeyEntry ty v None))"
  "lasting (Some h) (Some (KeyEntry ty v (Some d))) \<longleftrightarrow> h \<le> d"
  by (auto simp: lasting_def alive_def is_expired_def before_def not_le)

lemma KeyEntry_update [simp]:
  "(KeyEntry ty v x)\<lparr>kvalue := v'\<rparr> = KeyEntry ty v' x" "(KeyEntry ty v x)\<lparr>expire_at_ms := x'\<rparr> = KeyEntry ty v x'"
  by (simp_all add: KeyEntry_def)

lemma alive_KeyEntry [simp]: "alive n None = None"
  "alive n (Some (KeyEntry ty v (Some d))) = (if d \<le> n then None else Some (KeyEntry ty v (Some d)))"
  by (simp_all add: alive_def is_expired_def)

lemma before_earlier: "before H later \<Longrightarrow> now \<le> later \<Longrightarrow> before H now"
  by (auto simp: before_def split: option.splits)

lemma passes_word:
  assumes ws: "client_argv parts = Inr ws" "ws \<noteq> [''PING'']" "small ws" "key_command ws"
    and "\<And>now later. t \<le> now \<Longrightarrow> now \<le> later \<Longrightarrow> before H now \<Longrightarrow> before H later \<Longrightarrow>
      \<exists>m r e. key_step now later ws (alive now (M (ws ! 1))) = (r, e) \<and> arrives r m \<and> check m = Inr True
        \<and> passes H later (M(ws ! 1 := e)) (cs @ journal ws r) steps Q"
  shows "passes H t M cs (Request parts check # steps) Q"
proof -
  have "(\<exists>m. arrives (fst (key_step now later ws (alive now (M (ws ! 1))))) m \<and> check m = Inr True)
      \<and> passes H later (M(ws ! 1 := snd (key_step now later ws (alive now (M (ws ! 1))))))
          (cs @ journal ws (fst (key_step now later ws (alive now (M (ws ! 1)))))) steps Q"
    if "t \<le> now" "now \<le> later" "before H later" for now later
    using assms(5) [OF that(1,2) before_earlier [OF that(3,2)] that(3)] by auto
  with ws show ?thesis by (auto simp: Let_def passes.simps(2))
qed

text \<open>Arguments as the script has them.\<close>

definition tame :: "bytes \<Rightarrow> bool" where
  "tame a \<longleftrightarrow> is_ascii a \<and> length a \<le> 10"

lemma tame_words:
  assumes "list_all tame ws" and "ws \<noteq> []" and "length ws \<le> 5"
  shows "list_all is_ascii ws" "small ws"
proof -
  show "list_all is_ascii ws" using assms(1) by (auto simp: list_all_iff tame_def)
  have "length (concat ws) \<le> 10 * length ws" using assms(1) by (induction ws) (auto simp: tame_def)
  with assms show "small ws" by (force simp: small_def list_all_iff tame_def)
qed

lemma tame_names: "tame ''SET''" "tame ''GET''" "tame ''EXPIRE''" "tame ''LPUSH''" "tame ''RPOP''" "tame ''HSET''"
  "tame ''HGETALL''" "tame ''EX''"
  by (unfold tame_def; code_simp)+

lemmas step_simps = key_command_def script_names key_step_def key_call_def journal_def WRITE_COMMANDS_def equals_def
  bulk_or_nil_def Let_def

lemma passes_parts:
  assumes ws: "list_all tame (name # k # args)" "length args \<le> 3" "key_command (name # k # args)"
    and parts: "client_argv parts = Inr (name # k # args)"
    and "\<And>now later. t \<le> now \<Longrightarrow> now \<le> later \<Longrightarrow> before H now \<Longrightarrow> before H later \<Longrightarrow>
      \<exists>m r e. key_step now later (name # k # args) (alive now (M k)) = (r, e) \<and> arrives r m \<and> check m = Inr True
        \<and> passes H later (M(k := e)) (cs @ journal (name # k # args) r) steps Q"
  shows "passes H t M cs (Request parts check # steps) Q"
  by (rule passes_word [OF parts]) (use assms tame_words [OF ws(1)] in simp_all)

lemma tame_argv: "list_all tame ws \<Longrightarrow> client_argv (words ws) = Inr ws"
  by (rule word_argv) (auto simp: list_all_iff tame_def)

lemma passes_tame:
  assumes ws: "list_all tame (name # k # args)" "length args \<le> 3" "key_command (name # k # args)"
    and "\<And>now later. t \<le> now \<Longrightarrow> now \<le> later \<Longrightarrow> before H now \<Longrightarrow> before H later \<Longrightarrow>
      \<exists>m r e. key_step now later (name # k # args) (alive now (M k)) = (r, e) \<and> arrives r m \<and> check m = Inr True
        \<and> passes H later (M(k := e)) (cs @ journal (name # k # args) r) steps Q"
  shows "passes H t M cs (Request (words (name # k # args)) check # steps) Q"
  by (rule passes_parts [OF ws tame_argv [OF ws(1)] assms(4)])

lemma passes_set:
  assumes "tame k" and "tame v" and "\<And>t'. t \<le> t' \<Longrightarrow> before H t' \<Longrightarrow>
    passes H t' (M(k \<mapsto> KeyEntry STRING (VStr v) None)) (cs @ [[''SET'', k, v]]) steps Q"
  shows "passes H t M cs (Request (words [''SET'', k, v]) (equals (PStr (lit ''OK''))) # steps) Q"
  by (rule passes_tame) (use assms arrives_words(1) in \<open>auto simp: tame_names step_simps set_spec_def\<close>)

lemma passes_set_ex:
  assumes "tame k" and "tame v" and "tame n" and n: "py_int n = Some secs" "0 < secs"
    and "\<And>now t'. t \<le> now \<Longrightarrow> now \<le> t' \<Longrightarrow> before H now \<Longrightarrow> before H t' \<Longrightarrow>
      passes H t' (M(k \<mapsto> KeyEntry STRING (VStr v) (Some (now + secs * 1000)))) (cs @ [[''SET'', k, v, ''EX'', n]]) steps Q"
  shows "passes H t M cs (Request (words [''SET'', k, v, ''EX'', n]) (equals (PStr (lit ''OK''))) # steps) Q"
proof -
  have "py_upper ''EX'' = ''EX''" by code_simp
  with n have "set_options [''EX'', n] None = Inr (Some secs)" by simp
  then show ?thesis
    using assms arrives_words(1) by (intro passes_tame) (auto simp: tame_names step_simps set_spec_def)
qed

text \<open>What the script expects of an integer and of a bulk reply.\<close>

definition good_int :: "(pyobj \<Rightarrow> bool res) \<Rightarrow> nat res \<Rightarrow> bool" where
  "good_int check r = (case r of Inl _ \<Rightarrow> False | Inr n \<Rightarrow> n < 1000 \<and> check (PInt (int n)) = Inr True)"

definition good_bulk :: "(pyobj \<Rightarrow> bool res) \<Rightarrow> bytes option res \<Rightarrow> bool" where
  "good_bulk check r =
     (case r of
        Inl _ \<Rightarrow> False
      | Inr None \<Rightarrow> check PNone = Inr True
      | Inr (Some b) \<Rightarrow> length b \<le> 1000 \<and> check (PBytes b) = Inr True)"

lemma good_arrives:
  "good_int check r \<Longrightarrow> \<exists>n. r = Inr n \<and> arrives (Inr (PInt (int n))) (PInt (int n)) \<and> check (PInt (int n)) = Inr True"
  "good_bulk check r2 \<Longrightarrow> \<exists>b. r2 = Inr b \<and> arrives (Inr (bulk_or_nil b)) (bulk_or_nil b) \<and> check (bulk_or_nil b) = Inr True"
  using arrives_int arrives_none arrives_bytes
  by (auto simp: good_int_def good_bulk_def bulk_or_nil_def split: sum.splits option.splits)

lemma passes_get:
  assumes "tame k" and "lasting H (M k)" and g: "good_bulk check (fst (get_spec (M k)))"
    and "\<And>t'. t \<le> t' \<Longrightarrow> before H t' \<Longrightarrow> passes H t' M cs steps Q"
  shows "passes H t M cs (Request (words [''GET'', k]) check # steps) Q"
proof -
  have "M(k := snd (get_spec (M k))) = M" by (auto simp: get_spec_def split: option.splits redis_value.splits)
  then show ?thesis
    using assms good_arrives(2) [OF g] by (intro passes_tame) (auto simp: tame_names step_simps lasting_def)
qed

lemma passes_get_gone:
  assumes "tame k" and "\<And>now. t \<le> now \<Longrightarrow> alive now (M k) = None" and "check PNone = Inr True"
    and "\<And>t'. t \<le> t' \<Longrightarrow> before H t' \<Longrightarrow> passes H t' (M(k := None)) cs steps Q"
  shows "passes H t M cs (Request (words [''GET'', k]) check # steps) Q"
  using assms arrives_none by (intro passes_tame) (auto simp: tame_names step_simps get_spec_def)

lemma passes_get_refused:
  assumes "tame k" and "lasting H (M k)" and "get_spec (M k) = (Inl WrongTypeError, M k)"
    and "\<And>t'. t \<le> t' \<Longrightarrow> before H t' \<Longrightarrow> passes H t' M cs steps Q"
  shows "passes H t M cs (Request (words [''GET'', k]) (error_with (lit ''WRONGTYPE'')) # steps) Q"
proof -
  let ?msg = "''WRONGTYPE Operation against a key holding the wrong kind of value''"
  have "arrives (Inl (RespError (lit ?msg))) (PErrorMsg (lit ?msg))" by (rule arrives_error; code_simp)
  then have "arrives (Inl wrongtype) (PErrorMsg (lit ?msg))" by (simp add: wrongtype_def resp_error_def)
  moreover have "error_with (lit ''WRONGTYPE'') (PErrorMsg (lit ?msg)) = Inr True" by code_simp
  ultimately show ?thesis
    using assms by (intro passes_tame) (auto simp: tame_names step_simps lasting_def)
qed

lemma passes_expire:
  assumes "tame k" and "lasting H (M k)" and "M k \<noteq> None"
    and "\<And>t'. t \<le> t' \<Longrightarrow> before H t' \<Longrightarrow>
      passes H t' (M(k := snd (expire_spec 1 t' (M k)))) (cs @ [[''EXPIRE'', k, ''1'']]) steps Q"
  shows "passes H t M cs (Request (words [''EXPIRE'', k] @ [IntPart 1]) (equals (PInt 1)) # steps) Q"
proof -
  have one: "part_bytes (IntPart 1) = Inr ''1''" "py_int ''1'' = Some 1" "tame ''1''" by code_simp+
  then have argv: "client_argv (words [''EXPIRE'', k] @ [IntPart 1]) = Inr [''EXPIRE'', k, ''1'']"
    using assms(1) tame_argv [of "[''EXPIRE'', k]"] by (simp add: tame_names client_argv_def words_def bind_res_Inr_iff)
  then show ?thesis
    using assms one arrives_int [of 1]
    by (intro passes_parts [of "''EXPIRE''" k "[''1'']"]) (auto simp: tame_names step_simps expire_spec_def lasting_def)
qed

lemma passes_lpush:
  assumes "list_all tame (k # els)" and "els \<noteq> []" "length els \<le> 3" and "lasting H (M k)"
    and g: "good_int check (fst (lpush_spec els (M k)))"
    and "\<And>t'. t \<le> t' \<Longrightarrow> before H t' \<Longrightarrow>
      passes H t' (M(k := snd (lpush_spec els (M k)))) (cs @ [''LPUSH'' # k # els]) steps Q"
  shows "passes H t M cs (Request (words (''LPUSH'' # k # els)) check # steps) Q"
  using assms good_arrives(1) [OF g]
  by (intro passes_tame) (auto simp: tame_names step_simps lasting_def Suc_le_eq)

lemma passes_rpop:
  assumes "tame k" and "lasting H (M k)" and g: "good_bulk check (fst (rpop_spec (M k)))"
    and "\<And>t'. t \<le> t' \<Longrightarrow> before H t' \<Longrightarrow> passes H t' (M(k := snd (rpop_spec (M k)))) (cs @ [[''RPOP'', k]]) steps Q"
  shows "passes H t M cs (Request (words [''RPOP'', k]) check # steps) Q"
  using assms good_arrives(2) [OF g] by (intro passes_tame) (auto simp: tame_names step_simps lasting_def)

lemma passes_hset:
  assumes "list_all tame [k, f, v]" and "lasting H (M k)" and g: "good_int check (fst (hset_spec [(f, v)] (M k)))"
    and "\<And>t'. t \<le> t' \<Longrightarrow> before H t' \<Longrightarrow>
      passes H t' (M(k := snd (hset_spec [(f, v)] (M k)))) (cs @ [[''HSET'', k, f, v]]) steps Q"
  shows "passes H t M cs (Request (words [''HSET'', k, f, v]) check # steps) Q"
  using assms good_arrives(1) [OF g] by (intro passes_tame) (auto simp: tame_names step_simps lasting_def)

lemma passes_hgetall:
  assumes "list_all tame [k, f, v]" and "lasting H (M k)" and "hgetall_spec (M k) = (Inr [f, v], M k)"
    and "\<And>t'. t \<le> t' \<Longrightarrow> before H t' \<Longrightarrow> passes H t' M cs steps Q"
  shows "passes H t M cs (Request (words [''HGETALL'', k]) (maps_to [(PBytes f, PBytes v)]) # steps) Q"
proof -
  have "arrives (Inr (PList [PBytes f, PBytes v])) (PList [PBytes f, PBytes v])"
    using assms(1) by (intro arrives_pair) (simp_all add: tame_def)
  moreover have "maps_to [(PBytes f, PBytes v)] (PList [PBytes f, PBytes v]) = Inr True"
    by (simp add: maps_to_def pair_mapping_def dict_set_def)
  ultimately show ?thesis
    using assms by (intro passes_tame) (auto simp: tame_names step_simps lasting_def)
qed

lemma passes_ping: "passes H t M cs steps Q \<Longrightarrow> passes H t M cs (Request (words [''PING'']) (equals (PStr (lit ''PONG''))) # steps) Q"
proof -
  have "is_ascii ''PING''" by code_simp
  then have "client_argv (words [''PING'']) = Inr [''PING'']" by (simp add: word_argv)
  then show "passes H t M cs steps Q \<Longrightarrow> passes H t M cs (Request (words [''PING'']) (equals (PStr (lit ''PONG''))) # steps) Q"
    by (simp add: passes.simps(2) equals_def)
qed

lemma tame_arguments:
  "tame ''foo''" "tame ''bar''" "tame ''exk''" "tame ''v''" "tame ''1''" "tame ''ek''" "tame ''mylist''" "tame ''a''" "tame ''b''"
  "tame ''hk''" "tame ''f1''" "tame ''v1''" "tame ''v2''" "tame ''wt''" "tame ''z''" "tame ''str''" "tame ''hello''" "tame ''lst''"
  "tame ''hs''" "tame ''f''" "tame ''ttlkey''" "tame ''t''" "tame ''3600''" "tame ''L''" "tame ''x''" "tame ''H''"
  by (unfold tame_def; code_simp)+

lemma script_numbers: "py_int ''1'' = Some 1" "py_int ''3600'' = Some 3600"
  by code_simp+

lemmas eval_simps = tame_arguments script_numbers good_int_def good_bulk_def equals_def any_reply_def get_spec_def lpush_spec_def
  rpop_spec_def hset_spec_def hgetall_spec_def expire_spec_def dict_set_def dict_keys_def flatten_pairs_def

section \<open>The commands section\<close>

lemma commands_pass:
  assumes "M ''mylist'' = None" and "M ''hk'' = None" and "M ''wt'' = None"
  shows "passes None t M cs section_commands (\<lambda>t M cs. True)"
  unfolding section_commands_def
  apply (rule passes_ping, simp)
  apply (rule passes_set, (simp add: eval_simps)+)
  apply (rule passes_get, (simp add: eval_simps)+)
  apply (rule passes_set_ex, (simp add: eval_simps)+)
  apply (clarify, rule passes_get_gone, (simp add: eval_simps)+)
  apply (rule passes_set, (simp add: eval_simps)+)
  apply (rule passes_expire, (simp add: eval_simps)+)
  apply (clarify, rule passes_get_gone, (simp add: eval_simps)+)
  apply (rule passes_lpush, (simp add: eval_simps assms)+)
  apply (rule passes_lpush, (simp add: eval_simps)+)
  apply (rule passes_rpop, (simp add: eval_simps)+)
  apply (rule passes_rpop, (simp add: eval_simps)+)
  apply (rule passes_rpop, (simp add: eval_simps)+)
  apply (rule passes_hset, (simp add: eval_simps assms)+)
  apply (rule passes_hset, (simp add: eval_simps)+)
  apply (rule passes_hgetall, (simp add: eval_simps)+)
  apply (rule passes_lpush, (simp add: eval_simps assms)+)
  apply (rule passes_get_refused, (simp add: eval_simps)+)
  done

end
