(* ===== verification/Scenario_Sections.thy ===== *)
theory Scenario_Sections
  imports Scenario_Correct
begin

text \<open>
  The sections of the end-to-end script, from the start of their servers on: the commands, the crash
  after \<open>SAVE\<close>, and the crash with the log.
\<close>

section \<open>The servers of the script\<close>

text \<open>An environment in which nothing fails: the disk works, no password is set, and a connection is made in time.\<close>

definition able :: "process_env \<Rightarrow> bool" where
  "able env \<longleftrightarrow>
     env_ok (proc_start env) \<and> mono (proc_clock env) \<and> 0 \<le> proc_clock env 0 \<and> proc_password env = None \<and> proc_master_password env \<noteq> Some []
     \<and> (\<exists>i<50. proc_refuses env i = None) \<and> (\<forall>i. proc_disk env i = Inr ()) \<and> (\<forall>i. proc_writes env i = Inr None)
     \<and> (\<forall>i. \<exists>t. proc_fsyncs env i = Inr t)"

definition script_config :: "process_env \<Rightarrow> int \<Rightarrow> pystr \<Rightarrow> (args \<Rightarrow> args) \<Rightarrow> config" where
  "script_config env port dir extra = config_of_args (proc_resolve env) (script_args env port dir extra)"

definition port_ok :: "int \<Rightarrow> bool" where
  "port_ok port \<longleftrightarrow> 1 \<le> port \<and> port \<le> 65535"

lemmas script_defs = script_config_def script_args_def config_of_args_def default_args_def no_aof_def aof_always_def

lemma script_config_parsed:
  assumes "able env" and "port_ok port" and "extra = no_aof \<or> extra = aof_always"
  shows "config_from_args (proc_resolve env) (script_args env port dir extra) = Inr (script_config env port dir extra)"
proof -
  have "run_checks (arg_checks (script_args env port dir extra)) = Inr ()"
    using assms
    by (elim disjE; simp add: arg_checks_def script_args_def default_args_def no_aof_def aof_always_def able_def port_ok_def)
  then show ?thesis by (simp add: config_from_args_def script_config_def)
qed

lemma script_config_simps:
  assumes "extra = no_aof \<or> extra = aof_always"
  shows "cfg_requirepass (script_config env port dir extra) = proc_password env"
    "cfg_persistence_max_load_bytes (script_config env port dir extra) = 1073741824"
    "cfg_proto_max_bulk_len (script_config env port dir extra) = 16777216"
    "cfg_max_clients (script_config env port dir extra) = 1000"
    "\<not> is_replica (script_config env port dir extra)"
    "cfg_maxmemory_bytes (script_config env port dir extra) = 0"
    "limits_ok (client_parser (script_config env port dir extra))"
    "5 \<le> max_array_len (client_parser (script_config env port dir extra))"
  using assms by (auto simp: script_defs is_replica_def limits_ok_def client_parser_def RespParser_def)

lemma script_config_aof:
  "\<not> cfg_aof_enabled (script_config env port dir no_aof)" "cfg_aof_enabled (script_config env port dir aof_always)"
  by (simp_all add: script_defs)

lemma script_config_valid:
  assumes "extra = no_aof \<or> extra = aof_always"
  shows "validate_network_security mapped (script_config env port dir extra) = Inr ()"
proof -
  have "lit ''127.0.0.1'' = quad 127 0 0 1" by code_simp
  then show ?thesis
    using quad_loopback [of 127 0 0 1 mapped] default_names_plain assms
    by (auto simp: validate_network_security_def script_defs)
qed

section \<open>Start and connection\<close>

lemma connect_loop_ok:
  assumes "\<exists>i\<in>set is. refuses i = None"
  shows "connect_loop (\<lambda>i. case refuses i of Some m \<Rightarrow> Inl m | None \<Rightarrow> Inr c) is err = Inr c"
  using assms by (induction "is" arbitrary: err) (auto split: option.splits)

lemma opened_accepts:
  assumes "able env"
  shows "log_accepts (start_background_fsync (aof_open (AOFLog pol on f (proc_writes env) (proc_fsyncs env))))"
proof (cases on)
  case True
  then have "log_ready (start_background_fsync (aof_open (AOFLog pol on f (proc_writes env) (proc_fsyncs env))))"
    by (intro opened_log_ready) (simp add: AOFLog_def)
  with assms show ?thesis
    by (simp add: log_accepts_def disk_ok_def able_def) (simp add: start_background_fsync_def aof_open_def AOFLog_def)
qed (simp add: log_accepts_def start_background_fsync_def aof_open_def AOFLog_def)

text \<open>What a process has loaded is what its first client finds.\<close>

lemma script_connects:
  fixes env port dir extra files
  defines "cfg \<equiv> script_config env port dir extra"
  defines "s0 \<equiv> stamped (process_server env files cfg)"
  assumes env: "able env" "port_ok port" and extra: "extra = no_aof \<or> extra = aof_always"
    and load: "load_persistence s0 = (Inr (), s0\<lparr>db := d\<rparr>)" and d: "represents d M" "t \<le> reading d" "\<forall>i. before H (clock d i)"
    and cs: "cfg_aof_enabled cfg \<longrightarrow> appendonly_file files = concat (map encode_command cs)"
  shows "\<exists>c. client_connect (attempt env (start_server env port dir extra files)) = Inr c \<and> at_rest (cfg_aof_enabled cfg) H (client_parser cfg) t M cs c"
proof -
  let ?s = "process_server env files cfg"
  let ?n = "(fold create_task (start_tasks cfg) ((new_node ?s)\<lparr>listening := True\<rparr>))
    \<lparr>srv := s0\<lparr>db := d, aof := start_background_fsync (aof_open (aof s0)), started := True\<rparr>\<rparr>"
  have c: "config ?s = cfg" "\<not> started ?s" "aof s0 = AOFLog (cfg_aof_fsync cfg) (cfg_aof_enabled cfg) (appendonly_file files) (proc_writes env) (proc_fsyncs env)"
    "config s0 = cfg" "client_count s0 = 0" "disk_result s0 = proc_disk env"
    by (simp_all add: s0_def process_server_def RedisServer_def) (simp_all add: stamped_def server_now_def on_db_simps)
  have "load_persistence (stamped (srv (new_node ?s))) = (Inr (), s0\<lparr>db := d\<rparr>)"
    using load by (simp add: new_node_def s0_def)
  moreover have "validate_network_security (ip_mapped (proc_start env)) cfg = Inr ()" "\<not> is_replica cfg" "env_ok (proc_start env)"
    using script_config_valid [OF extra] script_config_simps(5) [OF extra] env(1) by (simp_all add: cfg_def able_def)
  ultimately have "start (proc_start env) (new_node ?s) = (Inr (), ?n)"
    using start_ok [of "new_node ?s" "proc_start env" "s0\<lparr>db := d\<rparr>"] c(1,2,4) by (simp add: new_node_def)
  with script_config_parsed [OF env extra] have n: "start_server env port dir extra files = Some ?n"
    by (simp add: start_server_def cfg_def)
  obtain s1 where s1: "accept_client (srv ?n) = (Inr (Suc (conn_seq s0)), s1)" "db s1 = d" "config s1 = cfg"
    "aof s1 = start_background_fsync (aof_open (aof s0))" "disk_result s1 = proc_disk env"
    using c script_config_simps(4) [OF extra] by (simp add: accept_client_def cfg_def)
  let ?c = "open_connection (accepted (Suc (conn_seq s0)) s1)"
  have "attempt env (Some ?n) = (\<lambda>i. case proc_refuses env i of Some m \<Rightarrow> Inl m | None \<Rightarrow> Inr ?c)"
    using s1(1) by (auto simp: attempt_def fun_eq_iff split: option.split)
  moreover have "\<exists>i\<in>set [0..<50]. proc_refuses env i = None" using env(1) by (auto simp: able_def)
  ultimately have "client_connect (attempt env (start_server env port dir extra files)) = Inr ?c"
    unfolding client_connect_def n by (simp only: connect_loop_ok)
  moreover have "at_rest (cfg_aof_enabled cfg) H (client_parser cfg) t M cs ?c"
  proof -
    have "running s1 M"
      using d(1) s1 opened_accepts [OF env(1)] script_config_simps(5) [OF extra] by (simp add: running_def c cfg_def)
    moreover have "log_of (cfg_aof_enabled cfg) (aof s1) cs"
      using cs by (simp add: log_of_def s1 c) (simp add: start_background_fsync_def aof_open_def AOFLog_def)
    moreover have "cfg_requirepass cfg = None" using env(1) script_config_simps(1) [OF extra] by (simp add: able_def cfg_def)
    ultimately show ?thesis
      using accepted_idle [of s1 "Suc (conn_seq s0)"] script_config_simps(7,8) [OF extra] d(2,3) s1 env(1)
      by (simp add: at_rest_def open_connection_def accepted_def cfg_def able_def)
  qed
  ultimately show ?thesis by blast
qed

lemma session_passes:
  assumes w: "waiting pause" and net: "cuts cut_in" "cuts cut_out"
    and c: "client_connect (attempt env proc) = Inr c" "at_rest on H p t M cs c" and steps: "passes H t M cs steps Q"
  shows "\<exists>c' t' M' cs'. session (cut_in, cut_out) pause env proc steps = Inr (evidence_of steps, side_server (peer_state c'))
    \<and> at_rest on H p t' M' cs' c' \<and> Q t' M' cs'"
proof -
  from waiting.script_passes [OF w net c(2) steps, of "[]"] obtain c' t' M' cs' where
    "run_steps (server_peer cut_in cut_out) (on_side pause) steps [] c = (Inr (evidence_of steps), c')"
    "at_rest on H p t' M' cs' c'" "Q t' M' cs'" by auto
  with c(1) show ?thesis
    by (intro exI [of _ c'] exI [of _ t'] exI [of _ M'] exI [of _ cs']) (simp add: session_def)
qed

definition empty_dir :: data_dir where
  "empty_dir = \<lparr>dump_rdb_file = None, appendonly_file = []\<rparr>"

lemma process_fresh:
  fixes env port dir extra files
  assumes "able env" and extra: "extra = no_aof \<or> extra = aof_always"
  defines "s \<equiv> stamped (process_server env files (script_config env port dir extra))"
  shows "fresh (db s)" "clock (db s) = proc_clock env" "proc_clock env 0 \<le> reading (db s)"
    "rdb_file s = dump_rdb_file files" "aof_file (aof s) = appendonly_file files" "config s = script_config env port dir extra"
proof -
  let ?s = "process_server env files (script_config env port dir extra)"
  have "fresh (db ?s)"
    using assms(1) script_config_simps(6) [OF extra]
    by (simp add: process_server_def RedisServer_def fresh_def new_store_inv able_def) (simp add: new_store_def)
  then show "fresh (db s)" unfolding s_def by (rule fresh_stamped)
  have "mono (proc_clock env)" using assms(1) by (simp add: able_def)
  then show "clock (db s) = proc_clock env" "proc_clock env 0 \<le> reading (db s)"
    by (simp_all add: s_def process_server_def RedisServer_def new_store_def reading_def monoD)
  show "rdb_file s = dump_rdb_file files" "aof_file (aof s) = appendonly_file files" "config s = script_config env port dir extra"
    by (simp_all add: s_def process_server_def RedisServer_def AOFLog_def)
qed

lemma first_connection:
  assumes env: "able env" "port_ok port" and extra: "extra = no_aof \<or> extra = aof_always"
    and H: "\<forall>i. before H (proc_clock env i)"
  shows "\<exists>c. client_connect (attempt env (start_server env port dir extra empty_dir)) = Inr c
    \<and> at_rest (cfg_aof_enabled (script_config env port dir extra)) H (client_parser (script_config env port dir extra)) (proc_clock env 0) (\<lambda>k. None) [] c"
proof -
  let ?s = "stamped (process_server env empty_dir (script_config env port dir extra))"
  note f = process_fresh [OF env(1) extra, of empty_dir port dir]
  have "load_persistence ?s = (Inr (), ?s)" using f(4,5) by (intro load_nothing) (simp_all add: empty_dir_def)
  then have "load_persistence ?s = (Inr (), ?s\<lparr>db := db ?s\<rparr>)" by simp
  moreover have "represents (db ?s) (\<lambda>k. None)" using f(1) by (intro holds_represents fresh_holds)
  moreover have "\<forall>i. before H (clock (db ?s) i)" unfolding f(2) by (rule H)
  ultimately show ?thesis
    using f(3) by (intro script_connects [OF env extra]) (simp_all add: empty_dir_def del: stamped_simps)
qed

section \<open>The crash after a save\<close>

lemma run_steps_append:
  "run_steps peer pause (xs @ ys) ev c =
     (case run_steps peer pause xs ev c of (Inl e, c1) \<Rightarrow> (Inl e, c1) | (Inr ev1, c1) \<Rightarrow> run_steps peer pause ys ev1 c1)"
  by (induction peer pause xs ev c rule: run_steps.induct) (auto split: prod.splits sum.splits)

lemma request_save:
  assumes net: "cuts cut_in" "cuts cut_out" and c: "at_rest on H p t M cs c" and t: "0 \<le> t"
    and sav: "savable (reading (db (side_server (peer_state c)))) M"
  shows "\<exists>c'. client_execute (server_peer cut_in cut_out) (words [''SAVE'']) c = (Inr (PStr (lit ''OK'')), c') \<and> at_rest on H p t M cs c'
    \<and> (\<exists>saved\<le>reading (db (side_server (peer_state c'))). holds_map saved (rdb_file (side_server (peer_state c'))) M)
    \<and> (\<exists>b d'. dump_rdb_bytes (db (side_server (peer_state c))) = (Inr b, d') \<and> rdb_file (side_server (peer_state c')) = Some b)"
proof -
  let ?s = "side_server (peer_state c)" and ?conn = "side_conn (peer_state c)"
  have s: "running ?s M" "cfg_requirepass (config ?s) = None" "t \<le> reading (db ?s)" "log_of on (aof ?s) cs" "\<forall>i. disk_result ?s i = Inr ()"
    "\<forall>i. before H (clock (db ?s) i)"
    using c by (simp_all add: at_rest_def Let_def)
  have same: "config (processed ?s) = config ?s" "db (processed ?s) = db ?s" "aof (processed ?s) = aof ?s"
    "disk_result (processed ?s) = disk_result ?s" by (simp_all add: processed_def)
  have use: "may_use ?conn (processed ?s)" using s(2) same by (simp add: may_use_def)
  note run = processed_running [OF s(1)]
  obtain s' where ex: "execute ?conn [''SAVE''] (processed ?s) = (Inr (Some (''+OK'' @ crlf)), s')"
    using save_answered [OF run use] sav s(5) same by auto
  have "0 \<le> reading (db (processed ?s))" using t s(3) same by simp
  note saved = save_executed [OF run use this ex, unfolded same]
  have small: "client_argv (words [''SAVE'']) = Inr [''SAVE'']" "small [''SAVE'']"
  proof -
    have "is_ascii ''SAVE''" by code_simp
    then show "client_argv (words [''SAVE'']) = Inr [''SAVE'']" by (simp add: word_argv)
  qed (simp add: small_def)
  have name: "upper_name [''SAVE''] = ''SAVE''" by code_simp
  have "execute ?conn [''SAVE''] (processed ?s) = (reply_of (Inr (simple ''OK'')), s')" using ex by (simp add: reply_of_def ok_reply)
  from executed_exchange [OF net c small _ this arrives_words(1)] name obtain c' where
    c': "client_execute (server_peer cut_in cut_out) (words [''SAVE'']) c = (Inr (PStr (lit ''OK'')), c')" "idle p c'"
      "side_server (peer_state c') = s'" by auto
  have "clock (db s') = clock (db ?s)"
    using execute_inner_clock [of "processed ?s" "client_context ?conn [''SAVE'']"] ex same(2) by (simp add: execute_def clock_step_def)
  then have "at_rest on H p t M cs c'"
    using c c'(2,3) s saved by (simp add: at_rest_def)
  with c'(1,3) saved(2,3) show ?thesis by auto
qed

text \<open>The state the section saves, and what the disk holds of it.\<close>

definition saved_map :: "int \<Rightarrow> kv" where
  "saved_map now =
     [''str'' \<mapsto> KeyEntry STRING (VStr ''hello'') None, ''lst'' \<mapsto> KeyEntry LIST (VList [''b'', ''a'']) None,
      ''hs'' \<mapsto> KeyEntry HASH (VHash [(''f'', ''v'')]) None,
      ''ttlkey'' \<mapsto> KeyEntry STRING (VStr ''t'') (Some (now + 3600000))]"

lemma rdb_before_passes:
  "passes H t (\<lambda>k. None) cs (butlast rdb_before) (\<lambda>t' M cs. \<exists>now. M = saved_map now \<and> t \<le> now \<and> now \<le> t' \<and> before H now)"
  unfolding rdb_before_def
  apply (simp, rule passes_set, (simp add: eval_simps)+)
  apply (rule passes_lpush, (simp add: eval_simps)+)
  apply (rule passes_hset, (simp add: eval_simps)+)
  apply (rule passes_set_ex, (simp add: eval_simps)+)
  apply (intro exI conjI, unfold saved_map_def, rule refl, simp_all)
  done

lemma rdb_after_passes:
  assumes "h \<le> now + 3600000"
  shows "passes (Some h) t (saved_map now) cs rdb_after (\<lambda>t M cs. True)"
  unfolding rdb_after_def saved_map_def
  apply (rule passes_get, (simp add: eval_simps)+)
  apply (rule passes_rpop, (simp add: eval_simps)+)
  apply (rule passes_hgetall, (simp add: eval_simps)+)
  apply (rule passes_get, (use assms in \<open>simp add: eval_simps\<close>)+)
  done

lemma saved_alive: "alive_keys n (saved_map now) \<subseteq> {''str'', ''lst'', ''hs'', ''ttlkey''}"
  by (auto simp: alive_keys_def saved_map_def split: if_splits)

lemma saved_card: "card (alive_keys n (saved_map now)) \<le> 4"
  using card_mono [OF _ saved_alive [of n now]] by simp

lemma saved_savable:
  assumes "0 \<le> now" and "now < 2 ^ 62"
  shows "savable n (saved_map now)"
proof -
  have "card (alive_keys n (saved_map now)) < 2 ^ 32" using saved_card by (rule le_less_trans) simp
  moreover have "representable (k, e)" if "alive n (saved_map now k) = Some e" for k e
    using that assms
    by (auto simp: saved_map_def alive_def is_expired_def representable_def short_def split: if_splits)
  ultimately show ?thesis by (simp add: savable_def)
qed

lemma saved_size:
  assumes "represents d (saved_map now)" and "dump_rdb_bytes d = (Inr b, d')"
  shows "length b \<le> 1000"
proof -
  have bound: "length r \<le> 100" if "alive (reading d) (saved_map now k) = Some e" "dump_record (k, e) = Inr r" for k e r
    using that
    by (auto simp: saved_map_def alive_def dump_record_def dump_value_def pack_seq_def pack_pair_def pack_bytes_def pack_u32_def
        pack_i64_def bind_res_Inr_iff split: if_splits)
  have "length b \<le> 24 + 100 * card (alive_keys (reading d) (saved_map now))"
    by (rule dump_size [OF assms]) (rule bound)
  with saved_card [of "reading d" now] show ?thesis by simp
qed

lemma rdb_first_half:
  assumes w: "waiting pause" and net: "cuts cut_in" "cuts cut_out" and env: "able env" "port_ok port"
    and h: "\<forall>i. proc_clock env i < h" "h \<le> 2 ^ 62"
  shows "\<exists>s now saved b. session (cut_in, cut_out) pause env (start_server env port dir no_aof empty_dir) rdb_before = Inr ([], s)
    \<and> proc_clock env 0 \<le> now \<and> holds_map saved (rdb_file s) (saved_map now) \<and> saved < h \<and> rdb_file s = Some b \<and> length b \<le> 1000"
proof -
  let ?peer = "server_peer cut_in cut_out" and ?save = "Request (words [''SAVE'']) (equals (PStr (lit ''OK'')))"
  let ?steps = "butlast rdb_before" and ?t = "proc_clock env 0" and ?p = "client_parser (script_config env port dir no_aof)"
  have H: "\<forall>i. before (Some h) (proc_clock env i)" using h(1) by (simp add: before_def)
  obtain c where c: "client_connect (attempt env (start_server env port dir no_aof empty_dir)) = Inr c"
    "at_rest False (Some h) ?p ?t (\<lambda>k. None) [] c"
    using first_connection [OF env _ H, of no_aof dir] script_config_aof(1) by auto
  obtain c1 t1 now cs1 where c1: "run_steps ?peer (on_side pause) ?steps [] c = (Inr [], c1)" "at_rest False (Some h) ?p t1 (saved_map now) cs1 c1"
    and now: "?t \<le> now" "now \<le> t1" "now < h"
    using waiting.script_passes [OF w net c(2) rdb_before_passes, of "[]"] by (auto simp: rdb_before_def before_def)
  have pos: "0 \<le> now" "0 \<le> t1" using env(1) now by (auto simp: able_def)
  let ?s = "side_server (peer_state c1)"
  have "savable (reading (db ?s)) (saved_map now)" using pos(1) now(3) h(2) by (intro saved_savable) simp_all
  from request_save [OF net c1(2) pos(2) this] obtain c2 saved b d' where
    c2: "client_execute ?peer (words [''SAVE'']) c1 = (Inr (PStr (lit ''OK'')), c2)" "at_rest False (Some h) ?p t1 (saved_map now) cs1 c2"
    and saved: "saved \<le> reading (db (side_server (peer_state c2)))" "holds_map saved (rdb_file (side_server (peer_state c2))) (saved_map now)"
    and b: "dump_rdb_bytes (db ?s) = (Inr b, d')" "rdb_file (side_server (peer_state c2)) = Some b" by blast
  have split: "rdb_before = ?steps @ [?save]" by (simp add: rdb_before_def)
  have "run_steps ?peer (on_side pause) rdb_before [] c = (Inr [], c2)"
    by (subst split, subst run_steps_append) (simp add: c1(1) c2(1) equals_def)
  then have "session (cut_in, cut_out) pause env (start_server env port dir no_aof empty_dir) rdb_before
      = Inr ([], side_server (peer_state c2))"
    using c(1) by (simp add: session_def)
  moreover have "saved < h" using saved(1) c2(2) by (auto simp: at_rest_def before_def reading_def Let_def intro: le_less_trans)
  moreover have "represents (db ?s) (saved_map now)" using c1(2) by (simp add: at_rest_def running_def Let_def)
  then have "length b \<le> 1000" using b(1) by (rule saved_size)
  ultimately show ?thesis using saved(2) b(2) now(1) by blast
qed

lemma rdb_section:
  assumes w: "waiting pause" and net: "cuts cut_in" "cuts cut_out" and env: "able env1" "able env2" "port_ok port"
    and order: "\<forall>i. proc_clock env1 i \<le> proc_clock env2 0" and within: "\<forall>i. proc_clock env2 i < proc_clock env1 0 + 3600000"
    and far: "proc_clock env2 0 < 2 ^ 62"
  shows "\<exists>size. section_rdb_crash (cut_in, cut_out) pause env1 env2 port dir empty_dir =
    Inr [lit ''SAVE ok; RDB size='' @ lit (dec_nat size),
         lit ''force-killed PID '' @ lit (dec_nat (proc_pid env1)) @ lit '' (taskkill /F)'',
         lit ''post-crash restart restored str/list/hash/ttlkey'']"
proof -
  let ?h = "proc_clock env2 0 + 1" and ?h2 = "proc_clock env1 0 + 3600000"
  have h: "\<forall>i. proc_clock env1 i < ?h" using order by (simp add: less_le_trans add1_zle_eq)
  have h2: "?h \<le> 2 ^ 62" using far by simp
  obtain s now saved b where
    s: "session (cut_in, cut_out) pause env1 (start_server env1 port dir no_aof empty_dir) rdb_before = Inr ([], s)"
    and now: "proc_clock env1 0 \<le> now" and saved: "holds_map saved (rdb_file s) (saved_map now)" "saved < ?h"
    and b: "rdb_file s = Some b" "length b \<le> 1000"
    using rdb_first_half [OF w net env(1,3) h h2, of dir] by blast
  let ?cfg = "script_config env2 port dir no_aof"
  let ?t = "stamped (process_server env2 (left_behind s) ?cfg)"
  have no: "no_aof = no_aof \<or> no_aof = aof_always" by simp
  note f = process_fresh [OF env(2) no, of "left_behind s" port dir]
  have file2: "rdb_file ?t = rdb_file s" using f(4) by (simp add: left_behind_def)
  have "saved \<le> reading (db ?t)" using saved(2) f(3) by simp
  moreover have "\<not> cfg_aof_enabled (config ?t)" unfolding f(6) by (rule script_config_aof)
  moreover have "\<forall>b. rdb_file ?t = Some b \<longrightarrow> int (length b) \<le> cfg_persistence_max_load_bytes (config ?t)"
    using b file2 f(6) script_config_simps(2) [OF no] by simp
  ultimately obtain d where d: "load_persistence ?t = (Inr (), ?t\<lparr>db := d\<rparr>)" "represents d (saved_map now)" "reading (db ?t) \<le> reading d"
    "clock d = clock (db ?t)"
    using load_map [OF _ f(1), of saved "saved_map now"] saved(1) unfolding file2 by blast
  have "\<forall>i. before (Some ?h2) (clock d i)" using within d(4) f(2) by (simp add: before_def)
  from script_connects [where cs = "[]", OF env(2,3) no d(1,2) order.refl this] obtain c where
    c: "client_connect (attempt env2 (start_server env2 port dir no_aof (left_behind s))) = Inr c"
      "at_rest False (Some ?h2) (client_parser ?cfg) (reading d) (saved_map now) [] c"
    using script_config_aof(1) by auto
  have "?h2 \<le> now + 3600000" using now by simp
  from session_passes [OF w net c rdb_after_passes [OF this]] obtain s2 where
    "session (cut_in, cut_out) pause env2 (start_server env2 port dir no_aof (left_behind s)) rdb_after = Inr (evidence_of rdb_after, s2)"
    by blast
  moreover have "b \<noteq> []" using saved(1) b(1) by (simp add: holds_map_def)
  ultimately show ?thesis using s b(1) by (auto simp: section_rdb_crash_def rdb_after_def)
qed

section \<open>The crash with the log\<close>

definition logged_map :: kv where
  "logged_map =
     [''a'' \<mapsto> KeyEntry STRING (VStr ''1'') None, ''L'' \<mapsto> KeyEntry LIST (VList [''x'']) None,
      ''H'' \<mapsto> KeyEntry HASH (VHash [(''f'', ''v'')]) None]"

definition logged_commands :: "bytes list list" where
  "logged_commands = [[''SET'', ''a'', ''1''], [''LPUSH'', ''L'', ''x''], [''HSET'', ''H'', ''f'', ''v'']]"

lemma aof_before_passes:
  "passes H t (\<lambda>k. None) [] aof_before (\<lambda>t M cs. M = logged_map \<and> cs = logged_commands)"
  unfolding aof_before_def
  apply (rule passes_set, (simp add: eval_simps)+)
  apply (rule passes_lpush, (simp add: eval_simps)+)
  apply (rule passes_hset, (simp add: eval_simps)+)
  apply (rule passes_get, (simp add: eval_simps)+)
  apply (simp add: logged_map_def logged_commands_def)
  done

lemma aof_after_passes: "passes H t logged_map cs aof_after (\<lambda>t M cs. True)"
  unfolding aof_after_def logged_map_def
  apply (rule passes_get, (simp add: eval_simps)+)
  apply (rule passes_rpop, (simp add: eval_simps)+)
  apply (rule passes_hgetall, (simp add: eval_simps)+)
  done

lemma logged_run: "kv_run (\<lambda>k. None) logged_commands logged_map"
proof -
  obtain b where int: "encode_value (PInt 1) = Inr b"
    using length_dec_nat_le [of 1 1] by (simp add: enc_simps encode_integer_def py_format_int_def int_max_str_digits_def)
  have "utf8_encode (lit ''OK'') = Inr ''OK''" by (rule utf8_encode_lit) code_simp
  then obtain b' where ok: "encode_value (simple ''OK'') = Inr b'"
    by (simp add: simple_def enc_simps encode_simple_string_def as_bytes_def cr_def lf_def)
  note defs = kv_command_def kv_write_def kv_call_def script_names eval_simps logged_map_def
  let ?M1 = "[''a'' \<mapsto> KeyEntry STRING (VStr ''1'') None]"
  let ?M2 = "?M1(''L'' \<mapsto> KeyEntry LIST (VList [''x'']) None)"
  have "kv_run ?M2 [[''HSET'', ''H'', ''f'', ''v'']] logged_map"
    by (rule run_step [OF _ _ int run_nil]) (simp_all add: defs)
  then have "kv_run ?M1 [[''LPUSH'', ''L'', ''x''], [''HSET'', ''H'', ''f'', ''v'']] logged_map"
    by (rule run_step [OF _ _ int, rotated -1]) (simp_all add: defs)
  then show ?thesis
    unfolding logged_commands_def by (rule run_step [OF _ _ ok, rotated -1]) (simp_all add: defs)
qed

lemma log_content:
  "contains ''SET'' (concat (map encode_command logged_commands))" "\<not> contains ''GET'' (concat (map encode_command logged_commands))"
  "length (concat (map encode_command logged_commands)) \<le> 1000" "concat (map encode_command logged_commands) \<noteq> []"
  by code_simp+

lemma aof_section:
  assumes w: "waiting pause" and net: "cuts cut_in" "cuts cut_out" and env: "able env1" "able env2" "port_ok port"
  shows "\<exists>size. section_aof (cut_in, cut_out) pause env1 env2 port dir empty_dir =
    Inr [lit ''AOF size='' @ lit (dec_nat size) @ lit ''; contains SET; no GET'',
         lit ''AOF replay restored a/L/H after restart (RDB removed)'']"
proof -
  have on: "aof_always = no_aof \<or> aof_always = aof_always" by simp
  have H: "\<forall>i. before None (f i)" for f :: "nat \<Rightarrow> int" by (simp add: before_def)
  let ?cfg = "script_config env2 port dir aof_always" and ?data = "concat (map encode_command logged_commands)"
  obtain c where c: "client_connect (attempt env1 (start_server env1 port dir aof_always empty_dir)) = Inr c"
    "at_rest True None (client_parser (script_config env1 port dir aof_always)) (proc_clock env1 0) (\<lambda>k. None) [] c"
    using first_connection [OF env(1,3) on H, of dir] script_config_aof(2) by auto
  from session_passes [OF w net c aof_before_passes] obtain c1 t1 where
    s: "session (cut_in, cut_out) pause env1 (start_server env1 port dir aof_always empty_dir) aof_before
        = Inr (evidence_of aof_before, side_server (peer_state c1))"
    and c1: "at_rest True None (client_parser (script_config env1 port dir aof_always)) t1 logged_map logged_commands c1" by blast
  let ?s = "side_server (peer_state c1)"
  have file1: "aof_file (aof ?s) = ?data" using c1 by (simp add: at_rest_def log_of_def Let_def)
  let ?files = "(left_behind ?s)\<lparr>dump_rdb_file := None\<rparr>"
  let ?t = "stamped (process_server env2 ?files ?cfg)"
  note f = process_fresh [OF env(2) on, of ?files port dir]
  have file2: "aof_file (aof ?t) = ?data" unfolding f(5) by (simp add: left_behind_def file1)
  have "\<forall>c\<in>set (logged_commands @ []). loadable 16777216 c"
    by (auto simp: logged_commands_def intro!: loadable_small)
  from recovered_prefix [OF logged_run, of ?data "length ?data" "[]" 1073741824 16777216 ?t, OF _ _ _ _ _ this f(1)] log_content(3)
  obtain d where d: "replay_aof apply_logged_command (Some ?data) 16777216 1073741824 ?t = (Inr (length logged_commands), ?t\<lparr>db := d\<rparr>)"
    "holds d logged_map" by auto
  have "load_persistence ?t = (Inr (), ?t\<lparr>db := d\<rparr>)"
    unfolding load_persistence_def Let_def f(6) file2 script_config_simps(2,3) [OF on] using d(1) log_content(4) script_config_aof(2) by simp
  from script_connects [where cs = logged_commands, OF env(2,3) on this holds_represents [OF d(2)] order.refl H] obtain c2 where
    c2: "client_connect (attempt env2 (start_server env2 port dir aof_always ?files)) = Inr c2"
      "at_rest True None (client_parser ?cfg) (reading d) logged_map logged_commands c2"
    using script_config_aof(2) file1 by (auto simp: left_behind_def)
  from session_passes [OF w net c2 aof_after_passes] obtain s2 where
    "session (cut_in, cut_out) pause env2 (start_server env2 port dir aof_always ?files) aof_after = Inr (evidence_of aof_after, s2)"
    by blast
  with s file1 log_content show ?thesis by (auto simp: section_aof_def aof_after_def)
qed

section \<open>The script\<close>

text \<open>A pause: the clock advances, and a round of active expiry takes place.\<close>

definition advance :: "int \<Rightarrow> store \<Rightarrow> store" where
  "advance ms d = d\<lparr>clock := (\<lambda>i. if ticks d \<le> i then clock d i + ms else clock d i)\<rparr>"

definition sleep_server :: "bytes list \<Rightarrow> int \<Rightarrow> server \<Rightarrow> server" where
  "sleep_server sample ms s = active_expire_round sample (s\<lparr>db := advance ms (db s)\<rparr>)"

lemma advance_represents:
  assumes "represents d M" and "0 \<le> ms"
  shows "represents (advance ms d) M" "reading (advance ms d) = reading d + ms"
proof -
  show r: "reading (advance ms d) = reading d + ms" by (simp add: advance_def reading_def)
  have "clock (advance ms d) i \<le> clock (advance ms d) j" if "i \<le> j" for i j
  proof -
    have "clock d i \<le> clock d j" using assms(1) that by (simp add: represents_def monoD)
    with that assms(2) show ?thesis by (auto simp: advance_def)
  qed
  then have "mono (clock (advance ms d))" by (simp add: mono_def)
  moreover have "store_inv (advance ms d)" using assms(1) by (auto simp: represents_def advance_def store_inv_def stamps_ok_def)
  moreover have "live m (advance ms d) = live m d" "maxmemory_bytes (advance ms d) = maxmemory_bytes d" for m
    by (simp_all add: advance_def live_def fun_eq_iff)
  ultimately show "represents (advance ms d) M" using assms r by (simp add: represents_def)
qed

lemma quiet_active_expiry: "quiet d (snd (active_expire_cycle n sample d))"
proof -
  have sampled: "clock_step d (snd (expire_sampled now ks d r))" for now ks d r
    by (induction now ks d r rule: expire_sampled.induct) (auto simp: clock_step_def split: option.splits)
  have "clock_step d (d\<lparr>ticks := Suc (ticks d)\<rparr>)" by (simp add: clock_step_def)
  from clock_step_trans [OF this sampled] have step: "clock_step d (snd (active_expire_cycle n sample d))"
    by (simp add: active_expire_cycle_def now_ms_def Let_def)
  moreover have "live m (snd (active_expire_cycle n sample d)) = live m d"
    if "mono (clock d)" "reading (snd (active_expire_cycle n sample d)) \<le> m" for m
    using that reading_mono [OF _ step] by (intro active_expiry_invisible) auto
  ultimately show ?thesis by (simp add: quiet_def cycle_inv)
qed

interpretation sleeping: waiting "sleep_server sample" for sample
proof
  fix ms :: int and s M assume ms: "0 \<le> ms" "running s M"
  then have "represents (db s) M" by (simp add: running_def)
  note a = advance_represents [OF this ms(1)]
  note q = represents_quiet [OF a(1) quiet_active_expiry [of _ 20 sample]]
  show "running (sleep_server sample ms s) M"
    using q(1) ms(2) by (simp add: running_def sleep_server_def active_expire_round_def)
  show "reading (db s) + ms \<le> reading (db (sleep_server sample ms s))"
    using q(2) a(2) by (simp add: sleep_server_def active_expire_round_def)
qed (simp_all add: sleep_server_def active_expire_round_def)

text \<open>C21: The end-to-end script passes: against servers of this development, however the network cuts the
  bytes, whatever happens in the background while the script sleeps, in environments where nothing
  fails, the section on the commands passes; the section that kills the server after \<open>SAVE\<close> finds all
  its keys after the restart, the one with a time to live included as long as less than an hour has
  passed; and the section that kills a server which logs finds the log to hold \<open>SET\<close> and not \<open>GET\<close>, and
  all its keys after the restart. Every section returns exactly its lines of evidence.\<close>

theorem e2e_script_passes:
  assumes "waiting pause" and "cuts cut_in" and "cuts cut_out" and "able env1" and "able env2" and "port_ok port"
    and "\<forall>i. proc_clock env1 i \<le> proc_clock env2 0" and "\<forall>i. proc_clock env2 i < proc_clock env1 0 + 3600000"
    and "proc_clock env2 0 < 2 ^ 62"
  shows "(\<exists>s. session (cut_in, cut_out) pause env1 (start_server env1 port dir no_aof empty_dir) section_commands
      = Inr (evidence_of section_commands, s))
    \<and> (\<exists>size. section_rdb_crash (cut_in, cut_out) pause env1 env2 port dir empty_dir =
      Inr [lit ''SAVE ok; RDB size='' @ lit (dec_nat size),
           lit ''force-killed PID '' @ lit (dec_nat (proc_pid env1)) @ lit '' (taskkill /F)'',
           lit ''post-crash restart restored str/list/hash/ttlkey''])
    \<and> (\<exists>size. section_aof (cut_in, cut_out) pause env1 env2 port dir empty_dir =
      Inr [lit ''AOF size='' @ lit (dec_nat size) @ lit ''; contains SET; no GET'',
           lit ''AOF replay restored a/L/H after restart (RDB removed)''])"
proof (intro conjI)
  have H: "\<forall>i. before None (proc_clock env1 i)" by (simp add: before_def)
  obtain c where c: "client_connect (attempt env1 (start_server env1 port dir no_aof empty_dir)) = Inr c"
    "at_rest False None (client_parser (script_config env1 port dir no_aof)) (proc_clock env1 0) (\<lambda>k. None) [] c"
    using first_connection [OF assms(4,6) _ H, of no_aof dir] script_config_aof(1) by auto
  show "\<exists>s. session (cut_in, cut_out) pause env1 (start_server env1 port dir no_aof empty_dir) section_commands
      = Inr (evidence_of section_commands, s)"
    using session_passes [OF assms(1-3) c commands_pass] by auto
qed (rule rdb_section [OF assms], rule aof_section [OF assms(1-6)])

definition sample_env :: "int \<Rightarrow> process_env" where
  "sample_env n =
     \<lparr>proc_start = good_env, proc_clock = (\<lambda>i. n), proc_pid = 7, proc_run_id = lit ''abc'', proc_writes = (\<lambda>i. Inr None),
      proc_fsyncs = (\<lambda>i. Inr 1), proc_disk = (\<lambda>i. Inr ()), proc_password = None, proc_master_password = None, proc_resolve = (\<lambda>p. p),
      proc_refuses = (\<lambda>i. if i < 3 then Some (lit ''refused'') else None)\<rparr>"

theorem e2e_script_passes_witness:
  "\<exists>size. section_rdb_crash (bytewise, bytewise) (sleep_server []) (sample_env 1000) (sample_env 2000) 6399 (lit ''x'') empty_dir =
     Inr [lit ''SAVE ok; RDB size='' @ lit (dec_nat size), lit ''force-killed PID '' @ lit (dec_nat 7) @ lit '' (taskkill /F)'',
          lit ''post-crash restart restored str/list/hash/ttlkey'']"
proof -
  have able: "able (sample_env n)" if "0 \<le> n" for n
    using that by (auto simp: able_def sample_env_def good_env_def env_ok_def mono_def intro!: exI [of _ "10::nat"])
  have "port_ok 6399" by (simp add: port_ok_def)
  from e2e_script_passes [OF sleeping.waiting_axioms bytewise_cuts bytewise_cuts able able this, of 1000 2000 "[]" "lit ''x''"]
  show ?thesis by (simp add: sample_env_def)
qed

end
