(* ===== verification/Spec2Isabelle.thy ===== *)
theory Spec2Isabelle
  imports Store_Correct Network_Bind Scenario_Sections
begin

text \<open>
  \<^bold>\<open>A verified model of BYO-Redis.\<close> The program, under \<open>src/byo_redis\<close>, is a single-process
  asyncio server for a subset of Redis: strings, lists and hashes with expiry, snapshots (RDB), an
  append-only log (AOF), and master/replica replication. This development models its Python code as
  executable HOL functions and proves what it promises.

  \<^bold>\<open>Parts of the program and the theories that model them.\<close>

  \<^item> \<open>Prelude\<close>, \<open>PyLib\<close>: what the source uses of the language: bytes as character lists, \<open>str\<close> as code
    points, dictionaries as association lists in insertion order (locale \<open>ordered_dict\<close>), exceptions
    as values, \<open>int(...)\<close>, \<open>str(int)\<close>, \<open>bytes.find\<close>, UTF-8 in both directions.
  \<^item> \<open>Resp_Encoder\<close>, \<open>Resp_Parser\<close>, \<open>Resp_Roundtrip\<close>: \<open>protocol/encoder.py\<close> and \<open>protocol/parser.py\<close>.
    \<open>feed\<close> is \<open>RespParser.feed\<close> with every limit and error. The locale \<open>stream_parser\<close> states what
    makes an incremental parser independent of packet boundaries; \<open>resp\<close> interprets it.
  \<^item> \<open>Store\<close>, \<open>Store_Inv\<close>, \<open>Store_Spec\<close>, \<open>Store_Evict\<close>, \<open>Store_Machine\<close>, \<open>Store_Correct\<close>:
    \<open>storage/types.py\<close>, \<open>storage/expiry.py\<close>, \<open>storage/store.py\<close>. The keyspace with lazy and active
    expiry, memory accounting and eviction; \<open>live\<close> is the abstract keyspace a client sees at a time,
    the locale \<open>key_op\<close> the contract by which an operation refines its specification on it, and
    \<open>snapshot_store\<close> the contract of snapshots.
  \<^item> \<open>Rdb\<close>, \<open>Rdb_Props\<close>, \<open>Rdb_Integrity\<close>, \<open>Rdb_Correct\<close>: \<open>persistence/rdb.py\<close>, the snapshot format with
    its CRC-32 (computed on 32-bit words); the locale \<open>codec\<close> is the contract of its field codecs.
    \<open>struct.unpack\<close> of a buffer of the wrong length and indexing past the end raise in the model too.
  \<^item> \<open>Config\<close>: \<open>config.py\<close>, the configuration, its defaults and its checks. \<open>Network\<close>: the converter of
    \<open>--replicaof\<close> and the checks of file names and bind address at start (\<open>parse_replicaof\<close>,
    \<open>validate_network_security\<close>), with what they use of \<open>int(str)\<close>, \<open>posixpath\<close> and \<open>ipaddress\<close>.
    \<open>Network_Bind\<close>: the textual forms of IPv4 and IPv6 addresses from their grammar, and that the
    parsers of \<open>Network\<close> accept exactly these.
  \<^item> \<open>Aof\<close>, \<open>Aof_Correct\<close>, \<open>Aof_Rewrite\<close>: \<open>persistence/aof.py\<close>. The log object, the append path through
    the background writer, periodic fsync, closing, rewriting, reading and replaying.
  \<^item> \<open>Master\<close>, \<open>Master_Machine\<close>: \<open>replication/master.py\<close>. The operations on replica links, and the
    interleavings of writes, full resynchronisations, drains and disconnections as a step relation.
  \<^item> \<open>Server_State\<close>, \<open>Commands\<close>, \<open>Server\<close>: \<open>server.py\<close> and \<open>commands/\<close>. The server object, all 22
    command handlers, the registry, \<open>_execute_inner\<close> with its guards, memory limit, logging and
    propagation, recovery at start, and the handling of received bytes up to the replies.
    \<open>Server_Inv\<close>, \<open>Server_Machine\<close>, \<open>Server_Correct\<close>, \<open>Server_Persist\<close> hold the proofs; the locale
    \<open>handler_contract\<close> states what every handler keeps, and \<open>dispatch\<close> interprets it;
    \<open>quiet_handler\<close> is the stronger contract of the handlers that change no data.
  \<^item> \<open>Recovery\<close>: recovery from the log as a theorem on whole histories. The locale \<open>map_op\<close> states when a
    store operation acts on a map from keys to values; the commands that set no deadline do, so the
    state they leave is a function of the commands alone.
  \<^item> \<open>Database\<close>: the server as a database. \<open>db_call\<close> specifies every data command, errors included, on a map
    of entries with deadlines; the locale \<open>timed_op\<close> states when a store operation acts on that map as
    its specification says, and the handlers and \<open>execute\<close> refine it.
  \<^item> \<open>Restart\<close>: \<open>SAVE\<close> and the start of a later process on the snapshot, deadlines included.
  \<^item> \<open>Connection\<close>: \<open>handle_client\<close> and \<open>_hold_replica_connection\<close> of \<open>server.py\<close>, one connection from its
    acceptance to its end, with the timeouts, which are computed on Python floats. The locale
    \<open>command_frame\<close> describes the parts of the server no command changes.
  \<^item> \<open>Lifecycle\<close>: \<open>start\<close> and \<open>stop\<close> of \<open>server.py\<close>, the background tasks with their cancellation, the
    threads that may outlive a cancelled save, \<open>start\<close> and \<open>stop\<close> of the replica client, and \<open>cli.py\<close> from
    the command line \<open>argparse\<close> has read to the exit status, \<open>KeyboardInterrupt\<close> included.
  \<^item> \<open>Benchmark\<close>: the client of \<open>tools/benchmark.py\<close>, and client and server together. The locale
    \<open>answered_requests\<close> states what makes a worker succeed; \<open>PING\<close> and \<open>SET\<close> interpret it.
  \<^item> \<open>Scenario\<close>, \<open>Scenario_Correct\<close>, \<open>Scenario_Sections\<close>: the end-to-end script \<open>docs/_qa_e2e_verify.py\<close>, a
    client that asserts what a server answers before and after crashes. A section is a list of steps
    with an interpreter; \<open>passes\<close> evaluates it on the abstract database, and the locale \<open>waiting\<close> states
    what may happen to the server while the script sleeps.
  \<^item> \<open>Replica\<close>, \<open>Replica_Correct\<close>: \<open>replication/replica.py\<close>. The replica's session: handshake, snapshot
    transfer, command stream, retries.

  \<^bold>\<open>The environment.\<close> The clock is a function from the number of readings taken so far to
  milliseconds; theorems that need it assume it monotone. The outcomes of writes, fsyncs and file
  replacements are functions from the number of calls so far, so that every theorem holds for all
  of them. Sampling in active expiry is an argument. A network connection is the list of chunks its
  reads return or, where timeouts matter (\<open>Connection\<close>), a function from the number of the read and its
  timeout to data, a timeout or an error, with the readings of the monotonic clock and what other
  tasks do meanwhile as further functions. Coroutines are modelled up to their results; what the
  write lock protects is one step, and where coroutines interleave without it (\<open>Master_Machine\<close>)
  every step between two awaits is a step of a relation.

  \<^bold>\<open>What is proved.\<close>

  \<^item> Protocol: encoded values and pipelined commands are parsed back exactly, however the bytes are
    cut; the buffer is bounded; error replies cannot be split.
  \<^item> Keyspace: the invariant of the entries and the LRU stamps in every reachable state; every
    operation refines its specification on the keyspace a client sees; expiry, deletion and eviction
    do what Redis documents for the policies; no assertion of the code can fail.
  \<^item> Snapshots: saving and loading restore the keyspace, any changed byte is detected, loading
    arbitrary bytes raises nothing but \<open>RdbError\<close> (no \<open>struct.error\<close>, no \<open>IndexError\<close>).
  \<^item> Log: acknowledged commands survive a crash that keeps their bytes, under \<open>always\<close> the bytes an fsync has
    confirmed; a torn tail costs only the torn command, a failed log acknowledges nothing; replaying a
    log rewritten from keys that had not expired, within the limits of the loading parser, restores
    the keyspace it was written from.
  \<^item> Recovery: after a crash that cuts the log at any byte, a new process shows exactly the keyspace the
    old one had after the last request whose log was complete; after a clean stop, all of it.
  \<^item> Database: the replies to any sequence of data commands of any clients are those of the abstract
    database at non-decreasing times. A snapshot survives a crash with its deadlines.
  \<^item> Connections: a connection that always has an incomplete frame pending is ended by its timeout;
    however a connection ends, what it took is given back.
  \<^item> Process: which hosts are accepted without a password, for every host; the check of \<open>--replicaof\<close>; a
    stop that returns leaves nothing in the event loop and nothing open but, possibly, the thread of a
    save; what the exit status says.
  \<^item> Client and server: with both byte streams cut anywhere, every request of a benchmark worker is
    answered and the keyspace holds exactly its keys in addition; the percentiles of a report are
    values of the sample, in order. The sections of the end-to-end script on the commands and on two
    kinds of crash pass.
  \<^item> Server: the keyspace invariant whatever clients send and the disk does; a command answered with
    an error has no effect, unless the error is that the log could not be extended; a client that has
    not authenticated touches no data; a write that is answered is logged, with a \<open>DEL\<close> for each key
    evicted for it; replicas are read-only for clients.
  \<^item> Replication: what a replica is sent is its snapshot followed by the commands since, without gap,
    repetition or reordering, in bounded memory; a full resynchronisation ends as soon as one wait
    passes without a write, and the replica is complete then if its link survived; a replica that
    receives these bytes, no read crossing the end of the snapshot, reaches the state the same
    snapshot and commands give.
  \<^item> Deviations: theorems that state where the code does not do what it means to: \<open>PSYNC\<close> without
    authentication, deadlines beyond 63 bits, keys revived by a rewrite, logs the loader refuses,
    commands a replica drops, deadlines that a restart renews, a write that stays although it is
    answered with \<open>MISCONF\<close>, a save that outlives \<open>stop\<close>; and lemmas on file names the check lets
    through, a failed bind after which \<open>stop\<close> is not called, and a stop that waits for its clients.

  \<^bold>\<open>Bounds.\<close> Sizes appear as the code has them: the parser limits of a connection come from the
  configuration, those of the log reader and of a replica are the parser's defaults (32,000,000
  bytes, 1,024 elements). Python integers are unbounded; the limit of 4,300 digits of \<open>int\<close> and
  \<open>str\<close> conversions is part of the model, and floats are exact dyadic numbers rounded to 53 bits after
  each operation. No definition uses fuel: loops are recursions on lists or have a termination proof
  by a measure; the loop of a connection and the loop that holds a replica, which run as long as the
  peer stays, are partial functions, \<open>None\<close> standing for a run that does not end.

  \<^bold>\<open>Not modelled, and why.\<close> \<open>argparse\<close>'s treatment of option strings: the model starts from what it makes of
  them, the namespace, the help text (exit 0) or a usage error (exit 2). In \<open>cli.py\<close>, logging set-up,
  the registration of signal handlers, and a signal that arrives while \<open>start\<close> still runs. Log
  messages. In \<open>aof.py\<close>, a second failure while \<open>_replace_file_sync\<close> reopens the log after a first one. In
  \<open>tools/benchmark.py\<close>, durations, the rounding of the report and the interleaving of the
  workers. In \<open>docs/_qa_e2e_verify.py\<close>, the section on replication, which polls a second server while it
  synchronises, and the choice of ports, clean-up and printing of \<open>main\<close>.

  \<^bold>\<open>Limits.\<close> Recovery from the log is stated for histories without deadlines, since replaying renews them;
  connections are served one chunk at a time, without interleaving at every await. In the server a
  full resynchronisation (\<open>full_resync\<close>) is one step; its interleaving with writes and failing drains is the
  subject of \<open>Master_Machine\<close>. A background save is split at its awaits (\<open>bgsave_step\<close>), a rewrite, which holds
  the write lock throughout, is one step. \<open>load_rdb_bytes\<close> is given the time that the code reads after the
  header.
\<close>

end
